(* ===== verification/Istio_Prelude.thy ===== *)
theory Istio_Prelude
  imports
    Main
    "HOL-Library.Word"
    "HOL-Library.Multiset"
    "HOL-Library.Char_ord"
    "HOL-Library.List_Lexorder"
    "HOL-Library.AList"
    "HOL-Library.Signed_Division"
begin

text \<open>
  What every component of istio-csr shares: Go's error values, the parts of the Go standard
  library the sources call (\<open>errors\<close>, \<open>strings\<close>, \<open>time\<close>, maps), the types of the model, and the
  generic lemmas about them.

  Conventions. A Go \<open>string\<close> or \<open>[]byte\<close> that holds text is a HOL \<^typ>\<open>string\<close>, a list of
  bytes; raw DER is a list of \<^typ>\<open>8 word\<close>. A Go \<open>error\<close> is an \<open>error option\<close> where \<open>None\<close> is
  \<open>nil\<close>; a call that returns a value and an error returns \<open>error + 'a\<close>. Error values carry the
  format string of the source, not the formatted arguments. A \<open>time.Duration\<close> is a
  \<^typ>\<open>64 word\<close> read as two's complement nanoseconds, so its arithmetic wraps as in Go. A Go
  \<open>map[string]string\<close> is an association list read with \<^const>\<open>map_of\<close>; order is not observable.
\<close>

section \<open>Collections of rewrite rules\<close>

named_theorems go_simps \<open>definitions of the Go library functions the sources call\<close>
named_theorems ext_simps \<open>definitions of the CSR extension checks\<close>
named_theorems mgr_simps \<open>operations of the cert-manager manager\<close>
named_theorems srv_simps \<open>operations of the gRPC server\<close>

section \<open>Errors\<close>

type_synonym byte = "8 word"
type_synonym bytes = "8 word list"
type_synonym duration = "64 word"
type_synonym strmap = "(string \<times> string) list"

text \<open>
  \<open>Errorf m\<close> is a fresh error with format string \<open>m\<close>; \<open>Wrapf m e\<close> is one that wraps \<open>e\<close>
  (verb \<open>%w\<close>, or \<open>%s\<close> and \<open>%v\<close> applied to an error); \<open>Joined es\<close> is the value of \<open>errors.Join\<close>.
\<close>

datatype error = Errorf string | Wrapf string error | Joined "error list"

text \<open>\<open>errors.Join\<close> drops the nil entries and is nil when none is left.\<close>

definition errors_Join :: "error list \<Rightarrow> error option" where
  "errors_Join es = (if es = [] then None else Some (Joined es))"

text \<open>
  A computation of the program returns, or panics (a nil pointer dereference, an index out of
  range), or blocks for ever (a receive from a channel nobody sends on).
\<close>

datatype 'a go = Return 'a | Panic | Blocked

section \<open>Strings\<close>

text \<open>\<open>strings.Join\<close>.\<close>

fun strings_Join :: "string list \<Rightarrow> string \<Rightarrow> string" where
  "strings_Join [] sep = []"
| "strings_Join [x] sep = x"
| "strings_Join (x # y # ys) sep = x @ sep @ strings_Join (y # ys) sep"

text \<open>
  \<open>strings.Cut\<close> for a separator of one byte: the text before and after its first occurrence and
  whether there is one; the whole text and the empty one otherwise.
\<close>

fun strings_Cut :: "string \<Rightarrow> char \<Rightarrow> string \<times> string \<times> bool" where
  "strings_Cut [] sep = ([], [], False)"
| "strings_Cut (c # cs) sep =
     (if c = sep then ([], cs, True)
      else case strings_Cut cs sep of (before, after, found) \<Rightarrow> (c # before, after, found))"

section \<open>Durations\<close>

text \<open>\<open>time.Second\<close>, and Go's builtin \<open>min\<close> and division on \<open>int64\<close> (division truncates).\<close>

definition time_Second :: duration where
  "time_Second = 1000000000"

definition go_min :: "duration \<Rightarrow> duration \<Rightarrow> duration" where
  "go_min a b = (if sint b < sint a then b else a)"

definition go_quot :: "duration \<Rightarrow> duration \<Rightarrow> duration" where
  "go_quot a b = word_of_int (sint a sdiv sint b)"

declare errors_Join_def [go_simps] time_Second_def [go_simps] go_min_def [go_simps]
  go_quot_def [go_simps]

section \<open>Lemmas\<close>

lemma errors_Join_None [simp]: "errors_Join es = None \<longleftrightarrow> es = []"
  by (simp add: errors_Join_def)

lemma strings_Cut_eq:
  "strings_Cut s sep = (takeWhile (\<lambda>c. c \<noteq> sep) s, tl (dropWhile (\<lambda>c. c \<noteq> sep) s), sep \<in> set s)"
  by (induction s) auto

lemma strings_Cut_append:
  "sep \<notin> set a \<Longrightarrow> strings_Cut (a @ sep # b) sep = (a, b, True)"
  by (induction a) auto

lemma strings_Cut_found:
  "strings_Cut s sep = (a, b, True) \<longleftrightarrow> sep \<notin> set a \<and> a @ sep # b = s"
proof
  assume "strings_Cut s sep = (a, b, True)"
  then have a: "a = takeWhile (\<lambda>c. c \<noteq> sep) s" and b: "b = tl (dropWhile (\<lambda>c. c \<noteq> sep) s)"
    and m: "sep \<in> set s"
    by (auto simp: strings_Cut_eq)
  then obtain d where "dropWhile (\<lambda>c. c \<noteq> sep) s = sep # d"
    by (metis (mono_tags, lifting) dropWhile_eq_Cons_conv dropWhile_eq_Nil_conv list.exhaust)
  with a b show "sep \<notin> set a \<and> a @ sep # b = s"
    by (metis (mono_tags, lifting) list.sel(3) set_takeWhileD takeWhile_dropWhile_id)
qed (auto simp: strings_Cut_append)

lemma sint64_bounds: "- (2 ^ 63) \<le> sint (d :: duration)" "sint (d :: duration) < 2 ^ 63"
  using sint_ge [of d] sint_lt [of d] by simp_all

lemma sint64_of_int:
  "- (2 ^ 63) \<le> i \<Longrightarrow> i < 2 ^ 63 \<Longrightarrow> sint (word_of_int i :: duration) = i"
  by (simp add: sint_sbintrunc' signed_take_bit_int_eq_self)

lemma sint_go_min: "sint (go_min a b) = min (sint a) (sint b)"
  by (simp add: go_min_def)

section \<open>Runs that end\<close>

text \<open>A step that goes down in a well-founded order wherever the goal is not reached leads to the goal.\<close>

lemma wf_reaches:
  assumes "wf r" and "\<And>s. P s \<Longrightarrow> \<not> Q s \<Longrightarrow> \<exists>s'. R s s' \<and> P s' \<and> (s', s) \<in> r" and "P s"
  shows "\<exists>s'. R\<^sup>*\<^sup>* s s' \<and> P s' \<and> Q s'"
  using assms(3)
proof (induction s rule: wf_induct_rule [OF assms(1)])
  case (1 s)
  show ?case
  proof (cases "Q s")
    case True
    with 1 show ?thesis by blast
  next
    case False
    with assms(2) 1 obtain s1 where "R s s1" "P s1" "(s1, s) \<in> r" by blast
    with 1 show ?thesis by (meson converse_rtranclp_into_rtranclp)
  qed
qed

lemma measure_reaches:
  fixes m :: "'s \<Rightarrow> nat"
  assumes "\<And>s. P s \<Longrightarrow> \<not> Q s \<Longrightarrow> \<exists>s'. R s s' \<and> P s' \<and> m s' < m s" and "P s"
  shows "\<exists>s'. R\<^sup>*\<^sup>* s s' \<and> P s' \<and> Q s'"
  by (rule wf_reaches [of "measure m"]) (use assms in auto)

end
