(* ===== verification/Asn1.thy ===== *)
theory Asn1
  imports Istio_Prelude
begin

text \<open>
  The part of Go's \<open>encoding/asn1\<close> that \<open>pkg/server/internal/extensions\<close> calls:
  \<open>asn1.Unmarshal\<close> into an \<open>asn1.RawValue\<close> and into an \<open>[]asn1.ObjectIdentifier\<close>, with the
  functions of the library they reach (\<open>parseTagAndLength\<close>, \<open>parseBase128Int\<close>,
  \<open>parseObjectIdentifier\<close>, \<open>parseSequenceOf\<close>). The library reads at an offset into a slice;
  the model reads the remaining suffix. All integers the parser builds stay below \<open>2 ^ 35\<close>, so
  they are natural numbers here. \<open>der\<close> is the encoder the round-trip lemmas are stated with.
\<close>

section \<open>The parser\<close>

record tagAndLength =
  tal_class :: nat
  tal_tag :: nat
  tal_isCompound :: bool
  tal_length :: nat

record RawValue =
  rv_Class :: nat
  rv_Tag :: nat
  rv_IsCompound :: bool
  rv_Bytes :: bytes

definition ClassUniversal :: nat where "ClassUniversal = 0"
definition ClassContextSpecific :: nat where "ClassContextSpecific = 2"
definition TagOID :: nat where "TagOID = 6"
definition TagSequence :: nat where "TagSequence = 16"

text \<open>\<open>parseBase128Int\<close>: at most five septets, minimally encoded, at most \<open>math.MaxInt32\<close>.\<close>

fun parseBase128_loop :: "nat \<Rightarrow> nat \<Rightarrow> bytes \<Rightarrow> error + nat \<times> bytes" where
  "parseBase128_loop shifted ret [] = Inl (Errorf ''truncated base 128 integer'')"
| "parseBase128_loop shifted ret (b # bs) =
     (if shifted = 5 then Inl (Errorf ''base 128 integer too large'')
      else if shifted = 0 \<and> b = 128 then Inl (Errorf ''integer is not minimally encoded'')
      else let ret' = ret * 128 + unat b mod 128 in
        if unat b < 128
        then (if 2147483647 < ret' then Inl (Errorf ''base 128 integer too large'')
              else Inr (ret', bs))
        else parseBase128_loop (Suc shifted) ret' bs)"

definition parseBase128Int :: "bytes \<Rightarrow> error + nat \<times> bytes" where
  "parseBase128Int bs = parseBase128_loop 0 0 bs"

text \<open>The two halves of \<open>parseTagAndLength\<close>.\<close>

definition parseTag :: "byte \<Rightarrow> bytes \<Rightarrow> error + nat \<times> bytes" where
  "parseTag b bs =
     (if unat b mod 32 = 31
      then (case parseBase128Int bs of
              Inl e \<Rightarrow> Inl e
            | Inr (t, rest) \<Rightarrow>
                if t < 31 then Inl (Errorf ''non-minimal tag'') else Inr (t, rest))
      else Inr (unat b mod 32, bs))"

fun parseLength_loop :: "nat \<Rightarrow> nat \<Rightarrow> bytes \<Rightarrow> error + nat \<times> bytes" where
  "parseLength_loop 0 len bs = Inr (len, bs)"
| "parseLength_loop (Suc k) len [] = Inl (Errorf ''truncated tag or length'')"
| "parseLength_loop (Suc k) len (b # bs) =
     (if 2 ^ 23 \<le> len then Inl (Errorf ''length too large'')
      else let len' = len * 256 + unat b in
        if len' = 0 then Inl (Errorf ''superfluous leading zeros in length'')
        else parseLength_loop k len' bs)"

fun parseLength :: "bytes \<Rightarrow> error + nat \<times> bytes" where
  "parseLength [] = Inl (Errorf ''truncated tag or length'')"
| "parseLength (b # bs) =
     (if unat b < 128 then Inr (unat b, bs)
      else if unat b mod 128 = 0 then Inl (Errorf ''indefinite length found (not DER)'')
      else case parseLength_loop (unat b mod 128) 0 bs of
             Inl e \<Rightarrow> Inl e
           | Inr (len, rest) \<Rightarrow>
               if len < 128 then Inl (Errorf ''non-minimal length'') else Inr (len, rest))"

fun parseTagAndLength :: "bytes \<Rightarrow> error + tagAndLength \<times> bytes" where
  "parseTagAndLength [] = Inl (Errorf ''asn1: internal error in parseTagAndLength'')"
| "parseTagAndLength (b # bs) =
     (case parseTag b bs of
        Inl e \<Rightarrow> Inl e
      | Inr (t, bs1) \<Rightarrow>
          (case parseLength bs1 of
             Inl e \<Rightarrow> Inl e
           | Inr (len, rest) \<Rightarrow>
               Inr (\<lparr>tal_class = unat b div 64, tal_tag = t,
                     tal_isCompound = (unat b div 32 mod 2 = 1), tal_length = len\<rparr>, rest)))"

text \<open>\<open>asn1.Unmarshal(bs, &rawValue)\<close>: the value and the bytes after it.\<close>

definition unmarshal_raw :: "bytes \<Rightarrow> error + RawValue \<times> bytes" where
  "unmarshal_raw bs =
     (if bs = [] then Inl (Errorf ''sequence truncated'')
      else case parseTagAndLength bs of
             Inl e \<Rightarrow> Inl e
           | Inr (t, rest) \<Rightarrow>
               if length rest < tal_length t then Inl (Errorf ''data truncated'')
               else Inr (\<lparr>rv_Class = tal_class t, rv_Tag = tal_tag t,
                          rv_IsCompound = tal_isCompound t,
                          rv_Bytes = take (tal_length t) rest\<rparr>,
                         drop (tal_length t) rest))"

section \<open>Every parser consumes a non-empty prefix\<close>

lemma parseBase128_loop_suffix:
  "parseBase128_loop s r bs = Inr (n, rest) \<Longrightarrow> \<exists>p. p \<noteq> [] \<and> bs = p @ rest"
proof (induction s r bs rule: parseBase128_loop.induct)
  case (2 s r b bs)
  then show ?case
    by (auto simp: Let_def split: if_splits)
qed simp

lemma parseLength_loop_suffix:
  "parseLength_loop k l bs = Inr (n, rest) \<Longrightarrow> \<exists>p. bs = p @ rest"
proof (induction k l bs rule: parseLength_loop.induct)
  case (3 k l b bs)
  then show ?case
    by (auto simp: Let_def split: if_splits)
qed auto

lemma parseLength_suffix: "parseLength bs = Inr (n, rest) \<Longrightarrow> \<exists>p. bs = p @ rest"
  by (cases bs) (auto split: if_splits sum.splits dest!: parseLength_loop_suffix
      intro: exI [of _ "_ # _"])

lemma parseTag_suffix: "parseTag b bs = Inr (n, rest) \<Longrightarrow> \<exists>p. bs = p @ rest"
  by (auto simp: parseTag_def parseBase128Int_def split: if_splits sum.splits
      dest!: parseBase128_loop_suffix)

lemma parseTagAndLength_suffix:
  assumes "parseTagAndLength bs = Inr (t, rest)"
  shows "\<exists>p. p \<noteq> [] \<and> bs = p @ rest"
proof (cases bs)
  case (Cons b cs)
  with assms obtain tg bs1 len where "parseTag b cs = Inr (tg, bs1)"
    and "parseLength bs1 = Inr (len, rest)"
    by (auto split: sum.splits)
  then obtain p q where "cs = p @ bs1" and "bs1 = q @ rest"
    using parseTag_suffix parseLength_suffix by blast
  with Cons show ?thesis by (intro exI [of _ "b # p @ q"]) simp
qed (use assms in simp)

lemma parseTagAndLength_shorter:
  "parseTagAndLength bs = Inr (t, rest) \<Longrightarrow> length (drop n rest) < length bs"
  by (auto dest!: parseTagAndLength_suffix simp: length_greater_0_conv [symmetric]
      simp del: length_greater_0_conv)

lemma unmarshal_raw_suffix:
  assumes "unmarshal_raw bs = Inr (rv, rest)"
  shows "\<exists>hdr. hdr \<noteq> [] \<and> bs = hdr @ rv_Bytes rv @ rest"
proof -
  from assms obtain t cs where t: "parseTagAndLength bs = Inr (t, cs)"
    and rv: "rv_Bytes rv = take (tal_length t) cs" and rest: "rest = drop (tal_length t) cs"
    by (auto simp: unmarshal_raw_def split: if_splits sum.splits)
  from parseTagAndLength_suffix [OF t] obtain p where "p \<noteq> []" and "bs = p @ cs" by blast
  with rv rest show ?thesis by (intro exI [of _ p]) simp
qed

lemma unmarshal_raw_shorter: "unmarshal_raw bs = Inr (rv, rest) \<Longrightarrow> length rest < length bs"
  by (auto dest!: unmarshal_raw_suffix)

section \<open>Sequences of object identifiers\<close>

text \<open>\<open>parseObjectIdentifier\<close>: the first value packs two arcs, each further one is an arc.\<close>

function parseOID_arcs :: "bytes \<Rightarrow> error + nat list" where
  "parseOID_arcs bs =
     (if bs = [] then Inr []
      else case parseBase128Int bs of
             Inl e \<Rightarrow> Inl e
           | Inr (v, rest) \<Rightarrow>
               (case parseOID_arcs rest of Inl e \<Rightarrow> Inl e | Inr vs \<Rightarrow> Inr (v # vs)))"
  by pat_completeness auto
termination
  by (relation "measure length")
    (auto simp: parseBase128Int_def dest!: parseBase128_loop_suffix)

definition parseObjectIdentifier :: "bytes \<Rightarrow> error + nat list" where
  "parseObjectIdentifier bs =
     (if bs = [] then Inl (Errorf ''zero length OBJECT IDENTIFIER'')
      else case parseBase128Int bs of
             Inl e \<Rightarrow> Inl e
           | Inr (v, rest) \<Rightarrow>
               (case parseOID_arcs rest of
                  Inl e \<Rightarrow> Inl e
                | Inr vs \<Rightarrow>
                    Inr (if v < 80 then v div 40 # v mod 40 # vs else 2 # (v - 80) # vs)))"

text \<open>
  \<open>parseSequenceOf\<close> at element type \<open>ObjectIdentifier\<close>: a first pass checks every header and
  counts the elements, a second one parses them. (The library maps string and time tags to one
  representative before it compares; none of them is the identifier's tag.)
\<close>

function count_elements :: "bytes \<Rightarrow> error + nat" where
  "count_elements bs =
     (if bs = [] then Inr 0
      else case parseTagAndLength bs of
             Inl e \<Rightarrow> Inl e
           | Inr (t, rest) \<Rightarrow>
               if tal_class t \<noteq> ClassUniversal \<or> tal_isCompound t \<or> tal_tag t \<noteq> TagOID
               then Inl (Errorf ''sequence tag mismatch'')
               else if length rest < tal_length t then Inl (Errorf ''truncated sequence'')
               else (case count_elements (drop (tal_length t) rest) of
                       Inl e \<Rightarrow> Inl e
                     | Inr n \<Rightarrow> Inr (Suc n)))"
  by pat_completeness auto
termination
  by (relation "measure length") (auto simp del: length_drop intro: parseTagAndLength_shorter)

definition parseField_oid :: "bytes \<Rightarrow> error + nat list \<times> bytes" where
  "parseField_oid bs =
     (case unmarshal_raw bs of
        Inl e \<Rightarrow> Inl e
      | Inr (rv, rest) \<Rightarrow>
          if rv_Class rv \<noteq> ClassUniversal \<or> rv_Tag rv \<noteq> TagOID \<or> rv_IsCompound rv
          then Inl (Errorf ''tags don't match'')
          else (case parseObjectIdentifier (rv_Bytes rv) of
                  Inl e \<Rightarrow> Inl e
                | Inr oid \<Rightarrow> Inr (oid, rest)))"

fun parse_elements :: "nat \<Rightarrow> bytes \<Rightarrow> error + nat list list" where
  "parse_elements 0 bs = Inr []"
| "parse_elements (Suc n) bs =
     (case parseField_oid bs of
        Inl e \<Rightarrow> Inl e
      | Inr (oid, rest) \<Rightarrow>
          (case parse_elements n rest of Inl e \<Rightarrow> Inl e | Inr oids \<Rightarrow> Inr (oid # oids)))"

definition parseSequenceOf :: "bytes \<Rightarrow> error + nat list list" where
  "parseSequenceOf bs =
     (case count_elements bs of Inl e \<Rightarrow> Inl e | Inr n \<Rightarrow> parse_elements n bs)"

text \<open>\<open>asn1.Unmarshal(bs, &oids)\<close>.\<close>

definition unmarshal_oids :: "bytes \<Rightarrow> error + nat list list \<times> bytes" where
  "unmarshal_oids bs =
     (case unmarshal_raw bs of
        Inl e \<Rightarrow> Inl e
      | Inr (rv, rest) \<Rightarrow>
          if rv_Class rv \<noteq> ClassUniversal \<or> rv_Tag rv \<noteq> TagSequence \<or> \<not> rv_IsCompound rv
          then Inl (Errorf ''tags don't match'')
          else (case parseSequenceOf (rv_Bytes rv) of
                  Inl e \<Rightarrow> Inl e
                | Inr oids \<Rightarrow> Inr (oids, rest)))"

declare parseOID_arcs.simps [simp del] count_elements.simps [simp del]

section \<open>The encoder and its round trip\<close>

text \<open>Distinguished encoding of a value with a low tag number and a length below \<open>2 ^ 31\<close>.\<close>

fun big_endian :: "nat \<Rightarrow> bytes" where
  "big_endian n =
     (if n < 256 then [of_nat n] else big_endian (n div 256) @ [of_nat (n mod 256)])"

declare big_endian.simps [simp del]

definition der_length :: "nat \<Rightarrow> bytes" where
  "der_length n =
     (if n < 128 then [of_nat n]
      else of_nat (128 + length (big_endian n)) # big_endian n)"

definition der :: "RawValue \<Rightarrow> bytes" where
  "der rv =
     of_nat (rv_Class rv * 64 + (if rv_IsCompound rv then 32 else 0) + rv_Tag rv)
     # der_length (length (rv_Bytes rv)) @ rv_Bytes rv"

text \<open>The values \<open>der\<close> encodes: two bits of class, a tag below 31.\<close>

definition encodable :: "RawValue \<Rightarrow> bool" where
  "encodable rv \<longleftrightarrow> rv_Class rv < 4 \<and> rv_Tag rv < 31 \<and> length (rv_Bytes rv) < 2 ^ 31"

lemma unat_byte [simp]: "n < 256 \<Longrightarrow> unat (of_nat n :: byte) = n"
  by (simp add: unat_of_nat)

lemma parseLength_loop_append:
  "parseLength_loop k acc xs = Inr (m, []) \<Longrightarrow>
   parseLength_loop (k + j) acc (xs @ ys) = parseLength_loop j m ys"
  by (induction k acc xs rule: parseLength_loop.induct)
    (auto simp: Let_def split: if_splits)

lemma parseLength_loop_big_endian:
  "0 < n \<Longrightarrow> n < 2 ^ 31 \<Longrightarrow>
   parseLength_loop (length (big_endian n)) 0 (big_endian n) = Inr (n, [])"
proof (induction n rule: big_endian.induct)
  case (1 n)
  show ?case
  proof (cases "n < 256")
    case True
    with "1.prems" show ?thesis by (simp add: big_endian.simps [of n])
  next
    case False
    with 1 have IH: "parseLength_loop (length (big_endian (n div 256))) 0 (big_endian (n div 256))
        = Inr (n div 256, [])" by simp
    from False "1.prems" have "n div 256 < 2 ^ 23" "n div 256 * 256 + n mod 256 \<noteq> 0" by auto
    then have "parseLength_loop 1 (n div 256) [of_nat (n mod 256)] = Inr (n, [])"
      by (simp add: Let_def)
    with parseLength_loop_append [OF IH, of 1 "[of_nat (n mod 256)]"] False
    show ?thesis by (simp add: big_endian.simps [of n])
  qed
qed

lemma length_big_endian: "n < 256 ^ Suc k \<Longrightarrow> length (big_endian n) \<le> Suc k"
proof (induction k arbitrary: n)
  case 0
  then show ?case by (simp add: big_endian.simps [of n])
next
  case (Suc k)
  then have "n div 256 < 256 ^ Suc k" by (simp add: less_mult_imp_div_less mult.commute)
  with Suc.IH show ?case by (simp add: big_endian.simps [of n])
qed

lemma big_endian_ne [simp]: "big_endian n \<noteq> []"
  by (simp add: big_endian.simps [of n])

lemma parseLength_der_length:
  assumes "n < 2 ^ 31"
  shows "parseLength (der_length n @ rest) = Inr (n, rest)"
proof (cases "n < 128")
  case True
  then show ?thesis by (simp add: der_length_def)
next
  case False
  let ?k = "length (big_endian n)"
  from assms have k4: "?k \<le> 4" using length_big_endian [of n 3] by simp
  then have "128 + ?k < 256" by simp
  then have u: "unat (of_nat (128 + ?k) :: byte) = 128 + ?k" by (rule unat_byte)
  have k0: "?k \<noteq> 0" by simp
  have "parseLength_loop ?k 0 (big_endian n @ rest) = Inr (n, rest)"
    using parseLength_loop_append [OF parseLength_loop_big_endian, of n 0 rest] False assms
    by simp
  with False k0 k4 u show ?thesis by (simp add: der_length_def del: of_nat_add)
qed

lemma identifier_octet:
  fixes t c n :: nat
  assumes "t < 32" and "n = c * 64 + (if cmp then 32 else 0) + t"
  shows "n mod 32 = t" and "n div 64 = c" and "(n div 32 mod 2 = 1) = cmp"
proof -
  have n: "n = t + (c * 2 + of_bool cmp) * 32" using assms by simp
  with assms(1) show "n mod 32 = t" by (simp only: mod_mult_self1 mod_less)
  from n assms(1) have q: "n div 32 = c * 2 + of_bool cmp" by simp
  then show "(n div 32 mod 2 = 1) = cmp" by simp
  have "n div 64 = n div 32 div 2" by (simp flip: div_mult2_eq)
  with q show "n div 64 = c" by simp
qed

lemma parseTagAndLength_der:
  assumes "encodable rv"
  shows "parseTagAndLength (der rv @ rest) =
      Inr (\<lparr>tal_class = rv_Class rv, tal_tag = rv_Tag rv, tal_isCompound = rv_IsCompound rv,
        tal_length = length (rv_Bytes rv)\<rparr>, rv_Bytes rv @ rest)"
proof -
  let ?n = "rv_Class rv * 64 + (if rv_IsCompound rv then 32 else 0) + rv_Tag rv"
  from assms have b: "?n < 256" and c: "rv_Class rv < 4" and t: "rv_Tag rv < 31"
    and l: "length (rv_Bytes rv) < 2 ^ 31"
    by (auto simp: encodable_def)
  then have u: "unat (of_nat ?n :: byte) = ?n" by (intro unat_byte)
  have "?n mod 32 = rv_Tag rv" "?n div 64 = rv_Class rv"
    "(?n div 32 mod 2 = 1) = rv_IsCompound rv"
    using identifier_octet [of "rv_Tag rv" ?n "rv_Class rv" "rv_IsCompound rv"] t by auto
  then show ?thesis
    using t u parseLength_der_length [OF l, of "rv_Bytes rv @ rest"]
    by (simp add: der_def parseTag_def del: of_nat_add)
qed

lemma der_ne [simp]: "der rv \<noteq> []"
  by (simp add: der_def)

lemma unmarshal_raw_der [simp]:
  assumes "encodable rv"
  shows "unmarshal_raw (der rv @ rest) = Inr (rv, rest)"
  using parseTagAndLength_der [OF assms, of rest] by (simp add: unmarshal_raw_def)

lemma unmarshal_raw_der_Nil [simp]: "encodable rv \<Longrightarrow> unmarshal_raw (der rv) = Inr (rv, [])"
  using unmarshal_raw_der [of rv "[]"] by simp

end
