(* ===== verification/Extensions.thy ===== *)
theory Extensions
  imports Asn1
begin

text \<open>
  \<open>pkg/server/internal/extensions/extensions.go\<close>: which X.509 extensions a workload's
  certificate signing request may carry. \<open>k8s.io/apimachinery\<close>'s \<open>utilerrors.NewAggregate\<close> is
  the parameter \<open>NewAggregate\<close>, with its documented behaviour \<open>aggregate_law\<close>.
\<close>

unbundle bit_operations_syntax

section \<open>Model\<close>

record Extension =
  ext_Id :: "nat list"
  ext_Critical :: bool
  ext_Value :: bytes

text \<open>The fields of Go's \<open>x509.CertificateRequest\<close> that istio-csr reads; \<open>'url\<close> is \<open>url.URL\<close>.\<close>

record 'url CertificateRequest =
  csr_CommonName :: string
  csr_Extensions :: "Extension list"
  csr_ExtraExtensions :: "Extension list"
  csr_DNSNames :: "string list"
  csr_EmailAddresses :: "string list"
  csr_IPAddresses :: "bytes list"
  csr_URIs :: "'url list"

definition asn1TagURI :: nat where
  "asn1TagURI = 6"

definition oidExtensionKeyUsage :: "nat list" where
  "oidExtensionKeyUsage = [2, 5, 29, 15]"

definition oidExtensionExtendedKeyUsage :: "nat list" where
  "oidExtensionExtendedKeyUsage = [2, 5, 29, 37]"

definition oidExtensionSubjectAltName :: "nat list" where
  "oidExtensionSubjectAltName = [2, 5, 29, 17]"

definition oidExtKeyUsageServerAuth :: "nat list" where
  "oidExtKeyUsageServerAuth = [1, 3, 6, 1, 5, 5, 7, 3, 1]"

definition oidExtKeyUsageClientAuth :: "nat list" where
  "oidExtKeyUsageClientAuth = [1, 3, 6, 1, 5, 5, 7, 3, 2]"

definition allowedKeyUsages :: "bytes list" where
  "allowedKeyUsages = [[3, 2, 7, 128], [3, 2, 5, 32]]"

lemmas oid_defs = oidExtensionKeyUsage_def oidExtensionExtendedKeyUsage_def
  oidExtensionSubjectAltName_def oidExtKeyUsageServerAuth_def oidExtKeyUsageClientAuth_def

text \<open>The inner loop \<open>extValue[i] &^= b\<close>, then the loop over the allowed usages.\<close>

definition clear_usage :: "bytes \<Rightarrow> bytes \<Rightarrow> bytes" where
  "clear_usage usage extValue = map2 (\<lambda>e b. e AND NOT b) extValue usage"

definition validateKeyUsageExtension :: "bytes \<Rightarrow> error option" where
  "validateKeyUsageExtension value =
     (if length value \<noteq> 4 then Some (Errorf ''forbidden key usage: %v'')
      else if fold clear_usage allowedKeyUsages value \<noteq> [0, 0, 0, 0]
      then Some (Errorf ''forbidden key usage: %v'')
      else None)"

definition validateExtendedKeyUsageExtension ::
  "(error option list \<Rightarrow> error option) \<Rightarrow> Extension \<Rightarrow> error option" where
  "validateExtendedKeyUsageExtension NewAggregate extension =
     (if ext_Id extension \<noteq> oidExtensionExtendedKeyUsage
      then Some (Errorf ''non extended key usage extension: %s'')
      else case unmarshal_oids (ext_Value extension) of
             Inl err \<Rightarrow> Some (Wrapf ''failed to parse extended key usages: %s'' err)
           | Inr (asn1ExtendedUsages, _) \<Rightarrow>
               NewAggregate
                 (map (\<lambda>usage. Some (Errorf ''forbidden extended key usage: %s''))
                    (filter (\<lambda>usage. usage \<noteq> oidExtKeyUsageClientAuth
                                   \<and> usage \<noteq> oidExtKeyUsageServerAuth) asn1ExtendedUsages)))"

text \<open>The loop over the general names: \<open>for bytes := sequence.Bytes; len(bytes) > 0\<close>.\<close>

function san_loop :: "bytes \<Rightarrow> error option" where
  "san_loop bs =
     (if bs = [] then None
      else case unmarshal_raw bs of
             Inl err \<Rightarrow> Some err
           | Inr (rawValue, rest) \<Rightarrow>
               if rv_Tag rawValue \<noteq> asn1TagURI
               then Some (Errorf ''non uri san extension given: %s'')
               else san_loop rest)"
  by pat_completeness auto
termination
  by (relation "measure length") (auto intro: unmarshal_raw_shorter)

declare san_loop.simps [simp del]

definition validateSubjectAltNameExtension :: "Extension \<Rightarrow> error option" where
  "validateSubjectAltNameExtension ext =
     (if ext_Id ext \<noteq> oidExtensionSubjectAltName
      then Some (Errorf ''extension is not a SAN type: %s'')
      else case unmarshal_raw (ext_Value ext) of
             Inl err \<Rightarrow> Some (Wrapf ''failed to unmarshal san extension: %v'' err)
           | Inr (sequence, rest) \<Rightarrow>
               if rest \<noteq> [] then Some (Errorf ''san extension incorrectly encoded: %v'')
               else if \<not> rv_IsCompound sequence \<or> rv_Tag sequence \<noteq> TagSequence
                       \<or> rv_Class sequence \<noteq> ClassUniversal
               then Some (Errorf ''san extension is incorrectly encoded: %v'')
               else san_loop (rv_Bytes sequence))"

text \<open>One iteration of the loop of \<open>ValidateCSRExtentions\<close>: the entry appended to \<open>el\<close>.\<close>

definition validateExtension ::
  "(error option list \<Rightarrow> error option) \<Rightarrow> Extension \<Rightarrow> error option" where
  "validateExtension NewAggregate extension =
     (if ext_Id extension = oidExtensionSubjectAltName
      then validateSubjectAltNameExtension extension
      else if ext_Id extension = oidExtensionKeyUsage
      then validateKeyUsageExtension (ext_Value extension)
      else if ext_Id extension = oidExtensionExtendedKeyUsage
      then validateExtendedKeyUsageExtension NewAggregate extension
      else Some (Errorf ''forbidden extension: %s''))"

definition ValidateCSRExtentions ::
  "(error option list \<Rightarrow> error option) \<Rightarrow> 'url CertificateRequest \<Rightarrow> error option" where
  "ValidateCSRExtentions NewAggregate csr =
     NewAggregate
       ((if csr_ExtraExtensions csr \<noteq> [] then [Some (Errorf ''forbidden extensions: %v'')] else [])
        @ map (validateExtension NewAggregate) (csr_Extensions csr))"

text \<open>
  \<open>NewAggregate\<close>: a slice of errors becomes one error; it is nil when the slice is empty or
  holds nil entries only.
\<close>

definition aggregate_law :: "(error option list \<Rightarrow> error option) \<Rightarrow> bool" where
  "aggregate_law NewAggregate \<longleftrightarrow>
     (\<forall>el. NewAggregate el = None \<longleftrightarrow> (\<forall>e \<in> set el. e = None))"

section \<open>Vocabulary of the specification\<close>

text \<open>
  The bits of an X.509 \<open>KeyUsage\<close> with one content octet: bit \<open>i\<close> of the \<open>BIT STRING\<close> is bit
  \<open>7 - i\<close> of the octet. 0 is \<open>digitalSignature\<close>, 2 is \<open>keyEncipherment\<close>.
\<close>

definition key_usage_bits :: "byte \<Rightarrow> nat set" where
  "key_usage_bits b = {i. i < 8 \<and> bit b (7 - i)}"

text \<open>A subject alternative name extension with the given general names, DER encoded.\<close>

definition sequence_of :: "bytes \<Rightarrow> RawValue" where
  "sequence_of content =
     \<lparr>rv_Class = ClassUniversal, rv_Tag = TagSequence, rv_IsCompound = True, rv_Bytes = content\<rparr>"

definition san_extension :: "RawValue list \<Rightarrow> Extension" where
  "san_extension names =
     \<lparr>ext_Id = oidExtensionSubjectAltName, ext_Critical = False,
      ext_Value = der (sequence_of (concat (map der names)))\<rparr>"

definition oid_value :: "bytes \<Rightarrow> RawValue" where
  "oid_value content =
     \<lparr>rv_Class = ClassUniversal, rv_Tag = TagOID, rv_IsCompound = False, rv_Bytes = content\<rparr>"

definition eku_extension :: "bytes list \<Rightarrow> Extension" where
  "eku_extension usages =
     \<lparr>ext_Id = oidExtensionExtendedKeyUsage, ext_Critical = False,
      ext_Value = der (sequence_of (concat (map (der \<circ> oid_value) usages)))\<rparr>"

declare clear_usage_def [ext_simps] allowedKeyUsages_def [ext_simps] asn1TagURI_def [ext_simps]
  oid_defs [ext_simps] sequence_of_def [ext_simps] oid_value_def [ext_simps]
  ClassUniversal_def [ext_simps] ClassContextSpecific_def [ext_simps]
  TagOID_def [ext_simps] TagSequence_def [ext_simps]

section \<open>Key usage\<close>

lemma masked_byte_eq_0: "(b :: byte) AND NOT m = 0 \<longleftrightarrow> (\<forall>i < 8. bit b i \<longrightarrow> bit m i)"
  by (auto simp: bit_eq_iff bit_and_iff bit_not_iff)

lemma all_less_8: "(\<forall>i < 8. P i) \<longleftrightarrow> P 0 \<and> P 1 \<and> P 2 \<and> P 3 \<and> P 4 \<and> P 5 \<and> P 6 \<and> P (7 :: nat)"
  by (auto simp: numeral_eq_Suc All_less_Suc)

lemma validateKeyUsage_four:
  "validateKeyUsageExtension [t, l, u, b] = None \<longleftrightarrow>
   t AND NOT 3 = 0 \<and> l AND NOT 2 = 0 \<and> u AND NOT 7 = 0 \<and> b AND NOT 160 = 0"
  by (auto simp: validateKeyUsageExtension_def ext_simps and.assoc)

lemma mask_160: "(b :: byte) AND NOT 160 = 0 \<longleftrightarrow> key_usage_bits b \<subseteq> {0, 2}"
proof -
  have "key_usage_bits b \<subseteq> {0, 2} \<longleftrightarrow> (\<forall>i < 8. bit b (7 - i) \<longrightarrow> i = 0 \<or> i = 2)"
    by (auto simp: key_usage_bits_def)
  then show ?thesis
    unfolding masked_byte_eq_0 all_less_8 by (auto simp: bit_numeral_rec)
qed

lemma mask_7: "(u :: byte) AND NOT 7 = 0 \<longleftrightarrow> unat u < 8"
proof -
  have "u AND NOT 7 = 0 \<longleftrightarrow> take_bit 3 u = u"
    unfolding masked_byte_eq_0 bit_eq_iff [of "take_bit 3 u"]
    by (auto simp: bit_take_bit_iff all_less_8 bit_numeral_rec)
  also have "\<dots> \<longleftrightarrow> unat u < 8"
    by (simp add: word_unat_eq_iff unsigned_take_bit_eq take_bit_nat_eq_self_iff)
  finally show ?thesis .
qed

section \<open>Subject alternative names\<close>

lemma san_loop_Nil [simp]: "san_loop [] = None"
  by (simp add: san_loop.simps)

lemma san_loop_der:
  "encodable n \<Longrightarrow> san_loop (der n @ rest) =
     (if rv_Tag n \<noteq> asn1TagURI then Some (Errorf ''non uri san extension given: %s'')
      else san_loop rest)"
  by (simp add: san_loop.simps [of "der n @ rest"])

lemma san_loop_names:
  "\<forall>n \<in> set names. encodable n \<Longrightarrow>
   san_loop (concat (map der names)) = None \<longleftrightarrow> (\<forall>n \<in> set names. rv_Tag n = asn1TagURI)"
  by (induction names) (auto simp: san_loop_der)

lemma encodable_sequence_of [simp]: "length content < 2 ^ 31 \<Longrightarrow> encodable (sequence_of content)"
  by (simp add: encodable_def ext_simps)

lemma encodable_oid_value [simp]: "length content < 2 ^ 31 \<Longrightarrow> encodable (oid_value content)"
  by (simp add: encodable_def ext_simps)

lemma validate_san_extension:
  assumes "length (concat (map der names)) < 2 ^ 31"
  shows "validateSubjectAltNameExtension (san_extension names) =
    san_loop (concat (map der names))"
  using encodable_sequence_of [OF assms]
  by (simp add: validateSubjectAltNameExtension_def san_extension_def sequence_of_def)

text \<open>
  Whatever the bytes, an accepted sequence of general names splits into elements that the
  library reads one after the other, each with the URI tag.
\<close>

lemma san_loop_sound:
  "san_loop bs = None \<Longrightarrow>
   \<exists>parts :: (bytes \<times> RawValue) list. bs = concat (map (\<lambda>p. fst p @ rv_Bytes (snd p)) parts) \<and>
     (\<forall>p \<in> set parts. fst p \<noteq> [] \<and> rv_Tag (snd p) = asn1TagURI)"
proof (induction bs rule: san_loop.induct)
  case (1 bs)
  show ?case
  proof (cases "bs = []")
    case True
    then show ?thesis by (intro exI [of _ "[]"]) simp
  next
    case False
    with "1.prems" obtain rv rest where r: "unmarshal_raw bs = Inr (rv, rest)"
      and t: "rv_Tag rv = asn1TagURI" and l: "san_loop rest = None"
      by (auto simp: san_loop.simps [of bs] split: sum.splits if_splits)
    from t have nt: "\<not> rv_Tag rv \<noteq> asn1TagURI" by simp
    from "1.IH" [OF False r refl nt l] obtain parts :: "(bytes \<times> RawValue) list" where
      "rest = concat (map (\<lambda>p. fst p @ rv_Bytes (snd p)) parts)"
      "\<forall>p \<in> set parts. fst p \<noteq> [] \<and> rv_Tag (snd p) = asn1TagURI"
      by blast
    moreover from unmarshal_raw_suffix [OF r] obtain hdr where
      "hdr \<noteq> []" "bs = hdr @ rv_Bytes rv @ rest" by blast
    ultimately show ?thesis
      using t by (intro exI [of _ "(hdr, rv) # parts"]) simp
  qed
qed

section \<open>Extended key usages\<close>

lemma count_elements_Nil [simp]: "count_elements [] = Inr 0"
  by (simp add: count_elements.simps)

lemma count_elements_oid:
  assumes "length c < 2 ^ 31"
  shows "count_elements (der (oid_value c) @ rest) =
    (case count_elements rest of Inl e \<Rightarrow> Inl e | Inr n \<Rightarrow> Inr (Suc n))"
  using parseTagAndLength_der [OF encodable_oid_value [OF assms], of rest]
  by (simp add: count_elements.simps [of "der _ @ _"] oid_value_def)

lemma count_elements_oids:
  "\<forall>c \<in> set cs. length c < 2 ^ 31 \<Longrightarrow>
   count_elements (concat (map (der \<circ> oid_value) cs)) = Inr (length cs)"
  by (induction cs) (auto simp: count_elements_oid)

lemma parseField_oid_der:
  "length c < 2 ^ 31 \<Longrightarrow> parseObjectIdentifier c = Inr oid \<Longrightarrow>
   parseField_oid (der (oid_value c) @ rest) = Inr (oid, rest)"
  using encodable_oid_value [of c] by (simp add: parseField_oid_def oid_value_def)

lemma parse_elements_oids:
  "\<forall>c \<in> set cs. length c < 2 ^ 31 \<and> parseObjectIdentifier c = Inr (oid c) \<Longrightarrow>
   parse_elements (length cs) (concat (map (der \<circ> oid_value) cs)) = Inr (map oid cs)"
  by (induction cs) (auto simp: parseField_oid_der)

lemma unmarshal_eku_extension:
  assumes "\<forall>c \<in> set cs. length c < 2 ^ 31 \<and> parseObjectIdentifier c = Inr (oid c)"
    and "length (concat (map (der \<circ> oid_value) cs)) < 2 ^ 31"
  shows "unmarshal_oids (ext_Value (eku_extension cs)) = Inr (map oid cs, [])"
  using encodable_sequence_of [OF assms(2)] parse_elements_oids [OF assms(1)]
    count_elements_oids [of cs] assms(1)
  by (simp add: unmarshal_oids_def eku_extension_def sequence_of_def parseSequenceOf_def)

lemma validateExtendedKeyUsage_None:
  assumes "aggregate_law NewAggregate"
  shows "validateExtendedKeyUsageExtension NewAggregate ext = None \<longleftrightarrow>
    ext_Id ext = oidExtensionExtendedKeyUsage \<and>
    (\<exists>usages rest. unmarshal_oids (ext_Value ext) = Inr (usages, rest) \<and>
       set usages \<subseteq> {oidExtKeyUsageClientAuth, oidExtKeyUsageServerAuth})"
  using assms
  by (auto simp: validateExtendedKeyUsageExtension_def aggregate_law_def split: sum.splits)

section \<open>The whole request\<close>

lemma ValidateCSRExtentions_None:
  assumes "aggregate_law NewAggregate"
  shows "ValidateCSRExtentions NewAggregate csr = None \<longleftrightarrow>
    csr_ExtraExtensions csr = [] \<and>
    (\<forall>ext \<in> set (csr_Extensions csr). validateExtension NewAggregate ext = None)"
  using assms by (auto simp: ValidateCSRExtentions_def aggregate_law_def)

text \<open>A concrete \<open>NewAggregate\<close> that satisfies the documented law.\<close>

definition aggregate_errors :: "error option list \<Rightarrow> error option" where
  "aggregate_errors el = errors_Join (List.map_filter id el)"

lemma aggregate_law_errors: "aggregate_law aggregate_errors"
proof -
  have "List.map_filter id el = [] \<longleftrightarrow> (\<forall>e \<in> set el. e = None)" for el :: "error option list"
    by (induction el) (auto simp: map_filter_simps split: option.splits)
  then show ?thesis by (simp add: aggregate_law_def aggregate_errors_def)
qed

section \<open>Properties\<close>

text \<open>
  C25: A key usage extension that is a DER \<open>BIT STRING\<close> with one content octet (\<open>u\<close> unused bits,
  octet \<open>b\<close>) is accepted exactly when it declares at most seven unused bits and asserts no usage
  beside digital signature (bit 0) and key encipherment (bit 2).
\<close>

theorem key_usage_bit_string:
  "validateKeyUsageExtension [3, 2, u, b] = None \<longleftrightarrow> unat u < 8 \<and> key_usage_bits b \<subseteq> {0, 2}"
proof -
  have "(3 :: byte) AND NOT 3 = 0" "(2 :: byte) AND NOT 2 = 0" by simp_all
  then show ?thesis unfolding validateKeyUsage_four mask_7 mask_160 by simp
qed

lemma san_only_uri:
  assumes "\<forall>n \<in> set names. encodable n"
    and "length (concat (map der names)) < 2 ^ 31"
  shows "validateSubjectAltNameExtension (san_extension names) = None \<longleftrightarrow>
    (\<forall>n \<in> set names. rv_Tag n = asn1TagURI)"
  using validate_san_extension [OF assms(2)] san_loop_names [OF assms(1)] by simp

lemma length_der_class [simp]: "length (der (n\<lparr>rv_Class := cls\<rparr>)) = length (der n)"
  by (simp add: der_def)

text \<open>
  C40: A correctly encoded subject alternative name extension is accepted exactly when every general
  name in it carries the tag number 6 (uniformResourceIdentifier); and the class of a name is not
  looked at: with any other classes for the same names the verdict is the same, so that what is no
  URI, such as a universal \<open>OBJECT IDENTIFIER\<close>, is accepted too.
\<close>

theorem san_class_not_checked:
  assumes "\<forall>n \<in> set names. encodable n"
    and "length (concat (map der names)) < 2 ^ 31"
    and "\<forall>n \<in> set names. cls n < 4"
  shows "(validateSubjectAltNameExtension (san_extension names) = None \<longleftrightarrow>
      (\<forall>n \<in> set names. rv_Tag n = asn1TagURI)) \<and>
    (validateSubjectAltNameExtension (san_extension (map (\<lambda>n. n\<lparr>rv_Class := cls n\<rparr>) names)) = None \<longleftrightarrow>
      validateSubjectAltNameExtension (san_extension names) = None)"
proof -
  let ?names = "map (\<lambda>n. n\<lparr>rv_Class := cls n\<rparr>) names"
  have "\<forall>n \<in> set ?names. encodable n" using assms(1,3) by (simp add: encodable_def)
  moreover have "length (concat (map der ?names)) < 2 ^ 31" using assms(2) by (simp add: length_concat comp_def)
  ultimately show ?thesis using san_only_uri [of ?names] san_only_uri [OF assms(1,2)] by simp
qed

text \<open>A URI, and the same octets as an object identifier.\<close>

theorem san_class_not_checked_witness:
  "validateSubjectAltNameExtension (san_extension [oid_value [42, 3]]) = None \<and>
   rv_Class (oid_value [42, 3]) \<noteq> ClassContextSpecific"
proof -
  let ?uri = "(oid_value [42, 3])\<lparr>rv_Class := ClassContextSpecific\<rparr>"
  have "\<forall>n \<in> set [?uri]. encodable n" "length (concat (map der [?uri])) < 2 ^ 31"
    "\<forall>n \<in> set [?uri]. ClassUniversal < 4"
    by (simp_all add: encodable_def ext_simps der_def der_length_def ClassContextSpecific_def ClassUniversal_def)
  from san_class_not_checked [OF this]
  show ?thesis by (simp add: ext_simps oid_value_def ClassContextSpecific_def ClassUniversal_def)
qed

text \<open>
  C33: A correctly encoded extended key usage extension is accepted exactly when every usage in
  it is client authentication or server authentication.
\<close>

theorem eku_only_client_server:
  assumes "aggregate_law NewAggregate"
    and "\<forall>c \<in> set usages. length c < 2 ^ 31 \<and> parseObjectIdentifier c = Inr (oid c)"
    and "length (concat (map (der \<circ> oid_value) usages)) < 2 ^ 31"
  shows "validateExtendedKeyUsageExtension NewAggregate (eku_extension usages) = None \<longleftrightarrow>
    (\<forall>c \<in> set usages. oid c = oidExtKeyUsageClientAuth \<or> oid c = oidExtKeyUsageServerAuth)"
  using unmarshal_eku_extension [OF assms(2,3)]
  by (auto simp: validateExtendedKeyUsage_None [OF assms(1)] eku_extension_def)

theorem eku_only_client_server_witness:
  defines "client \<equiv> [43, 6, 1, 5, 5, 7, 3, 2]" and "signing \<equiv> [43, 6, 1, 5, 5, 7, 3, 3]"
  shows "validateExtendedKeyUsageExtension aggregate_errors (eku_extension [client]) = None \<and>
    validateExtendedKeyUsageExtension aggregate_errors (eku_extension [client, signing]) \<noteq> None"
proof -
  define oid :: "bytes \<Rightarrow> nat list" where "oid c = (if c = client then oidExtKeyUsageClientAuth else [1, 3, 6, 1, 5, 5, 7, 3, 3])" for c
  have "parseObjectIdentifier [43, 6, 1, 5, 5, 7, 3, 2] = Inr [1, 3, 6, 1, 5, 5, 7, 3, 2]"
    by (simp add: parseObjectIdentifier_def parseBase128Int_def parseOID_arcs.simps)
  moreover have "parseObjectIdentifier [43, 6, 1, 5, 5, 7, 3, 3] = Inr [1, 3, 6, 1, 5, 5, 7, 3, 3]"
    by (simp add: parseObjectIdentifier_def parseBase128Int_def parseOID_arcs.simps)
  ultimately have p: "\<forall>c \<in> set [client]. length c < 2 ^ 31 \<and> parseObjectIdentifier c = Inr (oid c)"
      "\<forall>c \<in> set [client, signing]. length c < 2 ^ 31 \<and> parseObjectIdentifier c = Inr (oid c)"
    by (simp_all add: client_def signing_def oid_def oid_defs)
  have l: "length (concat (map (der \<circ> oid_value) [client])) < 2 ^ 31"
      "length (concat (map (der \<circ> oid_value) [client, signing])) < 2 ^ 31"
    by (simp_all add: client_def signing_def der_def oid_value_def der_length_def)
  from eku_only_client_server [OF aggregate_law_errors p(1) l(1)] eku_only_client_server [OF aggregate_law_errors p(2) l(2)]
  show ?thesis by (simp add: oid_def client_def signing_def oid_defs)
qed
text \<open>
  C6: A request passes \<open>ValidateCSRExtentions\<close> exactly when it has no extra extensions and every
  extension is a valid subject alternative name, a valid key usage, or an extended key usage
  that parses to client and server authentication only. Any other extension is refused.
\<close>

theorem csr_extensions_exact:
  assumes "aggregate_law NewAggregate"
  shows "ValidateCSRExtentions NewAggregate csr = None \<longleftrightarrow>
    csr_ExtraExtensions csr = [] \<and>
    (\<forall>ext \<in> set (csr_Extensions csr).
       ext_Id ext = oidExtensionSubjectAltName \<and> validateSubjectAltNameExtension ext = None
       \<or> ext_Id ext = oidExtensionKeyUsage \<and> validateKeyUsageExtension (ext_Value ext) = None
       \<or> ext_Id ext = oidExtensionExtendedKeyUsage \<and>
         (\<exists>usages rest. unmarshal_oids (ext_Value ext) = Inr (usages, rest) \<and>
            set usages \<subseteq> {oidExtKeyUsageClientAuth, oidExtKeyUsageServerAuth}))"
proof -
  have "validateExtension NewAggregate ext = None \<longleftrightarrow>
      ext_Id ext = oidExtensionSubjectAltName \<and> validateSubjectAltNameExtension ext = None
      \<or> ext_Id ext = oidExtensionKeyUsage \<and> validateKeyUsageExtension (ext_Value ext) = None
      \<or> ext_Id ext = oidExtensionExtendedKeyUsage \<and>
        validateExtendedKeyUsageExtension NewAggregate ext = None" for ext
    by (simp add: validateExtension_def oid_defs)
  then show ?thesis
    by (auto simp: ValidateCSRExtentions_None [OF assms] validateExtendedKeyUsage_None [OF assms])
qed

theorem csr_extensions_exact_witness:
  defines "ku \<equiv> \<lparr>ext_Id = oidExtensionKeyUsage, ext_Critical = True, ext_Value = [3, 2, 5, 160]\<rparr>"
    and "bc \<equiv> \<lparr>ext_Id = [2, 5, 29, 19], ext_Critical = True, ext_Value = [48, 0]\<rparr>"
    and "req \<equiv> (\<lambda>exts. \<lparr>csr_CommonName = [], csr_Extensions = exts, csr_ExtraExtensions = [],
           csr_DNSNames = [], csr_EmailAddresses = [], csr_IPAddresses = [], csr_URIs = [''u'']\<rparr>)"
  shows "ValidateCSRExtentions aggregate_errors (req [ku]) = None \<and>
    ValidateCSRExtentions aggregate_errors (req [ku, bc]) \<noteq> None"
proof -
  have "validateKeyUsageExtension [3, 2, 5, 160] = None"
    by (simp add: validateKeyUsage_four)
  then show ?thesis
    using csr_extensions_exact [OF aggregate_law_errors, of "req [ku]"]
      csr_extensions_exact [OF aggregate_law_errors, of "req [ku, bc]"]
    by (simp add: req_def ku_def bc_def oid_defs)
qed

end
