(* ===== verification/Node_Auth.thy ===== *)
theory Node_Auth
  imports Istio_Prelude
begin

text \<open>
  \<open>pkg/server/node_auth.go\<close>: which service accounts may request certificates for other
  workloads (node proxies such as ztunnel), and for which ones. Istio's informer client is not
  part of the repository: its \<open>Get\<close> and \<open>CreateIndex\<close> are parameters, related to the set of
  pods in the informer's cache by \<open>informer_law\<close>; \<open>spiffe.ParseIdentity\<close> is a parameter too.
\<close>

section \<open>Model\<close>

record NamespacedName =
  nn_Namespace :: string
  nn_Name :: string

record SaNode =
  sn_ServiceAccount :: NamespacedName
  sn_Node :: string

text \<open>The fields of a pod and of Istio's \<open>security.KubernetesInfo\<close> that the code reads.\<close>

record Pod =
  pod_Namespace :: string
  pod_Name :: string
  pod_UID :: string
  pod_ServiceAccountName :: string
  pod_NodeName :: string

record KubernetesInfo =
  ki_PodName :: string
  ki_PodNamespace :: string
  ki_PodUID :: string
  ki_PodServiceAccount :: string

record Identity =
  ident_TrustDomain :: string
  ident_Namespace :: string
  ident_ServiceAccount :: string

record ClusterNodeAuthorizer =
  na_trustedNodeAccounts :: "NamespacedName set"
  na_podsGet :: "string \<Rightarrow> string \<Rightarrow> Pod option"
  na_nodeIndexLookup :: "SaNode \<Rightarrow> Pod list"

text \<open>The extractor that \<open>NewClusterNodeAuthorizer\<close> passes to \<open>kclient.CreateIndex\<close>.\<close>

definition podSANode :: "Pod \<Rightarrow> SaNode list" where
  "podSANode pod =
     (if pod_NodeName pod = [] then []
      else if pod_ServiceAccountName pod = [] then []
      else [\<lparr>sn_ServiceAccount = \<lparr>nn_Namespace = pod_Namespace pod,
                                   nn_Name = pod_ServiceAccountName pod\<rparr>,
             sn_Node = pod_NodeName pod\<rparr>])"

definition NewClusterNodeAuthorizer ::
  "(string \<Rightarrow> string \<Rightarrow> Pod option) \<Rightarrow> ((Pod \<Rightarrow> SaNode list) \<Rightarrow> SaNode \<Rightarrow> Pod list) \<Rightarrow>
   NamespacedName set \<Rightarrow> ClusterNodeAuthorizer" where
  "NewClusterNodeAuthorizer podsGet createIndex trustedNodeAccounts =
     \<lparr>na_trustedNodeAccounts = trustedNodeAccounts,
      na_podsGet = podsGet,
      na_nodeIndexLookup = createIndex podSANode\<rparr>"

definition authenticateImpersonation ::
  "(string \<Rightarrow> error + Identity) \<Rightarrow> ClusterNodeAuthorizer \<Rightarrow> KubernetesInfo \<Rightarrow> string
   \<Rightarrow> error option" where
  "authenticateImpersonation ParseIdentity na caller requestedIdentityString =
     (let callerSa = \<lparr>nn_Namespace = ki_PodNamespace caller,
                      nn_Name = ki_PodServiceAccount caller\<rparr> in
      if callerSa \<notin> na_trustedNodeAccounts na
      then Some (Errorf ''caller (%v) is not allowed to impersonate'')
      else case ParseIdentity requestedIdentityString of
        Inl err \<Rightarrow> Some err
      | Inr requestedIdentity \<Rightarrow>
          (case na_podsGet na (ki_PodName caller) (ki_PodNamespace caller) of
             None \<Rightarrow> Some (Errorf ''pod %v/%v not found'')
           | Some callerPod \<Rightarrow>
               if pod_UID callerPod \<noteq> ki_PodUID caller
               then Some (Errorf ''pod found, but UID does not match: %v vs %v'')
               else if pod_ServiceAccountName callerPod \<noteq> ki_PodServiceAccount caller
               then Some (Errorf ''pod found, but ServiceAccount does not match: %v vs %v'')
               else let k = \<lparr>sn_ServiceAccount =
                              \<lparr>nn_Namespace = ident_Namespace requestedIdentity,
                               nn_Name = ident_ServiceAccount requestedIdentity\<rparr>,
                             sn_Node = pod_NodeName callerPod\<rparr> in
                 if na_nodeIndexLookup na k = []
                 then Some (Errorf ''no instances of %q found on node %q'')
                 else None))"

text \<open>
  What the informer client promises for the pods in its cache: \<open>Get\<close> finds a pod by name and
  namespace and only such a pod, and an index returns the pods whose extracted keys include the
  key looked up.
\<close>

definition informer_law ::
  "Pod set \<Rightarrow> (string \<Rightarrow> string \<Rightarrow> Pod option) \<Rightarrow>
   ((Pod \<Rightarrow> SaNode list) \<Rightarrow> SaNode \<Rightarrow> Pod list) \<Rightarrow> bool" where
  "informer_law pods podsGet createIndex \<longleftrightarrow>
     (\<forall>name ns p. podsGet name ns = Some p \<longrightarrow>
        p \<in> pods \<and> pod_Name p = name \<and> pod_Namespace p = ns) \<and>
     (\<forall>extract k. set (createIndex extract k) = {p \<in> pods. k \<in> set (extract p)})"

section \<open>Lemmas\<close>

lemma podSANode_key:
  "k \<in> set (podSANode p) \<longleftrightarrow>
   pod_NodeName p \<noteq> [] \<and> pod_ServiceAccountName p \<noteq> [] \<and> sn_Node k = pod_NodeName p \<and>
   sn_ServiceAccount k = \<lparr>nn_Namespace = pod_Namespace p, nn_Name = pod_ServiceAccountName p\<rparr>"
  by (cases k) (auto simp: podSANode_def)

lemma lookup_nonempty:
  assumes "informer_law pods podsGet createIndex"
  shows "na_nodeIndexLookup (NewClusterNodeAuthorizer podsGet createIndex trusted) k \<noteq> [] \<longleftrightarrow>
    (\<exists>p \<in> pods. k \<in> set (podSANode p))"
proof -
  have "set (createIndex podSANode k) = {p \<in> pods. k \<in> set (podSANode p)}"
    using assms by (simp add: informer_law_def)
  then show ?thesis
    by (auto simp: NewClusterNodeAuthorizer_def simp flip: set_empty2)
qed

lemma authenticateImpersonation_None:
  "authenticateImpersonation ParseIdentity na caller req = None \<longleftrightarrow>
   \<lparr>nn_Namespace = ki_PodNamespace caller, nn_Name = ki_PodServiceAccount caller\<rparr>
     \<in> na_trustedNodeAccounts na \<and>
   (\<exists>ident callerPod.
      ParseIdentity req = Inr ident \<and>
      na_podsGet na (ki_PodName caller) (ki_PodNamespace caller) = Some callerPod \<and>
      pod_UID callerPod = ki_PodUID caller \<and>
      pod_ServiceAccountName callerPod = ki_PodServiceAccount caller \<and>
      na_nodeIndexLookup na
        \<lparr>sn_ServiceAccount = \<lparr>nn_Namespace = ident_Namespace ident,
                              nn_Name = ident_ServiceAccount ident\<rparr>,
         sn_Node = pod_NodeName callerPod\<rparr> \<noteq> [])"
  by (auto simp: authenticateImpersonation_def Let_def split: sum.splits option.splits)

section \<open>Properties\<close>

text \<open>
  C5: A caller may impersonate an identity exactly when its service account is trusted, the
  identity parses, the caller's pod is the cached pod of that name with the UID and service
  account of its token, and some cached pod scheduled on the caller's own node runs with the
  requested namespace and service account.
\<close>

theorem impersonation_same_node:
  assumes "informer_law pods podsGet createIndex"
  shows "authenticateImpersonation ParseIdentity
      (NewClusterNodeAuthorizer podsGet createIndex trusted) caller req = None \<longleftrightarrow>
    \<lparr>nn_Namespace = ki_PodNamespace caller, nn_Name = ki_PodServiceAccount caller\<rparr> \<in> trusted \<and>
    (\<exists>ident callerPod target.
       ParseIdentity req = Inr ident \<and>
       podsGet (ki_PodName caller) (ki_PodNamespace caller) = Some callerPod \<and>
       callerPod \<in> pods \<and>
       pod_Name callerPod = ki_PodName caller \<and> pod_Namespace callerPod = ki_PodNamespace caller \<and>
       pod_UID callerPod = ki_PodUID caller \<and>
       pod_ServiceAccountName callerPod = ki_PodServiceAccount caller \<and>
       target \<in> pods \<and> pod_NodeName target \<noteq> [] \<and>
       pod_NodeName target = pod_NodeName callerPod \<and>
       pod_ServiceAccountName target \<noteq> [] \<and>
       pod_Namespace target = ident_Namespace ident \<and>
       pod_ServiceAccountName target = ident_ServiceAccount ident)"
proof -
  have get: "callerPod \<in> pods \<and> pod_Name callerPod = n \<and> pod_Namespace callerPod = ns"
    if "podsGet n ns = Some callerPod" for callerPod n ns
    using assms that by (simp add: informer_law_def)
  have fields: "na_trustedNodeAccounts (NewClusterNodeAuthorizer podsGet createIndex trusted) = trusted"
    "na_podsGet (NewClusterNodeAuthorizer podsGet createIndex trusted) = podsGet"
    by (simp_all add: NewClusterNodeAuthorizer_def)
  show ?thesis
    unfolding authenticateImpersonation_None fields lookup_nonempty [OF assms] podSANode_key
    using get by fastforce
qed

text \<open>A concrete informer over a list of pods, for the witnesses.\<close>

definition informer_get :: "Pod list \<Rightarrow> string \<Rightarrow> string \<Rightarrow> Pod option" where
  "informer_get pods name ns = find (\<lambda>p. pod_Name p = name \<and> pod_Namespace p = ns) pods"

definition informer_index :: "Pod list \<Rightarrow> (Pod \<Rightarrow> SaNode list) \<Rightarrow> SaNode \<Rightarrow> Pod list" where
  "informer_index pods extract k = filter (\<lambda>p. k \<in> set (extract p)) pods"

lemma informer_law_list: "informer_law (set pods) (informer_get pods) (informer_index pods)"
  by (auto simp: informer_law_def informer_get_def informer_index_def find_Some_iff)

definition zt_pod :: Pod where
  "zt_pod = \<lparr>pod_Namespace = ''istio-system'', pod_Name = ''zt-a'', pod_UID = ''u1'',
     pod_ServiceAccountName = ''ztunnel'', pod_NodeName = ''n1''\<rparr>"

definition app_pod :: Pod where
  "app_pod = \<lparr>pod_Namespace = ''default'', pod_Name = ''app'', pod_UID = ''u2'',
     pod_ServiceAccountName = ''sleep'', pod_NodeName = ''n1''\<rparr>"

definition zt_caller :: KubernetesInfo where
  "zt_caller = \<lparr>ki_PodName = ''zt-a'', ki_PodNamespace = ''istio-system'', ki_PodUID = ''u1'',
     ki_PodServiceAccount = ''ztunnel''\<rparr>"

definition zt_trusted :: "NamespacedName set" where
  "zt_trusted = {\<lparr>nn_Namespace = ''istio-system'', nn_Name = ''ztunnel''\<rparr>}"

definition sleep_identity :: Identity where
  "sleep_identity = \<lparr>ident_TrustDomain = ''cluster.local'', ident_Namespace = ''default'',
     ident_ServiceAccount = ''sleep''\<rparr>"

theorem impersonation_same_node_witness:
  "authenticateImpersonation (\<lambda>_. Inr sleep_identity)
     (NewClusterNodeAuthorizer (informer_get [zt_pod, app_pod]) (informer_index [zt_pod, app_pod])
        zt_trusted) zt_caller ''id'' = None \<and>
   authenticateImpersonation (\<lambda>_. Inr sleep_identity)
     (NewClusterNodeAuthorizer (informer_get [zt_pod]) (informer_index [zt_pod])
        zt_trusted) zt_caller ''id'' \<noteq> None"
  unfolding impersonation_same_node [OF informer_law_list]
  by (simp add: informer_get_def zt_pod_def app_pod_def zt_caller_def zt_trusted_def
      sleep_identity_def conj_disj_distribR ex_disj_distrib)

end
