(* ===== verification/Auth.thy ===== *)
theory Auth
  imports Extensions Node_Auth
begin

text \<open>
  \<open>pkg/server/auth.go\<close>: authentication of a request and the check that its CSR asks for the
  caller's identities and nothing else. What the code calls outside the repository (Istio's
  authenticators, CSR and identity parsers, the CSR signature check, \<open>url.URL.String\<close>) is the
  record \<open>auth_env\<close>, an argument of every definition that uses it.
\<close>

section \<open>Model\<close>

record Caller =
  caller_Identities :: "string list"
  caller_KubernetesInfo :: KubernetesInfo

text \<open>A protobuf \<open>structpb.Value\<close>; its getter gives the empty string for the other kinds and nil.\<close>

datatype pb_Value = StringValue string | OtherValue

fun GetStringValue :: "pb_Value option \<Rightarrow> string" where
  "GetStringValue (Some (StringValue s)) = s"
| "GetStringValue (Some OtherValue) = []"
| "GetStringValue None = []"

record IstioCertificateRequest =
  icr_Csr :: string
  icr_ValidityDuration :: "64 word"
  icr_Metadata :: "(string \<times> pb_Value) list"

text \<open>
  An authenticator returns a caller pointer and an error, either of which may be nil. The
  request context is the type \<open>'ctx\<close>.
\<close>

type_synonym 'ctx Authenticator = "'ctx \<Rightarrow> Caller option \<times> error option"

record 'url auth_env =
  env_ImpersonatedIdentity :: string
  env_ParsePemEncodedCSR :: "string \<Rightarrow> error + 'url CertificateRequest"
  env_CheckSignature :: "'url CertificateRequest \<Rightarrow> error option"
  env_URL_String :: "'url \<Rightarrow> string"
  env_NewAggregate :: "error option list \<Rightarrow> error option"
  env_ParseIdentity :: "string \<Rightarrow> error + Identity"

text \<open>
  The two fields of \<open>Server\<close> that authentication reads; \<open>Server\<close> itself extends this record.
\<close>

record 'ctx auth_server =
  srv_authenticators :: "'ctx Authenticator list"
  srv_nodeAuthorizer :: "ClusterNodeAuthorizer option"

text \<open>The loop over the authenticators: the caller of the first one that reports no error.\<close>

fun authenticate_loop :: "'ctx Authenticator list \<Rightarrow> 'ctx \<Rightarrow> Caller option option" where
  "authenticate_loop [] ctx = None"
| "authenticate_loop (authenticator # rest) ctx =
     (case authenticator ctx of
        (caller, None) \<Rightarrow> Some caller
      | (caller, Some err) \<Rightarrow> authenticate_loop rest ctx)"

text \<open>
  \<open>identitiesMatch\<close>: both lists are copied and sorted (the URLs stably, by their text) and
  compared index by index.
\<close>

definition identitiesMatch :: "('url \<Rightarrow> string) \<Rightarrow> string list \<Rightarrow> 'url list \<Rightarrow> bool" where
  "identitiesMatch URL_String a b =
     (if length a \<noteq> length b then False
      else let aa = sort a; bb = sort_key URL_String b in
        list_all (\<lambda>i. URL_String (bb ! i) = aa ! i) [0..<length aa])"

text \<open>The impersonation branch: the identities to record, or the value returned on refusal.\<close>

definition requested_identities ::
  "'url auth_env \<Rightarrow> ('ctx, 'm) auth_server_scheme \<Rightarrow> Caller \<Rightarrow> string \<Rightarrow> string + string" where
  "requested_identities env s caller impersonatedIdentity =
     (if impersonatedIdentity \<noteq> []
      then (case srv_nodeAuthorizer s of
              None \<Rightarrow> Inl []
            | Some nodeAuthorizer \<Rightarrow>
                (case authenticateImpersonation (env_ParseIdentity env) nodeAuthorizer
                        (caller_KubernetesInfo caller) impersonatedIdentity of
                   Some err \<Rightarrow> Inl []
                 | None \<Rightarrow> Inr impersonatedIdentity))
      else Inr (strings_Join (caller_Identities caller) '',''))"

text \<open>The checks on the CSR that follow, in the source's order; \<open>True\<close> when all pass.\<close>

definition csr_checks :: "'url auth_env \<Rightarrow> Caller \<Rightarrow> string \<Rightarrow> string \<Rightarrow> bool" where
  "csr_checks env caller impersonatedIdentity csrPEM =
     (case env_ParsePemEncodedCSR env csrPEM of
        Inl err \<Rightarrow> False
      | Inr csr \<Rightarrow>
          if env_CheckSignature env csr \<noteq> None then False
          else if csr_DNSNames csr \<noteq> [] \<or> csr_IPAddresses csr \<noteq> []
                  \<or> csr_CommonName csr \<noteq> [] \<or> csr_EmailAddresses csr \<noteq> []
          then False
          else if ValidateCSRExtentions (env_NewAggregate env) csr \<noteq> None then False
          else if impersonatedIdentity = []
          then identitiesMatch (env_URL_String env) (caller_Identities caller) (csr_URIs csr)
          else identitiesMatch (env_URL_String env) [impersonatedIdentity] (csr_URIs csr))"

definition authRequest ::
  "'url auth_env \<Rightarrow> ('ctx, 'm) auth_server_scheme \<Rightarrow> 'ctx \<Rightarrow> IstioCertificateRequest
   \<Rightarrow> (string \<times> bool) go" where
  "authRequest env s ctx icr =
     (case authenticate_loop (srv_authenticators s) ctx of
        None \<Rightarrow> Return ([], False)
      | Some None \<Rightarrow> Panic
      | Some (Some caller) \<Rightarrow>
          if caller_Identities caller = [] then Return ([], False)
          else let impersonatedIdentity =
                     GetStringValue (map_of (icr_Metadata icr) (env_ImpersonatedIdentity env)) in
            (case requested_identities env s caller impersonatedIdentity of
               Inl refused \<Rightarrow> Return (refused, False)
             | Inr identities \<Rightarrow>
                 Return (identities, csr_checks env caller impersonatedIdentity (icr_Csr icr))))"

section \<open>Specification\<close>

text \<open>
  The requests that may be signed. \<open>plain_csr\<close>: a CSR signed by its own key that asks for
  nothing but URI names and the allowed usages.
\<close>

definition plain_csr :: "'url auth_env \<Rightarrow> 'url CertificateRequest \<Rightarrow> bool" where
  "plain_csr env csr \<longleftrightarrow>
     env_CheckSignature env csr = None \<and>
     csr_DNSNames csr = [] \<and> csr_IPAddresses csr = [] \<and>
     csr_CommonName csr = [] \<and> csr_EmailAddresses csr = [] \<and>
     ValidateCSRExtentions (env_NewAggregate env) csr = None"

definition impersonated :: "'url auth_env \<Rightarrow> IstioCertificateRequest \<Rightarrow> string" where
  "impersonated env icr = GetStringValue (map_of (icr_Metadata icr) (env_ImpersonatedIdentity env))"

section \<open>Lemmas\<close>

lemma map_sort_key: "map f (sort_key f xs) = sort (map f xs)"
  by (rule sym, rule properties_for_sort) simp_all

lemma sort_eq_iff: "sort xs = sort ys \<longleftrightarrow> mset xs = mset ys"
  by (metis mset_sort properties_for_sort sorted_sort)

lemma identitiesMatch_mset: "identitiesMatch S a b \<longleftrightarrow> mset a = mset (map S b)"
proof (cases "length a = length b")
  case True
  then have "identitiesMatch S a b \<longleftrightarrow> (\<forall>i < length b. map S (sort_key S b) ! i = sort a ! i)"
    by (simp add: identitiesMatch_def list_all_iff Ball_def)
  also have "\<dots> \<longleftrightarrow> map S (sort_key S b) = sort a"
    using True by (simp add: list_eq_iff_nth_eq)
  also have "\<dots> \<longleftrightarrow> mset a = mset (map S b)"
    unfolding map_sort_key sort_eq_iff by (rule eq_commute)
  finally show ?thesis .
next
  case False
  then have "mset a \<noteq> mset (map S b)" by (metis length_map mset_eq_length)
  with False show ?thesis by (simp add: identitiesMatch_def)
qed

lemma identitiesMatch_single:
  "identitiesMatch S [a] b \<longleftrightarrow> map S b = [a]"
  unfolding identitiesMatch_mset by (metis mset.simps(1) mset.simps(2) mset_single_iff_right)

lemma authenticate_loop_find:
  "authenticate_loop as ctx = map_option (\<lambda>a. fst (a ctx)) (find (\<lambda>a. snd (a ctx) = None) as)"
  by (induction as) (auto split: prod.splits option.splits)

lemma authenticate_loop_Some:
  "authenticate_loop as ctx = Some c \<longleftrightarrow>
   (\<exists>a. find (\<lambda>a. snd (a ctx) = None) as = Some a \<and> fst (a ctx) = c)"
  by (simp add: authenticate_loop_find)

lemma csr_checks_iff:
  "csr_checks env caller imp pem \<longleftrightarrow>
   (\<exists>csr. env_ParsePemEncodedCSR env pem = Inr csr \<and> plain_csr env csr \<and>
      identitiesMatch (env_URL_String env)
        (if imp = [] then caller_Identities caller else [imp]) (csr_URIs csr))"
  by (auto simp: csr_checks_def plain_csr_def split: sum.splits)

lemma requested_identities_Inr:
  "requested_identities env s caller imp = Inr ids \<longleftrightarrow>
   (if imp = [] then ids = strings_Join (caller_Identities caller) '',''
    else ids = imp \<and> (\<exists>na. srv_nodeAuthorizer s = Some na \<and>
           authenticateImpersonation (env_ParseIdentity env) na
             (caller_KubernetesInfo caller) imp = None))"
  by (auto simp: requested_identities_def split: option.splits)

lemma authRequest_True:
  "authRequest env s ctx icr = Return (ids, True) \<longleftrightarrow>
   (\<exists>caller. authenticate_loop (srv_authenticators s) ctx = Some (Some caller) \<and>
      caller_Identities caller \<noteq> [] \<and>
      requested_identities env s caller (impersonated env icr) = Inr ids \<and>
      csr_checks env caller (impersonated env icr) (icr_Csr icr))"
  by (auto simp: authRequest_def impersonated_def Let_def split: option.splits sum.splits)

lemma authRequest_Panic:
  "authRequest env s ctx icr = Panic \<longleftrightarrow> authenticate_loop (srv_authenticators s) ctx = Some None"
  by (auto simp: authRequest_def Let_def split: option.splits sum.splits)

lemma authRequest_not_Blocked [simp]: "authRequest env s ctx icr \<noteq> Blocked"
  by (auto simp: authRequest_def Let_def split: option.splits sum.splits)

section \<open>Properties\<close>

text \<open>
  C7: \<open>identitiesMatch\<close>, which sorts copies and compares them index by index, decides that the
  two lists hold the same identities with the same multiplicities, in any order.
\<close>

theorem identities_match_multiset:
  "identitiesMatch URL_String a b \<longleftrightarrow> mset a = mset (map URL_String b)"
  by (rule identitiesMatch_mset)

text \<open>
  C4: \<open>authRequest\<close> lets a request through exactly when the first authenticator that accepts it
  names a caller with at least one identity, the CSR parses, is signed by its own key and asks
  for no name but URIs and no extension but the allowed ones, and its URIs are, as a multiset,
  the caller's identities; or, for a request that impersonates, the one impersonated identity,
  which the node authorizer allows this caller. The identities returned are those in the CSR.
\<close>

theorem auth_request_exact:
  "authRequest env s ctx icr = Return (ids, True) \<longleftrightarrow>
   (\<exists>a caller csr.
      find (\<lambda>a. snd (a ctx) = None) (srv_authenticators s) = Some a \<and>
      fst (a ctx) = Some caller \<and> caller_Identities caller \<noteq> [] \<and>
      env_ParsePemEncodedCSR env (icr_Csr icr) = Inr csr \<and> plain_csr env csr \<and>
      (if impersonated env icr = []
       then ids = strings_Join (caller_Identities caller) '','' \<and>
            mset (caller_Identities caller) = mset (map (env_URL_String env) (csr_URIs csr))
       else ids = impersonated env icr \<and>
            map (env_URL_String env) (csr_URIs csr) = [ids] \<and>
            (\<exists>na. srv_nodeAuthorizer s = Some na \<and>
               authenticateImpersonation (env_ParseIdentity env) na
                 (caller_KubernetesInfo caller) ids = None)))"
proof (cases "impersonated env icr = []")
  case True
  then show ?thesis
    unfolding authRequest_True authenticate_loop_Some requested_identities_Inr csr_checks_iff
      identitiesMatch_mset by auto
next
  case False
  then show ?thesis
    unfolding authRequest_True authenticate_loop_Some requested_identities_Inr csr_checks_iff
    by (auto simp: identitiesMatch_single)
qed

text \<open>
  Without a configured node authorizer a request that names an impersonated identity is
  refused whatever the authenticators say.
\<close>

lemma impersonation_needs_authorizer:
  assumes "srv_nodeAuthorizer s = None" and "impersonated env icr \<noteq> []"
  shows "authRequest env s ctx icr \<noteq> Return (ids, True)"
  using assms by (simp add: authRequest_True requested_identities_Inr)

text \<open>
  If every authenticator that reports no error returns a caller, \<open>authRequest\<close> does not
  panic, whatever the request; an authenticator that returns neither makes it panic.
\<close>

lemma auth_request_panic_iff:
  "authRequest env s ctx icr = Panic \<longleftrightarrow>
   (\<exists>a. find (\<lambda>a. snd (a ctx) = None) (srv_authenticators s) = Some a \<and> a ctx = (None, None))"
  unfolding authRequest_Panic authenticate_loop_Some
  by (auto simp: find_Some_iff prod_eq_iff)

end
