(* ===== verification/Cert_Manager.thy ===== *)
theory Cert_Manager
  imports Istio_Prelude
begin

text \<open>
  \<open>pkg/certmanager/certmanager.go\<close>: the manager that turns signing requests into cert-manager
  \<open>CertificateRequest\<close>s, follows the issuer configured at run time and tells its subscribers
  about changes of it.

  The Kubernetes and cert-manager clients are not part of the repository: they are the record
  \<open>cm_env\<close> of functions on an API state \<open>'w\<close>, an argument of the operations that call them. The
  model keeps, beside that state, the calls the program made (\<open>cl_calls\<close>) and the deletions it
  started in goroutines of their own (\<open>cl_cleanups\<close>).
\<close>

section \<open>Data\<close>

definition identityAnnotation :: string where
  "identityAnnotation = ''istio.cert-manager.io/identities''"

record IssuerReference =
  ir_Name :: string
  ir_Kind :: string
  ir_Group :: string

record Options =
  opt_PreserveCertificateRequests :: bool
  opt_Namespace :: string
  opt_DefaultIssuerEnabled :: bool
  opt_IssuerRef :: IssuerReference
  opt_IssuanceConfigMapName :: string
  opt_IssuanceConfigMapNamespace :: string
  opt_AdditionalAnnotations :: strmap

datatype KeyUsage = UsageServerAuth | UsageClientAuth

text \<open>A \<open>CertificateRequest\<close> of cert-manager: the fields the manager writes and reads.\<close>

datatype ConditionType = CertificateRequestConditionReady | OtherConditionType string

datatype ConditionStatus = ConditionTrue | ConditionFalse | ConditionUnknown

datatype ConditionReason = CertificateRequestReasonFailed | OtherReason string

record Condition =
  cond_Type :: ConditionType
  cond_Status :: ConditionStatus
  cond_Reason :: ConditionReason

record cm_CertificateRequest =
  cr_GenerateName :: string
  cr_Name :: string
  cr_Namespace :: string
  cr_Annotations :: strmap
  cr_Duration :: duration
  cr_IsCA :: bool
  cr_Request :: string
  cr_Usages :: "KeyUsage list"
  cr_IssuerRef :: IssuerReference
  cr_Conditions :: "Condition list"
  cr_Certificate :: string
  cr_CA :: string

record Bundle =
  b_Certificate :: string
  b_CA :: string

record ConfigMap =
  cmap_Data :: strmap

datatype EventType = Added | Modified | Deleted | Bookmark | ErrorEvent | UnknownEvent

datatype Object = ObjCertificateRequest cm_CertificateRequest | ObjConfigMap ConfigMap | ObjOther

record Event =
  ev_Type :: EventType
  ev_Object :: Object

text \<open>
  A watch: the events its channel delivers, and whether the channel is closed after them (a
  receive from it blocks otherwise).
\<close>

record Watcher =
  wt_Events :: "Event list"
  wt_Closed :: bool

section \<open>The clients\<close>

record 'w cm_env =
  env_Create :: "'w \<Rightarrow> cm_CertificateRequest \<Rightarrow> (error + cm_CertificateRequest) \<times> 'w"
  env_Watch :: "'w \<Rightarrow> string \<Rightarrow> (error + Watcher) \<times> 'w"
  env_Get :: "'w \<Rightarrow> string \<Rightarrow> (error + cm_CertificateRequest) \<times> 'w"
  env_Delete :: "'w \<Rightarrow> string \<Rightarrow> error option \<times> 'w"
  env_IsDenied :: "cm_CertificateRequest \<Rightarrow> bool"
  env_HasCondition :: "cm_CertificateRequest \<Rightarrow> Condition \<Rightarrow> bool"

datatype api_call =
  CreateCall cm_CertificateRequest | WatchCall string | GetCall string | DeleteCall string

record 'w cluster =
  cl_api :: 'w
  cl_calls :: "api_call list"
  cl_cleanups :: "string list"

definition do_call :: "api_call \<Rightarrow> 'w \<Rightarrow> 'w cluster \<Rightarrow> 'w cluster" where
  "do_call call w cl = cl\<lparr>cl_api := w, cl_calls := cl_calls cl @ [call]\<rparr>"

section \<open>The manager\<close>

text \<open>
  A subscription is a pointer (a number); \<open>mgr_closedSubs\<close> holds the closed ones.
  \<open>mgr_sends\<close> are the goroutines \<open>notifyIssuerChange\<close> has started and that have not sent yet:
  the index each captured and the value it will send.
\<close>

record manager =
  mgr_opts :: Options
  mgr_activeIssuerRef :: "IssuerReference option"
  mgr_originalIssuerRef :: "IssuerReference option"
  mgr_issuerChangeSubscriptions :: "nat list"
  mgr_closedSubs :: "nat list"
  mgr_nextSub :: nat
  mgr_sends :: "(nat \<times> IssuerReference option) list"

definition HasRuntimeConfiguration :: "Options \<Rightarrow> bool" where
  "HasRuntimeConfiguration o' \<longleftrightarrow>
     opt_IssuanceConfigMapName o' \<noteq> [] \<and> opt_IssuanceConfigMapNamespace o' \<noteq> []"

definition errNoOriginalIssuer :: error where
  "errNoOriginalIssuer = Errorf ''no original issuer was provided''"

definition handleOriginalIssuerRef :: "Options \<Rightarrow> error + IssuerReference" where
  "handleOriginalIssuerRef opts =
     (let ref = opt_IssuerRef opts in
      if \<not> opt_DefaultIssuerEnabled opts then Inl errNoOriginalIssuer
      else if ir_Name ref = [] \<and> ir_Kind ref = [] \<and> ir_Group ref = [] then Inl errNoOriginalIssuer
      else if ir_Name ref = []
      then Inl (Errorf ''issuerRef.Name is a required field if any field is set for issuerRef'')
      else if ir_Kind ref = []
      then Inl (Errorf ''issuerRef.Kind is a required field if any field is set for issuerRef'')
      else if ir_Group ref = []
      then Inl (Errorf ''issuerRef.Group is a required field if any field is set for issuerRef'')
      else Inr ref)"

text \<open>\<open>New\<close>; the first two arguments are the errors of the two client constructors.\<close>

definition New :: "error option \<Rightarrow> error option \<Rightarrow> Options \<Rightarrow> error + manager" where
  "New k8sErr cmErr opts =
     (case k8sErr of
        Some err \<Rightarrow> Inl (Wrapf ''failed to build kubernetes watcher client: %w'' err)
      | None \<Rightarrow>
     (case cmErr of
        Some err \<Rightarrow> Inl (Wrapf ''failed to build cert-manager client: %s'' err)
      | None \<Rightarrow>
     (let mk = (\<lambda>active original.
            \<lparr>mgr_opts = opts, mgr_activeIssuerRef = active, mgr_originalIssuerRef = original,
             mgr_issuerChangeSubscriptions = [], mgr_closedSubs = [], mgr_nextSub = 0,
             mgr_sends = []\<rparr>) in
      case handleOriginalIssuerRef opts of
        Inl err \<Rightarrow>
          if err \<noteq> errNoOriginalIssuer
          then Inl (Wrapf ''invalid issuerRef passed at startup: %s'' err)
          else if \<not> HasRuntimeConfiguration opts
          then Inl (Errorf ''runtime configuration parameters for name and namespace are required if no issuerRef is provided on startup'')
          else Inr (mk None None)
      | Inr ref \<Rightarrow> Inr (mk (Some ref) (Some ref)))))"

section \<open>Signing\<close>

text \<open>\<open>maps.Copy(dst, src)\<close>: the entries of \<open>src\<close> replace those of \<open>dst\<close>.\<close>

definition maps_Copy :: "strmap \<Rightarrow> strmap \<Rightarrow> strmap" where
  "maps_Copy dst src = fold (\<lambda>(k, v). AList.update k v) src dst"

definition failed_condition :: Condition where
  "failed_condition = \<lparr>cond_Type = CertificateRequestConditionReady, cond_Status = ConditionFalse,
     cond_Reason = CertificateRequestReasonFailed\<rparr>"

text \<open>
  The loop of \<open>waitForCertificateRequest\<close>: \<open>wait_check\<close> is the head of the outer loop,
  \<open>wait_recv\<close> the inner loop that receives from the watcher.
\<close>

function wait_check ::
    "'w cm_env \<Rightarrow> cm_CertificateRequest \<Rightarrow> Event list \<Rightarrow> bool \<Rightarrow> (error + cm_CertificateRequest) go"
  and wait_recv ::
    "'w cm_env \<Rightarrow> Event list \<Rightarrow> bool \<Rightarrow> (error + cm_CertificateRequest) go" where
  "wait_check env cr evs closed =
     (if env_IsDenied env cr
      then Return (Inl (Errorf ''created CertificateRequest has been denied: %v''))
      else if env_HasCondition env cr failed_condition
      then Return (Inl (Errorf ''created CertificateRequest has failed: %v''))
      else if cr_Certificate cr \<noteq> [] then Return (Inr cr)
      else wait_recv env evs closed)"
| "wait_recv env [] closed =
     (if closed then Return (Inl (Errorf ''watcher channel closed'')) else Blocked)"
| "wait_recv env (w # evs) closed =
     (if ev_Type w = Deleted
      then Return (Inl (Errorf ''created CertificateRequest has been unexpectedly deleted''))
      else case ev_Object w of
             ObjCertificateRequest cr \<Rightarrow> wait_check env cr evs closed
           | _ \<Rightarrow> wait_recv env evs closed)"
  by pat_completeness auto
termination
  by (relation "measure (\<lambda>x. case x of Inl (_, _, evs, _) \<Rightarrow> Suc (2 * length evs)
                                     | Inr (_, evs, _) \<Rightarrow> 2 * length evs)") auto

definition waitForCertificateRequest ::
  "'w cm_env \<Rightarrow> 'w cluster \<Rightarrow> cm_CertificateRequest
   \<Rightarrow> (error + cm_CertificateRequest) go \<times> 'w cluster" where
  "waitForCertificateRequest env cl cr =
     (case env_Watch env (cl_api cl) (cr_Name cr) of
        (Inl err, w) \<Rightarrow>
          (Return (Inl (Wrapf ''failed to build watcher for CertificateRequest: %w'' err)),
           do_call (WatchCall (cr_Name cr)) w cl)
      | (Inr watcher, w) \<Rightarrow>
          (let cl1 = do_call (WatchCall (cr_Name cr)) w cl in
           case env_Get env (cl_api cl1) (cr_Name cr) of
             (Inl err, w2) \<Rightarrow>
               (Return (Inl (Wrapf ''failed to get CertificateRequest: %w'' err)),
                do_call (GetCall (cr_Name cr)) w2 cl1)
           | (Inr cr2, w2) \<Rightarrow>
               (wait_check env cr2 (wt_Events watcher) (wt_Closed watcher),
                do_call (GetCall (cr_Name cr)) w2 cl1)))"

text \<open>The request object \<open>Sign\<close> builds.\<close>

definition new_request ::
  "manager \<Rightarrow> IssuerReference \<Rightarrow> string \<Rightarrow> string \<Rightarrow> duration \<Rightarrow> KeyUsage list
   \<Rightarrow> cm_CertificateRequest" where
  "new_request m issuerRef identities csrPEM dur usages =
     \<lparr>cr_GenerateName = ''istio-csr-'', cr_Name = [], cr_Namespace = [],
      cr_Annotations = maps_Copy [(identityAnnotation, identities)]
                                 (opt_AdditionalAnnotations (mgr_opts m)),
      cr_Duration = dur, cr_IsCA = False, cr_Request = csrPEM, cr_Usages = usages,
      cr_IssuerRef = issuerRef, cr_Conditions = [], cr_Certificate = [], cr_CA = []\<rparr>"

text \<open>
  \<open>Sign\<close> from the point where it holds the lock \<open>activeIssuerRefMutex\<close>; waiting for the lock is in
  \<open>Sign_Calls\<close>, where each call amounts to this function. The deferred function that starts the
  deletion runs when \<open>Sign\<close> returns, so not while it is blocked.
\<close>

definition start_cleanup :: "manager \<Rightarrow> string \<Rightarrow> 'a go \<Rightarrow> 'w cluster \<Rightarrow> 'w cluster" where
  "start_cleanup m name outcome cl =
     (if opt_PreserveCertificateRequests (mgr_opts m) \<or> outcome = Blocked then cl
      else cl\<lparr>cl_cleanups := cl_cleanups cl @ [name]\<rparr>)"

definition Sign ::
  "'w cm_env \<Rightarrow> manager \<Rightarrow> 'w cluster \<Rightarrow> string \<Rightarrow> string \<Rightarrow> duration \<Rightarrow> KeyUsage list
   \<Rightarrow> (error + Bundle) go \<times> 'w cluster" where
  "Sign env m cl identities csrPEM dur usages =
     (case mgr_activeIssuerRef m of
        None \<Rightarrow> (Return (Inl (Errorf ''no active issuerRef is configured for istio-csr'')), cl)
      | Some issuerRef \<Rightarrow>
          (let cr = new_request m issuerRef identities csrPEM dur usages in
           case env_Create env (cl_api cl) cr of
             (Inl err, w) \<Rightarrow>
               (Return (Inl (Wrapf ''failed to create CertificateRequest: %w'' err)),
                do_call (CreateCall cr) w cl)
           | (Inr created, w) \<Rightarrow>
               (case waitForCertificateRequest env (do_call (CreateCall cr) w cl) created of
                  (outcome, cl2) \<Rightarrow>
                    ((case outcome of
                        Return (Inl err) \<Rightarrow>
                          Return (Inl (Wrapf ''failed to wait for CertificateRequest %s/%s to be signed: %w'' err))
                      | Return (Inr signedCR) \<Rightarrow>
                          Return (Inr \<lparr>b_Certificate = cr_Certificate signedCR, b_CA = cr_CA signedCR\<rparr>)
                      | Panic \<Rightarrow> Panic
                      | Blocked \<Rightarrow> Blocked),
                     start_cleanup m (cr_Name created) outcome cl2))))"

text \<open>One of the deletion goroutines runs; its error is only logged.\<close>

definition run_cleanup :: "'w cm_env \<Rightarrow> 'w cluster \<Rightarrow> 'w cluster" where
  "run_cleanup env cl =
     (case cl_cleanups cl of
        [] \<Rightarrow> cl
      | name # rest \<Rightarrow>
          (case env_Delete env (cl_api cl) name of
             (_, w) \<Rightarrow> do_call (DeleteCall name) w (cl\<lparr>cl_cleanups := rest\<rparr>)))"

section \<open>Subscriptions\<close>

definition SubscribeIssuerChange :: "manager \<Rightarrow> nat \<times> manager" where
  "SubscribeIssuerChange m =
     (mgr_nextSub m,
      m\<lparr>mgr_issuerChangeSubscriptions := mgr_issuerChangeSubscriptions m @ [mgr_nextSub m],
        mgr_nextSub := Suc (mgr_nextSub m)\<rparr>)"

definition Close :: "nat \<Rightarrow> manager \<Rightarrow> manager" where
  "Close sub m = m\<lparr>mgr_closedSubs := sub # mgr_closedSubs m\<rparr>"

definition Closed :: "nat \<Rightarrow> manager \<Rightarrow> bool" where
  "Closed sub m \<longleftrightarrow> sub \<in> set (mgr_closedSubs m)"

text \<open>
  \<open>notifyIssuerChange\<close>: the loop over the subscriptions keeps the open ones and starts a
  goroutine for each, which captures the index in the old list; then the list is replaced.
\<close>

definition notifyIssuerChange :: "IssuerReference option \<Rightarrow> manager \<Rightarrow> manager" where
  "notifyIssuerChange issuerRef m =
     (let open_subs = filter (\<lambda>(i, sub). \<not> Closed sub m)
            (enumerate 0 (mgr_issuerChangeSubscriptions m)) in
      m\<lparr>mgr_issuerChangeSubscriptions := map snd open_subs,
        mgr_sends := mgr_sends m @ map (\<lambda>(i, sub). (i, issuerRef)) open_subs\<rparr>)"

definition HasIssuerConfig :: "manager \<Rightarrow> bool" where
  "HasIssuerConfig m \<longleftrightarrow> mgr_activeIssuerRef m \<noteq> None"

definition InitialIssuer :: "manager \<Rightarrow> IssuerReference option" where
  "InitialIssuer m = mgr_originalIssuerRef m"

section \<open>Run-time configuration\<close>

definition RuntimeConfigurationWatcher_NeedLeaderElection :: bool where
  "RuntimeConfigurationWatcher_NeedLeaderElection = False"

definition issuerNameKey :: string where "issuerNameKey = ''issuer-name''"
definition issuerKindKey :: string where "issuerKindKey = ''issuer-kind''"
definition issuerGroupKey :: string where "issuerGroupKey = ''issuer-group''"

text \<open>\<open>field, exists = cm.Data[key]\<close> and the error appended when it is missing or empty.\<close>

definition data_field :: "ConfigMap \<Rightarrow> string \<Rightarrow> string" where
  "data_field cm key = (case map_of (cmap_Data cm) key of None \<Rightarrow> [] | Some v \<Rightarrow> v)"

definition data_errs :: "string \<Rightarrow> ConfigMap \<Rightarrow> string \<Rightarrow> error list" where
  "data_errs msg cm key =
     (if map_of (cmap_Data cm) key = None \<or> data_field cm key = [] then [Errorf msg] else [])"

definition handleRuntimeConfigIssuerChange :: "manager \<Rightarrow> Event \<Rightarrow> error option \<times> manager" where
  "handleRuntimeConfigIssuerChange m event =
     (case ev_Object event of
        ObjConfigMap cm \<Rightarrow>
          (let issuerRef = \<lparr>ir_Name = data_field cm issuerNameKey,
                            ir_Kind = data_field cm issuerKindKey,
                            ir_Group = data_field cm issuerGroupKey\<rparr>;
               dataErrs = data_errs ''missing key/value in ConfigMap data: %s'' cm issuerNameKey
                          @ data_errs ''missing key/value in ConfigMap data: %s'' cm issuerKindKey
                          @ data_errs ''missing key/value in ConfigMap data; %s'' cm issuerGroupKey in
           if dataErrs \<noteq> [] then (errors_Join dataErrs, m)
           else (None, notifyIssuerChange (Some issuerRef)
                         (m\<lparr>mgr_activeIssuerRef := Some issuerRef\<rparr>)))
      | _ \<Rightarrow> (Some (Errorf ''got unexpected type for runtime configuration source; this is likely a programming error''), m))"

definition handleRuntimeConfigIssuerDeletion :: "manager \<Rightarrow> manager" where
  "handleRuntimeConfigIssuerDeletion m =
     (case mgr_originalIssuerRef m of
        None \<Rightarrow> m\<lparr>mgr_activeIssuerRef := None\<rparr>
      | Some ref \<Rightarrow> notifyIssuerChange None (m\<lparr>mgr_activeIssuerRef := Some ref\<rparr>))"

text \<open>The \<open>switch event.Type\<close> of the watcher; errors of the handlers are only logged.\<close>

definition handle_event :: "manager \<Rightarrow> Event \<Rightarrow> manager" where
  "handle_event m event =
     (case ev_Type event of
        Deleted \<Rightarrow> handleRuntimeConfigIssuerDeletion m
      | Added \<Rightarrow> snd (handleRuntimeConfigIssuerChange m event)
      | Modified \<Rightarrow> snd (handleRuntimeConfigIssuerChange m event)
      | Bookmark \<Rightarrow> m
      | ErrorEvent \<Rightarrow> m
      | UnknownEvent \<Rightarrow> m)"

text \<open>
  \<open>RuntimeConfigurationWatcher.Start\<close>: \<open>Connecting\<close> is the head of the outer loop, \<open>Watching\<close>
  the \<open>select\<close>, \<open>Returned\<close> the end. An input is what the environment offers; the loop takes the
  ones its current point waits for.
\<close>

datatype watch_phase = Connecting | Watching | Returned

datatype watch_input =
  WatchFailed | WatchCreated | CtxDone | ChannelClosed | Received Event

fun watcher_step :: "watch_phase \<times> manager \<Rightarrow> watch_input \<Rightarrow> watch_phase \<times> manager" where
  "watcher_step (Connecting, m) WatchFailed = (Connecting, m)"
| "watcher_step (Connecting, m) WatchCreated = (Watching, m)"
| "watcher_step (Watching, m) CtxDone = (Returned, m)"
| "watcher_step (Watching, m) ChannelClosed = (Connecting, m)"
| "watcher_step (Watching, m) (Received event) = (Watching, handle_event m event)"
| "watcher_step s _ = s"

definition RuntimeConfigurationWatcher_Start :: "manager \<Rightarrow> watch_input list \<Rightarrow> watch_phase \<times> manager" where
  "RuntimeConfigurationWatcher_Start m inputs = foldl watcher_step (Connecting, m) inputs"

declare SubscribeIssuerChange_def [mgr_simps] Close_def [mgr_simps] Closed_def [mgr_simps]
  notifyIssuerChange_def [mgr_simps] HasIssuerConfig_def [mgr_simps] InitialIssuer_def [mgr_simps]
  handleRuntimeConfigIssuerDeletion_def [mgr_simps] handleRuntimeConfigIssuerChange_def [mgr_simps]
  handle_event_def [mgr_simps]

section \<open>The signer interface\<close>

text \<open>
  What \<open>certmanager.Signer\<close> promises its clients (the gRPC server and the TLS provider): a call
  creates at most one \<open>CertificateRequest\<close>, with the CSR, duration and usages of the call and
  never for a CA, and a bundle it returns comes from a request it created and holds a
  certificate. \<open>created\<close> reads the requests created so far off the signer's state.
\<close>

locale signer =
  fixes sign :: "'s \<Rightarrow> string \<Rightarrow> string \<Rightarrow> duration \<Rightarrow> KeyUsage list \<Rightarrow> (error + Bundle) go \<times> 's"
    and created :: "'s \<Rightarrow> cm_CertificateRequest list"
  assumes sign_creates:
      "sign s ids csr dur us = (r, s') \<Longrightarrow>
         created s' = created s \<or>
         (\<exists>cr. created s' = created s @ [cr] \<and> cr_Request cr = csr \<and> cr_Duration cr = dur \<and>
               cr_Usages cr = us \<and> \<not> cr_IsCA cr)"
    and sign_bundle:
      "sign s ids csr dur us = (Return (Inr b), s') \<Longrightarrow>
         b_Certificate b \<noteq> [] \<and> created s' \<noteq> created s"
begin

lemma created_prefix: "sign s ids csr dur us = (r, s') \<Longrightarrow> \<exists>new. created s' = created s @ new"
  using sign_creates by fastforce

lemma created_once:
  "sign s ids csr dur us = (r, s') \<Longrightarrow> length (created s') \<le> Suc (length (created s))"
  using sign_creates by fastforce

lemma bundle_from_request:
  assumes "sign s ids csr dur us = (Return (Inr b), s')"
  obtains cr where "created s' = created s @ [cr]" "cr_Request cr = csr" "cr_Duration cr = dur"
    "cr_Usages cr = us" "\<not> cr_IsCA cr"
  using sign_creates [OF assms] sign_bundle [OF assms] by blast

end

section \<open>Waiting for a verdict\<close>

text \<open>
  The specification of the wait: a request has a verdict when it is denied, failed or carries a
  certificate, in this order; a watch event has one when the request was deleted or its object
  is a request that has one.
\<close>

definition verdict ::
  "'w cm_env \<Rightarrow> cm_CertificateRequest \<Rightarrow> (error + cm_CertificateRequest) option" where
  "verdict env cr =
     (if env_IsDenied env cr
      then Some (Inl (Errorf ''created CertificateRequest has been denied: %v''))
      else if env_HasCondition env cr failed_condition
      then Some (Inl (Errorf ''created CertificateRequest has failed: %v''))
      else if cr_Certificate cr \<noteq> [] then Some (Inr cr) else None)"

definition event_verdict ::
  "'w cm_env \<Rightarrow> Event \<Rightarrow> (error + cm_CertificateRequest) option" where
  "event_verdict env w =
     (if ev_Type w = Deleted
      then Some (Inl (Errorf ''created CertificateRequest has been unexpectedly deleted''))
      else case ev_Object w of ObjCertificateRequest cr \<Rightarrow> verdict env cr | _ \<Rightarrow> None)"

definition first_verdict ::
  "(error + cm_CertificateRequest) option list \<Rightarrow> bool \<Rightarrow> (error + cm_CertificateRequest) go" where
  "first_verdict vs closed =
     (case List.map_filter id vs of
        r # _ \<Rightarrow> Return r
      | [] \<Rightarrow> if closed then Return (Inl (Errorf ''watcher channel closed'')) else Blocked)"

declare wait_check.simps [simp del]

lemma first_verdict_Nil:
  "first_verdict [] closed =
     (if closed then Return (Inl (Errorf ''watcher channel closed'')) else Blocked)"
  by (simp add: first_verdict_def map_filter_simps)

lemma first_verdict_Cons:
  "first_verdict (v # vs) closed = (case v of Some r \<Rightarrow> Return r | None \<Rightarrow> first_verdict vs closed)"
  by (cases v) (simp_all add: first_verdict_def map_filter_simps)

lemma wait_check_verdict:
  "wait_check env cr evs closed =
     (case verdict env cr of Some r \<Rightarrow> Return r | None \<Rightarrow> wait_recv env evs closed)"
  by (simp add: wait_check.simps verdict_def)

lemma wait_recv_verdict:
  "wait_recv env evs closed = first_verdict (map (event_verdict env) evs) closed"
proof (induction evs)
  case (Cons w evs)
  then show ?case
    by (auto simp: first_verdict_Cons event_verdict_def [of env w] wait_check_verdict
        split: Object.splits option.splits)
qed (simp add: first_verdict_Nil)

lemma wait_check_first:
  "wait_check env cr evs closed = first_verdict (verdict env cr # map (event_verdict env) evs) closed"
  by (simp add: wait_check_verdict wait_recv_verdict first_verdict_Cons split: option.splits)

lemma verdict_Inr:
  "verdict env cr = Some (Inr cr') \<longleftrightarrow>
   cr' = cr \<and> \<not> env_IsDenied env cr \<and> \<not> env_HasCondition env cr failed_condition \<and>
   cr_Certificate cr \<noteq> []"
  by (auto simp: verdict_def)

lemma verdict_Inr_sym:
  "Some (Inr cr') = verdict env cr \<longleftrightarrow> verdict env cr = Some (Inr cr')"
  by (rule eq_commute)

lemma first_verdict_Return:
  "first_verdict vs closed = Return (Inr cr) \<Longrightarrow> Some (Inr cr) \<in> set vs"
  by (induction vs) (auto simp: first_verdict_Nil first_verdict_Cons split: option.splits if_splits)

lemma first_verdict_Blocked:
  "first_verdict vs closed = Blocked \<longleftrightarrow> \<not> closed \<and> (\<forall>v \<in> set vs. v = None)"
  by (induction vs) (auto simp: first_verdict_Nil first_verdict_Cons split: option.splits)

lemma first_verdict_decided: "first_verdict vs closed = Return r \<Longrightarrow> closed \<or> (\<exists>v \<in> set vs. v \<noteq> None)"
  using first_verdict_Blocked [of vs closed] by auto

lemma first_verdict_not_Panic [simp]: "first_verdict vs closed \<noteq> Panic"
  by (induction vs) (auto simp: first_verdict_Nil first_verdict_Cons split: option.splits)

section \<open>What a call of Sign creates\<close>

definition created_requests :: "'w cluster \<Rightarrow> cm_CertificateRequest list" where
  "created_requests cl =
     List.map_filter (\<lambda>c. case c of CreateCall cr \<Rightarrow> Some cr | _ \<Rightarrow> None) (cl_calls cl)"

lemma map_filter_append [simp]:
  "List.map_filter f (xs @ ys) = List.map_filter f xs @ List.map_filter f ys"
  by (induction xs) (auto simp: map_filter_simps split: option.splits)

lemma created_do_call [simp]:
  "created_requests (do_call (CreateCall cr) w cl) = created_requests cl @ [cr]"
  "created_requests (do_call (WatchCall n) w cl) = created_requests cl"
  "created_requests (do_call (GetCall n) w cl) = created_requests cl"
  "created_requests (do_call (DeleteCall n) w cl) = created_requests cl"
  by (simp_all add: created_requests_def do_call_def map_filter_simps)

lemma created_start_cleanup [simp]:
  "created_requests (start_cleanup m n oc cl) = created_requests cl"
  by (simp add: created_requests_def start_cleanup_def)

lemma created_wait [simp]:
  "created_requests (snd (waitForCertificateRequest env cl cr)) = created_requests cl"
  by (auto simp: waitForCertificateRequest_def Let_def split: prod.splits sum.splits)

lemma created_wait_eq:
  "waitForCertificateRequest env cl cr = (oc, cl') \<Longrightarrow> created_requests cl' = created_requests cl"
  using created_wait [of env cl cr] by simp

lemma Sign_created:
  "created_requests (snd (Sign env m cl ids csr dur us)) =
   created_requests cl @
     (case mgr_activeIssuerRef m of None \<Rightarrow> [] | Some ref \<Rightarrow> [new_request m ref ids csr dur us])"
  by (auto simp: Sign_def Let_def created_wait_eq split: option.splits prod.splits sum.splits)

lemma wait_Inr:
  assumes "waitForCertificateRequest env cl cr = (Return (Inr scr), cl')"
  shows "verdict env scr = Some (Inr scr)"
proof -
  from assms obtain cr2 :: cm_CertificateRequest and watcher :: Watcher where
    "wait_check env cr2 (wt_Events watcher) (wt_Closed watcher) = Return (Inr scr)"
    by (auto simp: waitForCertificateRequest_def Let_def split: prod.splits sum.splits)
  then consider "verdict env cr2 = Some (Inr scr)"
    | "Some (Inr scr) \<in> set (map (event_verdict env) (wt_Events watcher))"
    by (auto simp: wait_check_verdict wait_recv_verdict split: option.splits
        dest: first_verdict_Return)
  then show ?thesis
    by cases (auto simp: verdict_Inr verdict_Inr_sym event_verdict_def
        split: Object.splits if_splits)
qed

lemma Sign_Return_Inr:
  assumes "Sign env m cl ids csr dur us = (Return (Inr b), cl')"
  shows "\<exists>ref (scr :: cm_CertificateRequest). mgr_activeIssuerRef m = Some ref \<and> verdict env scr = Some (Inr scr) \<and>
    b = \<lparr>b_Certificate = cr_Certificate scr, b_CA = cr_CA scr\<rparr>"
  using assms
  by (auto simp: Sign_def Let_def split: option.splits prod.splits sum.splits go.splits
      dest!: wait_Inr)

interpretation mgr: signer "Sign env m" created_requests for env :: "'w cm_env" and m
proof unfold_locales
  fix cl ids csr dur us r cl'
  assume "Sign env m cl ids csr dur us = (r, cl')"
  then have "cl' = snd (Sign env m cl ids csr dur us)" by simp
  then show "created_requests cl' = created_requests cl \<or>
      (\<exists>cr. created_requests cl' = created_requests cl @ [cr] \<and> cr_Request cr = csr \<and>
        cr_Duration cr = dur \<and> cr_Usages cr = us \<and> \<not> cr_IsCA cr)"
    by (auto simp: Sign_created new_request_def split: option.splits)
next
  fix cl ids csr dur us b cl'
  assume a: "Sign env m cl ids csr dur us = (Return (Inr b), cl')"
  then have "cl' = snd (Sign env m cl ids csr dur us)" by simp
  with Sign_Return_Inr [OF a]
  show "b_Certificate b \<noteq> [] \<and> created_requests cl' \<noteq> created_requests cl"
    by (auto simp: Sign_created verdict_Inr)
qed

section \<open>The active issuer\<close>

text \<open>
  The abstract view of a watch event: \<open>Some None\<close> withdraws the run-time configuration,
  \<open>Some (Some r)\<close> sets it to a complete issuer reference, \<open>None\<close> has no effect.
\<close>

definition full_config :: "Object \<Rightarrow> IssuerReference option" where
  "full_config obj =
     (case obj of
        ObjConfigMap cm \<Rightarrow>
          (case (map_of (cmap_Data cm) issuerNameKey, map_of (cmap_Data cm) issuerKindKey,
                 map_of (cmap_Data cm) issuerGroupKey) of
             (Some n, Some k, Some g) \<Rightarrow>
               if n \<noteq> [] \<and> k \<noteq> [] \<and> g \<noteq> []
               then Some \<lparr>ir_Name = n, ir_Kind = k, ir_Group = g\<rparr> else None
           | _ \<Rightarrow> None)
      | _ \<Rightarrow> None)"

definition config_of :: "Event \<Rightarrow> IssuerReference option option" where
  "config_of event =
     (case ev_Type event of
        Deleted \<Rightarrow> Some None
      | Added \<Rightarrow> map_option Some (full_config (ev_Object event))
      | Modified \<Rightarrow> map_option Some (full_config (ev_Object event))
      | _ \<Rightarrow> None)"

definition complete_ref :: "IssuerReference \<Rightarrow> bool" where
  "complete_ref r \<longleftrightarrow> ir_Name r \<noteq> [] \<and> ir_Kind r \<noteq> [] \<and> ir_Group r \<noteq> []"

text \<open>
  The invariant: issuer references are complete, and with an issuer given at start-up there is
  always an active one.
\<close>

definition issuer_inv :: "manager \<Rightarrow> bool" where
  "issuer_inv m \<longleftrightarrow>
     (\<forall>r. mgr_activeIssuerRef m = Some r \<longrightarrow> complete_ref r) \<and>
     (\<forall>r. mgr_originalIssuerRef m = Some r \<longrightarrow> complete_ref r \<and> mgr_activeIssuerRef m \<noteq> None)"

lemma notify_frame [simp]:
  "mgr_activeIssuerRef (notifyIssuerChange r m) = mgr_activeIssuerRef m"
  "mgr_originalIssuerRef (notifyIssuerChange r m) = mgr_originalIssuerRef m"
  "mgr_opts (notifyIssuerChange r m) = mgr_opts m"
  by (simp_all add: notifyIssuerChange_def Let_def)

lemma handleRuntimeConfigIssuerChange_active:
  "mgr_activeIssuerRef (snd (handleRuntimeConfigIssuerChange m ev)) =
     (case full_config (ev_Object ev) of None \<Rightarrow> mgr_activeIssuerRef m | Some r \<Rightarrow> Some r)"
  by (auto simp: handleRuntimeConfigIssuerChange_def full_config_def data_errs_def data_field_def
      Let_def split: Object.splits option.splits)

lemma handleRuntimeConfigIssuerChange_original [simp]:
  "mgr_originalIssuerRef (snd (handleRuntimeConfigIssuerChange m ev)) = mgr_originalIssuerRef m"
  by (auto simp: handleRuntimeConfigIssuerChange_def Let_def split: Object.splits)

lemma handle_event_original [simp]:
  "mgr_originalIssuerRef (handle_event m ev) = mgr_originalIssuerRef m"
  by (auto simp: handle_event_def handleRuntimeConfigIssuerDeletion_def
      split: EventType.splits option.splits)

lemma handle_event_active:
  "mgr_activeIssuerRef (handle_event m ev) =
     (case config_of ev of
        None \<Rightarrow> mgr_activeIssuerRef m
      | Some None \<Rightarrow> mgr_originalIssuerRef m
      | Some (Some r) \<Rightarrow> Some r)"
  by (auto simp: handle_event_def config_of_def handleRuntimeConfigIssuerChange_active
      handleRuntimeConfigIssuerDeletion_def split: EventType.splits option.splits)

lemma full_config_complete: "full_config obj = Some r \<Longrightarrow> complete_ref r"
  by (auto simp: full_config_def complete_ref_def split: Object.splits option.splits if_splits)

lemma config_of_complete: "config_of ev = Some (Some r) \<Longrightarrow> complete_ref r"
  by (auto simp: config_of_def full_config_complete split: EventType.splits)

lemma handle_event_inv: "issuer_inv m \<Longrightarrow> issuer_inv (handle_event m ev)"
  by (auto simp: issuer_inv_def handle_event_active config_of_complete split: option.splits)

lemma watcher_step_inv: "issuer_inv (snd s) \<Longrightarrow> issuer_inv (snd (watcher_step s i))"
  by (induction s i rule: watcher_step.induct) (auto intro: handle_event_inv)

lemma watcher_step_original [simp]:
  "mgr_originalIssuerRef (snd (watcher_step s i)) = mgr_originalIssuerRef (snd s)"
  by (induction s i rule: watcher_step.induct) auto

lemma watcher_run_inv:
  "issuer_inv (snd s) \<Longrightarrow>
   issuer_inv (snd (foldl watcher_step s inputs)) \<and>
   mgr_originalIssuerRef (snd (foldl watcher_step s inputs)) = mgr_originalIssuerRef (snd s)"
  by (induction inputs arbitrary: s) (auto simp: watcher_step_inv)

lemma handleOriginalIssuerRef_Inr:
  "handleOriginalIssuerRef opts = Inr r \<longleftrightarrow>
   opt_DefaultIssuerEnabled opts \<and> r = opt_IssuerRef opts \<and> complete_ref r"
  by (auto simp: handleOriginalIssuerRef_def complete_ref_def Let_def split: if_splits)

lemma handleOriginalIssuerRef_none:
  "handleOriginalIssuerRef opts = Inl errNoOriginalIssuer \<longleftrightarrow>
   \<not> opt_DefaultIssuerEnabled opts \<or>
   (ir_Name (opt_IssuerRef opts) = [] \<and> ir_Kind (opt_IssuerRef opts) = [] \<and>
    ir_Group (opt_IssuerRef opts) = [])"
  by (auto simp: handleOriginalIssuerRef_def errNoOriginalIssuer_def Let_def)

lemma New_Inr:
  assumes "New k8sErr cmErr opts = Inr m"
  shows "issuer_inv m" and "mgr_opts m = opts"
    and "mgr_activeIssuerRef m = mgr_originalIssuerRef m"
    and "mgr_originalIssuerRef m =
      (if opt_DefaultIssuerEnabled opts \<and> complete_ref (opt_IssuerRef opts)
       then Some (opt_IssuerRef opts) else None)"
  using assms
  by (auto simp: New_def Let_def issuer_inv_def handleOriginalIssuerRef_Inr
      handleOriginalIssuerRef_none complete_ref_def split: option.splits sum.splits if_splits)

lemma foldl_watcher_received:
  "foldl watcher_step (Watching, m) (map Received evs) = (Watching, fold (\<lambda>ev m. handle_event m ev) evs m)"
  by (induction evs arbitrary: m) auto

lemma fold_handle_event_original:
  "mgr_originalIssuerRef (fold (\<lambda>ev m. handle_event m ev) evs m) = mgr_originalIssuerRef m"
  by (induction evs arbitrary: m) auto

lemma fold_handle_event_active:
  "mgr_activeIssuerRef (fold (\<lambda>ev m. handle_event m ev) evs m) =
     (case rev (List.map_filter config_of evs) of
        [] \<Rightarrow> mgr_activeIssuerRef m
      | None # _ \<Rightarrow> mgr_originalIssuerRef m
      | Some r # _ \<Rightarrow> Some r)"
proof (induction evs rule: rev_induct)
  case (snoc ev evs)
  then show ?case
    by (auto simp: handle_event_active fold_handle_event_original map_filter_simps
        split: option.splits)
qed (simp add: map_filter_simps)

lemma map_of_maps_Copy: "map_of (maps_Copy dst src) = map_of dst ++ map_of (rev src)"
  unfolding maps_Copy_def
  by (induction src arbitrary: dst) (auto simp: update_conv' split: prod.splits)

lemma map_of_rev_distinct: "distinct (map fst xs) \<Longrightarrow> map_of (rev xs) = map_of xs"
  by (simp add: map_of_inject_set rev_map [symmetric])

section \<open>Properties\<close>

text \<open>A concrete cluster for the witnesses: the request is signed by the first watch event.\<close>

definition demo_ref :: IssuerReference where
  "demo_ref = \<lparr>ir_Name = ''istio-ca'', ir_Kind = ''Issuer'', ir_Group = ''cert-manager.io''\<rparr>"

definition demo_opts :: Options where
  "demo_opts = \<lparr>opt_PreserveCertificateRequests = False, opt_Namespace = ''istio-system'',
     opt_DefaultIssuerEnabled = True, opt_IssuerRef = demo_ref,
     opt_IssuanceConfigMapName = [], opt_IssuanceConfigMapNamespace = [],
     opt_AdditionalAnnotations = [(''team'', ''mesh'')]\<rparr>"

definition demo_manager :: manager where
  "demo_manager = \<lparr>mgr_opts = demo_opts, mgr_activeIssuerRef = Some demo_ref,
     mgr_originalIssuerRef = Some demo_ref, mgr_issuerChangeSubscriptions = [],
     mgr_closedSubs = [], mgr_nextSub = 0, mgr_sends = []\<rparr>"

definition demo_signed :: cm_CertificateRequest where
  "demo_signed = (new_request demo_manager demo_ref ''id'' ''csr'' 5 [UsageClientAuth])
     \<lparr>cr_Name := ''istio-csr-x'', cr_Certificate := ''cert'', cr_CA := ''ca''\<rparr>"

definition demo_env :: "unit cm_env" where
  "demo_env = \<lparr>env_Create = (\<lambda>w cr. (Inr (cr\<lparr>cr_Name := ''istio-csr-x''\<rparr>), w)),
     env_Watch = (\<lambda>w n. (Inr \<lparr>wt_Events = [\<lparr>ev_Type = Modified,
        ev_Object = ObjCertificateRequest demo_signed\<rparr>], wt_Closed = False\<rparr>, w)),
     env_Get = (\<lambda>w n. (Inr (demo_signed\<lparr>cr_Certificate := []\<rparr>), w)),
     env_Delete = (\<lambda>w n. (None, w)),
     env_IsDenied = (\<lambda>cr. False), env_HasCondition = (\<lambda>cr c. c \<in> set (cr_Conditions cr))\<rparr>"

definition demo_cluster :: "unit cluster" where
  "demo_cluster = \<lparr>cl_api = (), cl_calls = [], cl_cleanups = []\<rparr>"

lemmas demo_defs = demo_ref_def demo_opts_def demo_manager_def demo_signed_def demo_env_def
  demo_cluster_def

text \<open>
  With an active issuer, \<open>Sign\<close> creates exactly one \<open>CertificateRequest\<close>: with the CSR,
  duration and usages it was given, not for a CA, for the active issuer, and annotated with the
  identities and the additional annotations, which win over the identities on the same key.
\<close>

lemma sign_creates_request:
  assumes "mgr_activeIssuerRef m = Some ref"
    and "distinct (map fst (opt_AdditionalAnnotations (mgr_opts m)))"
  shows "\<exists>cr. created_requests (snd (Sign env m cl ids csr dur us)) = created_requests cl @ [cr] \<and>
    cr_Request cr = csr \<and> cr_Duration cr = dur \<and> cr_Usages cr = us \<and> \<not> cr_IsCA cr \<and>
    cr_IssuerRef cr = ref \<and>
    (\<forall>k. map_of (cr_Annotations cr) k =
       (case map_of (opt_AdditionalAnnotations (mgr_opts m)) k of
          Some v \<Rightarrow> Some v
        | None \<Rightarrow> if k = identityAnnotation then Some ids else None))"
  using assms
  by (auto simp: Sign_created new_request_def map_of_maps_Copy map_of_rev_distinct map_add_def
      split: option.splits)

text \<open>
  C8: Waiting returns the verdict of the first decisive state of the request: the one read back
  after the watch was set up, then those of the watch events in order (objects that are no
  \<open>CertificateRequest\<close> are skipped). Without one it fails when the channel closes, and blocks
  exactly when the channel stays open.
\<close>

theorem wait_first_decisive_state:
  assumes "env_Watch env (cl_api cl) (cr_Name cr) = (Inr watcher, w)"
    and "env_Get env w (cr_Name cr) = (Inr cr2, w2)"
  shows "fst (waitForCertificateRequest env cl cr) =
    first_verdict (verdict env cr2 # map (event_verdict env) (wt_Events watcher)) (wt_Closed watcher)"
  using assms
  by (cases "verdict env cr2") (simp_all add: waitForCertificateRequest_def do_call_def
      wait_check_verdict wait_recv_verdict first_verdict_Cons)

theorem wait_first_decisive_state_witness:
  "fst (waitForCertificateRequest demo_env demo_cluster demo_signed) = Return (Inr demo_signed)"
  using wait_first_decisive_state [of demo_env demo_cluster demo_signed
      "\<lparr>wt_Events = [\<lparr>ev_Type = Modified, ev_Object = ObjCertificateRequest demo_signed\<rparr>],
        wt_Closed = False\<rparr>" "()" "demo_signed\<lparr>cr_Certificate := []\<rparr>" "()"]
  by (simp add: demo_env_def first_verdict_Cons event_verdict_def verdict_def demo_signed_def
      new_request_def)

text \<open>Exactly when \<open>Sign\<close> returns a bundle, and which.\<close>

lemma Sign_Inr_iff:
  "fst (Sign env m cl ids csr dur us) = Return (Inr b) \<longleftrightarrow>
   (\<exists>ref cr0 w0 watcher w1 cr w2 signedCR.
      mgr_activeIssuerRef m = Some ref \<and>
      env_Create env (cl_api cl) (new_request m ref ids csr dur us) = (Inr cr0, w0) \<and>
      env_Watch env w0 (cr_Name cr0) = (Inr watcher, w1) \<and> env_Get env w1 (cr_Name cr0) = (Inr cr, w2) \<and>
      first_verdict (verdict env cr # map (event_verdict env) (wt_Events watcher)) (wt_Closed watcher) =
        Return (Inr signedCR) \<and>
      b = \<lparr>b_Certificate = cr_Certificate signedCR, b_CA = cr_CA signedCR\<rparr>)"
  by (auto simp: Sign_def waitForCertificateRequest_def Let_def do_call_def wait_check_first
      split: option.splits prod.splits sum.splits go.splits)

text \<open>
  A bundle is only ever returned for a request that was neither denied nor failed, and it
  holds the non-empty certificate of that request and its CA.
\<close>

lemma sign_success_sound:
  assumes "Sign env m cl ids csr dur us = (Return (Inr b), cl')"
  shows "b_Certificate b \<noteq> [] \<and>
    (\<exists>scr. \<not> env_IsDenied env scr \<and> \<not> env_HasCondition env scr failed_condition \<and>
       cr_Certificate scr = b_Certificate b \<and> cr_CA scr = b_CA b)"
  using Sign_Return_Inr [OF assms] by (auto simp: verdict_Inr)

text \<open>
  A call that holds the lock keeps waiting exactly when the request was created and is being
  watched, the watch is open (it is closed when the context of the call ends), and no state seen so
  far is denied, failed, signed or deleted.
\<close>

lemma Sign_Blocked_iff:
  "fst (Sign env m cl ids csr dur us) = Blocked \<longleftrightarrow>
      (\<exists>ref cr0 w0 watcher w1 cr w2.
         mgr_activeIssuerRef m = Some ref \<and>
         env_Create env (cl_api cl) (new_request m ref ids csr dur us) = (Inr cr0, w0) \<and>
         env_Watch env w0 (cr_Name cr0) = (Inr watcher, w1) \<and> env_Get env w1 (cr_Name cr0) = (Inr cr, w2) \<and>
         \<not> wt_Closed watcher \<and> verdict env cr = None \<and>
         list_all (\<lambda>ev. event_verdict env ev = None) (wt_Events watcher))"
  by (auto simp: Sign_def waitForCertificateRequest_def Let_def do_call_def wait_check_verdict wait_recv_verdict
      first_verdict_Blocked list_all_iff dest!: first_verdict_decided
      split: option.splits prod.splits sum.splits go.splits)

text \<open>
  Once its request exists, \<open>Sign\<close> starts the deletion of exactly that request when it
  returns, whether with a bundle or an error, unless requests are preserved.
\<close>

lemma sign_cleanup:
  assumes "mgr_activeIssuerRef m = Some ref"
    and "env_Create env (cl_api cl) (new_request m ref ids csr dur us) = (Inr cr, w)"
  shows "cl_cleanups (snd (Sign env m cl ids csr dur us)) = cl_cleanups cl @
    (if opt_PreserveCertificateRequests (mgr_opts m) \<or> fst (Sign env m cl ids csr dur us) = Blocked
     then [] else [cr_Name cr])"
proof -
  obtain oc cl2 where wt: "waitForCertificateRequest env
      (do_call (CreateCall (new_request m ref ids csr dur us)) w cl) cr = (oc, cl2)"
    by (metis surj_pair)
  then have "cl_cleanups cl2 = cl_cleanups cl"
    by (auto simp: waitForCertificateRequest_def do_call_def Let_def split: prod.splits sum.splits)
  with assms wt show ?thesis
    by (auto simp: Sign_def start_cleanup_def split: go.splits sum.splits)
qed

text \<open>
  C9: After any sequence of watch events the active issuer is the one set by the last effective
  event: the issuer of the last complete configuration, the start-up issuer (or none) when that
  event was the deletion of the configuration, and the one before when there was no such event.
  Incomplete configurations and unknown events change nothing.
\<close>

theorem active_issuer_last_config:
  "mgr_activeIssuerRef (snd (RuntimeConfigurationWatcher_Start m (WatchCreated # map Received evs))) =
     (case rev (List.map_filter config_of evs) of
        [] \<Rightarrow> mgr_activeIssuerRef m
      | None # _ \<Rightarrow> mgr_originalIssuerRef m
      | Some r # _ \<Rightarrow> Some r)"
  by (simp add: RuntimeConfigurationWatcher_Start_def foldl_watcher_received
      fold_handle_event_active)

text \<open>
  A manager that \<open>New\<close> built keeps, whatever the watcher goes through, complete issuer
  references only; and when it was started with an issuer it has an active issuer for ever.
\<close>

lemma issuer_always_configured:
  assumes "New k8sErr cmErr opts = Inr m"
    and "m' = snd (RuntimeConfigurationWatcher_Start m inputs)"
  shows "(\<forall>r. mgr_activeIssuerRef m' = Some r \<longrightarrow> complete_ref r) \<and>
    (opt_DefaultIssuerEnabled opts \<and> complete_ref (opt_IssuerRef opts) \<longrightarrow> HasIssuerConfig m')"
proof -
  have run: "issuer_inv m' \<and> mgr_originalIssuerRef m' = mgr_originalIssuerRef m"
    unfolding assms(2) RuntimeConfigurationWatcher_Start_def
    using watcher_run_inv [of "(Connecting, m)" inputs] New_Inr(1) [OF assms(1)]
    unfolding snd_conv by blast
  then have "\<forall>r. mgr_activeIssuerRef m' = Some r \<longrightarrow> complete_ref r"
    and "mgr_originalIssuerRef m' \<noteq> None \<longrightarrow> HasIssuerConfig m'"
    unfolding issuer_inv_def HasIssuerConfig_def by blast+
  moreover have "mgr_originalIssuerRef m \<noteq> None"
    if "opt_DefaultIssuerEnabled opts \<and> complete_ref (opt_IssuerRef opts)"
    using New_Inr(4) [OF assms(1)] that by simp
  ultimately show ?thesis using run by metis
qed

text \<open>
  The watcher looks at its context only while a watch is open: as long as creating the watch
  fails it retries, and a cancellation meanwhile does not make \<open>Start\<close> return.
\<close>

lemma watch_retry_ignores_cancellation:
  assumes "set inputs \<subseteq> {WatchFailed, CtxDone}"
  shows "RuntimeConfigurationWatcher_Start m inputs = (Connecting, m)"
  using assms unfolding RuntimeConfigurationWatcher_Start_def by (induction inputs) auto

end
