(* ===== verification/Rootca.thy ===== *)
theory Rootca
  imports Istio_Prelude
begin

text \<open>
  \<open>pkg/tls/rootca/rootca.go\<close>: the watcher of the file with the mesh's root certificates.
  \<open>'c\<close> is the type of parsed certificates, \<open>DecodeX509CertificateSetBytes\<close> (cert-manager's PEM
  decoder) a parameter. Each step of the model is given what reading the file returned.
\<close>

section \<open>Model\<close>

text \<open>A certificate pool is the list of certificates added to it; the pointer to it may be nil.\<close>

record 'c RootCAs =
  rc_PEM :: string
  rc_CertPool :: "'c list option"

record watcher =
  w_rootCAsPEM :: string

text \<open>\<open>fsnotify.Op\<close> is a set of flags.\<close>

datatype fs_flag = Create | Write | Remove | Rename | Chmod

type_synonym 'c decoder = "string \<Rightarrow> error + 'c list"

text \<open>\<open>loadRootCAsFile\<close>: whether the file changed, and its root certificates if it did.\<close>

definition loadRootCAsFile ::
  "'c decoder \<Rightarrow> watcher \<Rightarrow> error + string \<Rightarrow> error + bool \<times> 'c RootCAs" where
  "loadRootCAsFile decode w file =
     (case file of
        Inl err \<Rightarrow> Inl (Wrapf ''failed to read root CAs certificate file %q: %w'' err)
      | Inr rootCAsPEM \<Rightarrow>
          if rootCAsPEM = w_rootCAsPEM w
          then Inr (False, \<lparr>rc_PEM = [], rc_CertPool = None\<rparr>)
          else case decode rootCAsPEM of
                 Inl err \<Rightarrow> Inl (Wrapf ''failed to decode root CAs in certificate file %q: %w'' err)
               | Inr rootCAsCerts \<Rightarrow>
                   Inr (True, \<lparr>rc_PEM = rootCAsPEM, rc_CertPool = Some rootCAsCerts\<rparr>))"

text \<open>
  The state of the watching goroutine: the watcher and what it has sent on \<open>broadcastChan\<close>.
\<close>

type_synonym 'c watch_state = "watcher \<times> 'c RootCAs list"

definition reloadConfig ::
  "'c decoder \<Rightarrow> error + string \<Rightarrow> 'c watch_state \<Rightarrow> 'c watch_state" where
  "reloadConfig decode file s =
     (case s of (w, sent) \<Rightarrow>
        (case loadRootCAsFile decode w file of
           Inl err \<Rightarrow> (w, sent)
         | Inr (updated, rootCAs) \<Rightarrow>
             if \<not> updated then (w, sent)
             else (w\<lparr>w_rootCAsPEM := rc_PEM rootCAs\<rparr>, sent @ [rootCAs])))"

text \<open>
  One event of the file watcher: \<open>event.Op == fsnotify.Remove\<close>, then the test of the write bit.
  The errors of re-arming the watch are only logged.
\<close>

definition handle_fs_event ::
  "'c decoder \<Rightarrow> 'c watch_state \<Rightarrow> fs_flag set \<times> (error + string) \<Rightarrow> 'c watch_state" where
  "handle_fs_event decode s ev =
     (case ev of (op, file) \<Rightarrow>
        (let s1 = (if op = {Remove} then reloadConfig decode file s else s) in
         if Write \<in> op then reloadConfig decode file s1 else s1))"

text \<open>
  \<open>Watch\<close> up to the start of the goroutine, with the errors of creating and arming the file
  watch; the goroutine first sends the initial state.
\<close>

definition Watch ::
  "'c decoder \<Rightarrow> error + string \<Rightarrow> error option \<Rightarrow> error option \<Rightarrow> error + 'c watch_state" where
  "Watch decode file newErr addErr =
     (case loadRootCAsFile decode \<lparr>w_rootCAsPEM = []\<rparr> file of
        Inl err \<Rightarrow> Inl (Wrapf ''failed to load root CA bundle: %w'' err)
      | Inr (updated, rootCAs) \<Rightarrow>
          if \<not> updated then Inl (Errorf ''root CA bundle is empty'')
          else case newErr of
                 Some err \<Rightarrow> Inl (Wrapf ''failed to create file watch: %w'' err)
               | None \<Rightarrow>
                   (case addErr of
                      Some err \<Rightarrow> Inl (Wrapf ''failed to add root CAs file for watching %q: %w'' err)
                    | None \<Rightarrow> Inr (\<lparr>w_rootCAsPEM = rc_PEM rootCAs\<rparr>, [rootCAs])))"

definition watch_run ::
  "'c decoder \<Rightarrow> 'c watch_state \<Rightarrow> (fs_flag set \<times> (error + string)) list \<Rightarrow> 'c watch_state" where
  "watch_run decode s evs = foldl (handle_fs_event decode) s evs"

section \<open>The invariant of the watcher\<close>

text \<open>
  Every bundle sent is the decoding of its PEM text, each differs from the one sent before it,
  and the last one sent is the one the watcher remembers.
\<close>

definition watch_inv :: "'c decoder \<Rightarrow> 'c watch_state \<Rightarrow> bool" where
  "watch_inv decode s \<longleftrightarrow>
     (\<forall>r \<in> set (snd s). \<exists>certs. decode (rc_PEM r) = Inr certs \<and> rc_CertPool r = Some certs) \<and>
     distinct_adj (map rc_PEM (snd s)) \<and>
     snd s \<noteq> [] \<and> rc_PEM (last (snd s)) = w_rootCAsPEM (fst s)"

lemma loadRootCAsFile_updated:
  "loadRootCAsFile decode w file = Inr (True, r) \<longleftrightarrow>
   (\<exists>certs. file = Inr (rc_PEM r) \<and> rc_PEM r \<noteq> w_rootCAsPEM w \<and> decode (rc_PEM r) = Inr certs \<and>
      rc_CertPool r = Some certs)"
  by (cases r) (auto simp: loadRootCAsFile_def split: sum.splits)

lemma distinct_adj_snoc:
  "xs \<noteq> [] \<Longrightarrow> distinct_adj (xs @ [y]) \<longleftrightarrow> distinct_adj xs \<and> last xs \<noteq> y"
  by (simp add: distinct_adj_append_iff)

lemma reloadConfig_cases:
  obtains (same) "reloadConfig decode file s = s"
  | (new) r certs where "file = Inr (rc_PEM r)" "rc_PEM r \<noteq> w_rootCAsPEM (fst s)"
      "decode (rc_PEM r) = Inr certs" "rc_CertPool r = Some certs"
      "reloadConfig decode file s = (\<lparr>w_rootCAsPEM = rc_PEM r\<rparr>, snd s @ [r])"
proof (cases "\<exists>r. loadRootCAsFile decode (fst s) file = Inr (True, r)")
  case True
  then obtain r where l: "loadRootCAsFile decode (fst s) file = Inr (True, r)" by blast
  then obtain certs where "file = Inr (rc_PEM r)" "rc_PEM r \<noteq> w_rootCAsPEM (fst s)"
    "decode (rc_PEM r) = Inr certs" "rc_CertPool r = Some certs"
    unfolding loadRootCAsFile_updated by blast
  moreover have "reloadConfig decode file s = (\<lparr>w_rootCAsPEM = rc_PEM r\<rparr>, snd s @ [r])"
    using l by (cases s; cases "fst s") (simp add: reloadConfig_def)
  ultimately show ?thesis by (rule new)
next
  case False
  then have "reloadConfig decode file s = s"
    by (auto simp: reloadConfig_def split: prod.splits sum.splits)
  then show ?thesis by (rule same)
qed

lemma reloadConfig_inv: "watch_inv decode s \<Longrightarrow> watch_inv decode (reloadConfig decode file s)"
  by (rule reloadConfig_cases [of decode "file" s])
    (auto simp: watch_inv_def distinct_adj_snoc last_map)

lemma handle_fs_event_inv:
  "watch_inv decode s \<Longrightarrow> watch_inv decode (handle_fs_event decode s ev)"
  by (auto simp: handle_fs_event_def Let_def reloadConfig_inv split: prod.splits)

lemma watch_run_inv: "watch_inv decode s \<Longrightarrow> watch_inv decode (watch_run decode s evs)"
  unfolding watch_run_def by (induction evs arbitrary: s) (auto simp: handle_fs_event_inv)

lemma Watch_inv: "Watch decode file e1 e2 = Inr s \<Longrightarrow> watch_inv decode s"
  by (auto simp: Watch_def watch_inv_def loadRootCAsFile_updated split: sum.splits option.splits
      if_splits)

lemma reloadConfig_reads:
  assumes "decode pem = Inr certs"
  shows "w_rootCAsPEM (fst (reloadConfig decode (Inr pem) s)) = pem"
  using assms by (auto simp: reloadConfig_def loadRootCAsFile_def split: prod.splits)

section \<open>Properties\<close>

text \<open>
  From a successful \<open>Watch\<close> on, whatever file events arrive and whatever reading the file
  gives, every bundle broadcast is the decoded form of its PEM text, no bundle is broadcast
  twice in a row, and the watcher's state is the last bundle broadcast.
\<close>

lemma rootca_broadcasts_changes_only:
  assumes "Watch decode file newErr addErr = Inr s"
    and "watch_run decode s evs = (w, sent)"
  shows "(\<forall>r \<in> set sent. \<exists>certs. decode (rc_PEM r) = Inr certs \<and> rc_CertPool r = Some certs) \<and>
    distinct_adj (map rc_PEM sent) \<and> sent \<noteq> [] \<and> rc_PEM (last sent) = w_rootCAsPEM w"
  using watch_run_inv [OF Watch_inv [OF assms(1)], of evs] assms(2) by (simp add: watch_inv_def)

text \<open>
  A write to the file, or its removal (the symbolic link of a volume mount being replaced),
  makes the watcher adopt the new content whenever that content can be read and decoded.
\<close>

lemma rootca_follows_file:
  assumes "Write \<in> op \<or> op = {Remove}" and "decode pem = Inr certs"
  shows "w_rootCAsPEM (fst (handle_fs_event decode s (op, Inr pem))) = pem"
  using assms by (auto simp: handle_fs_event_def reloadConfig_reads)

end
