(* ===== verification/Tls_Interface.thy ===== *)
theory Tls_Interface
  imports Rootca
begin

text \<open>
  The interface \<open>tls.Interface\<close> of \<open>pkg/tls/tls.go\<close> as its clients use it, and the blocking
  operation behind it, \<open>Provider.RootCAs\<close>.
\<close>

section \<open>Waiting for the root certificates\<close>

text \<open>
  \<open>RootCAs\<close> polls: each round of its \<open>select\<close> either finds the context done or, after a second,
  reads the provider's root certificates under the lock. The rounds are a list; when they run
  out the call is still waiting.
\<close>

datatype 'c poll = PollDone | PollTick "'c RootCAs"

definition populated :: "'c RootCAs \<Rightarrow> bool" where
  "populated r \<longleftrightarrow> \<not> (rc_PEM r = [] \<or> rc_CertPool r = None)"

fun Provider_RootCAs :: "'c poll list \<Rightarrow> 'c RootCAs option go" where
  "Provider_RootCAs [] = Blocked"
| "Provider_RootCAs (PollDone # polls) = Return None"
| "Provider_RootCAs (PollTick rootCAs # polls) =
     (if \<not> populated rootCAs then Provider_RootCAs polls else Return (Some rootCAs))"

section \<open>The interface\<close>

text \<open>
  What clients of \<open>tls.Interface\<close> rely on: root certificates it hands out have a non-empty PEM
  text and a pool that is not nil (a nil pool would make \<open>x509\<close> verify against the roots of the
  operating system), and nil is returned only when the context is done.
\<close>

locale tls_provider =
  fixes rootCAs :: "'p \<Rightarrow> 'c RootCAs option go"
    and cancelled :: "'p \<Rightarrow> bool"
  assumes rootCAs_populated: "rootCAs p = Return (Some r) \<Longrightarrow> populated r"
    and rootCAs_nil: "rootCAs p = Return None \<Longrightarrow> cancelled p"
    and rootCAs_no_panic: "rootCAs p \<noteq> Panic"
begin

lemma rootCAs_pool:
  assumes "rootCAs p = Return (Some r)"
  obtains pool where "rc_CertPool r = Some pool" "rc_PEM r \<noteq> []"
  using rootCAs_populated [OF assms] by (auto simp: populated_def)

end

interpretation prov: tls_provider Provider_RootCAs "\<lambda>polls. PollDone \<in> set polls"
proof unfold_locales
  fix p :: "'c poll list" and r
  show "Provider_RootCAs p = Return (Some r) \<Longrightarrow> populated r"
    by (induction p rule: Provider_RootCAs.induct) (auto split: if_splits)
  show "Provider_RootCAs p = Return None \<Longrightarrow> PollDone \<in> set p"
    by (induction p rule: Provider_RootCAs.induct) (auto split: if_splits)
  show "Provider_RootCAs p \<noteq> Panic"
    by (induction p rule: Provider_RootCAs.induct) auto
qed

lemma Provider_RootCAs_held: "Provider_RootCAs polls = Return (Some r) \<Longrightarrow> PollTick r \<in> set polls"
  by (induction polls rule: Provider_RootCAs.induct) (auto split: if_splits)

section \<open>Properties\<close>

text \<open>
  \<open>RootCAs\<close> returns at the first round in which the context is done (nil) or the provider
  holds a non-empty bundle with a pool (that bundle); it keeps waiting exactly while neither
  has happened.
\<close>

lemma root_cas_first_ready:
  "Provider_RootCAs polls =
     (case dropWhile (\<lambda>p. \<exists>r. p = PollTick r \<and> \<not> populated r) polls of
        [] \<Rightarrow> Blocked
      | PollDone # _ \<Rightarrow> Return None
      | PollTick r # _ \<Rightarrow> Return (Some r))"
  by (induction polls rule: Provider_RootCAs.induct) auto

end
