(* ===== verification/Server.thy ===== *)
theory Server
  imports Auth Cert_Manager Tls_Interface
begin

text \<open>
  \<open>pkg/server/server.go\<close>: the gRPC certificate service. Its collaborators are arguments: the
  signer is the operation of the \<open>signer\<close> interface, the root certificates come from the
  \<open>tls_provider\<close> interface; cert-manager's \<open>pki\<close> package and certificate verification are the
  record \<open>pki_env\<close>, with \<open>'c\<close> the type of parsed certificates.
\<close>

section \<open>Model\<close>

datatype ExtKeyUsage = ExtKeyUsageClientAuth | ExtKeyUsageServerAuth

record 'c VerifyOptions =
  vo_Intermediates :: "'c list"
  vo_Roots :: "'c list option"
  vo_KeyUsages :: "ExtKeyUsage list"

record 'c pki_env =
  pki_ParseSingleCertificateChainPEM :: "string \<Rightarrow> error + string"
  pki_DecodeX509CertificateChainBytes :: "string \<Rightarrow> error + 'c list"
  pki_Verify :: "'c \<Rightarrow> 'c VerifyOptions \<Rightarrow> error option"
  pki_EncodeX509 :: "'c \<Rightarrow> error + string"

record ServerOptions =
  so_ClusterID :: string
  so_ServingAddress :: string
  so_MaximumClientCertificateDuration :: duration
  so_EnableClientCert :: bool
  so_CATrustedNodeAccounts :: "string list"

record 'ctx Server = "'ctx auth_server" +
  srv_opts :: ServerOptions
  srv_ready :: bool

text \<open>gRPC status codes the service returns.\<close>

datatype code = Unauthenticated | Internal

text \<open>The loop of \<open>New\<close> over the trusted accounts: entries without a slash are ignored.\<close>

fun parse_accounts :: "string list \<Rightarrow> NamespacedName set" where
  "parse_accounts [] = {}"
| "parse_accounts (v # vs) =
     (case strings_Cut v (CHR ''/'') of
        (ns, sa, valid) \<Rightarrow>
          if \<not> valid then parse_accounts vs
          else insert \<lparr>nn_Namespace = ns, nn_Name = sa\<rparr> (parse_accounts vs))"

text \<open>
  \<open>New\<close>: the error of building the Kubernetes client, Istio's two authenticators, and the node
  authorizer's constructor applied to its informer client are arguments.
\<close>

definition Server_New ::
  "error option \<Rightarrow> 'ctx Authenticator \<Rightarrow> 'ctx Authenticator \<Rightarrow>
   (NamespacedName set \<Rightarrow> ClusterNodeAuthorizer) \<Rightarrow> ServerOptions \<Rightarrow> error + 'ctx Server" where
  "Server_New clientErr clientCertAuthenticator kubeJWTAuthenticator newAuthorizer opts =
     (case clientErr of
        Some err \<Rightarrow> Inl (Wrapf ''failed creating kube client: %v'' err)
      | None \<Rightarrow>
          Inr \<lparr>srv_authenticators =
                 (if so_EnableClientCert opts then [clientCertAuthenticator] else [])
                 @ [kubeJWTAuthenticator],
               srv_nodeAuthorizer =
                 (if so_CATrustedNodeAccounts opts \<noteq> []
                  then Some (newAuthorizer (parse_accounts (so_CATrustedNodeAccounts opts)))
                  else None),
               srv_opts = opts, srv_ready = False\<rparr>)"

text \<open>\<open>for _, cert := range respCerts { pki.EncodeX509(cert) }\<close>.\<close>

fun encode_certs :: "'c pki_env \<Rightarrow> 'c list \<Rightarrow> error + string list" where
  "encode_certs pki [] = Inr []"
| "encode_certs pki (cert # certs) =
     (case pki_EncodeX509 pki cert of
        Inl err \<Rightarrow> Inl (Wrapf ''failed to encode signed certificate: %w'' err)
      | Inr certEncoded \<Rightarrow>
          (case encode_certs pki certs of Inl err \<Rightarrow> Inl err | Inr rest \<Rightarrow> Inr (certEncoded # rest)))"

text \<open>
  \<open>parseCertificateBundle\<close>; \<open>roots\<close> is the value of \<open>s.tls.RootCAs(ctx)\<close> and \<open>ctxErr\<close> that of
  \<open>ctx.Err()\<close>. \<open>respCerts[1:]\<close> panics on an empty chain.
\<close>

definition parseCertificateBundle ::
  "'c pki_env \<Rightarrow> 'c RootCAs option go \<Rightarrow> error \<Rightarrow> Bundle \<Rightarrow> (error + string list) go" where
  "parseCertificateBundle pki roots ctxErr bundle =
     (case pki_ParseSingleCertificateChainPEM pki (b_Certificate bundle) of
        Inl err \<Rightarrow> Return (Inl (Wrapf ''failed to parse and verify chain returned from issuer: %w'' err))
      | Inr chainPEM \<Rightarrow>
     (case pki_DecodeX509CertificateChainBytes pki chainPEM of
        Inl err \<Rightarrow> Return (Inl (Wrapf ''failed to decode certificate chain returned from issuer: %w'' err))
      | Inr [] \<Rightarrow> Panic
      | Inr (leaf # intermediates) \<Rightarrow>
     (case roots of
        Panic \<Rightarrow> Panic
      | Blocked \<Rightarrow> Blocked
      | Return None \<Rightarrow> Return (Inl ctxErr)
      | Return (Some rootCAs) \<Rightarrow>
     (let opts = \<lparr>vo_Intermediates = intermediates, vo_Roots = rc_CertPool rootCAs,
                  vo_KeyUsages = [ExtKeyUsageClientAuth, ExtKeyUsageServerAuth]\<rparr> in
      case pki_Verify pki leaf opts of
        Some err \<Rightarrow> Return (Inl (Wrapf ''failed to verify the issued certificate chain against the current mesh roots: %w'' err))
      | None \<Rightarrow>
     (case encode_certs pki (leaf # intermediates) of
        Inl err \<Rightarrow> Return (Inl err)
      | Inr certChain \<Rightarrow> Return (Inr (certChain @ [rc_PEM rootCAs])))))))"

text \<open>\<open>min(time.Duration(icr.GetValidityDuration()) * time.Second, max)\<close>, in \<open>int64\<close>.\<close>

definition request_duration :: "'ctx Server \<Rightarrow> IstioCertificateRequest \<Rightarrow> duration" where
  "request_duration s icr =
     go_min (icr_ValidityDuration icr * time_Second) (so_MaximumClientCertificateDuration (srv_opts s))"

text \<open>
  \<open>CreateCertificate\<close>: \<open>sign\<close> is the signer's operation on its state \<open>st\<close>. The answer is the
  certificate chain or a status code.
\<close>

definition CreateCertificate ::
  "'url auth_env \<Rightarrow> 'c pki_env \<Rightarrow>
   ('s \<Rightarrow> string \<Rightarrow> string \<Rightarrow> duration \<Rightarrow> KeyUsage list \<Rightarrow> (error + Bundle) go \<times> 's) \<Rightarrow>
   'c RootCAs option go \<Rightarrow> error \<Rightarrow> 'ctx Server \<Rightarrow> 's \<Rightarrow> 'ctx \<Rightarrow> IstioCertificateRequest
   \<Rightarrow> (code + string list) go \<times> 's" where
  "CreateCertificate env pki sign roots ctxErr s st ctx icr =
     (case authRequest env s ctx icr of
        Panic \<Rightarrow> (Panic, st)
      | Blocked \<Rightarrow> (Blocked, st)
      | Return (identities, ok) \<Rightarrow>
          if \<not> ok then (Return (Inl Unauthenticated), st)
          else (case sign st identities (icr_Csr icr) (request_duration s icr)
                       [UsageClientAuth, UsageServerAuth] of
                  (Panic, st') \<Rightarrow> (Panic, st')
                | (Blocked, st') \<Rightarrow> (Blocked, st')
                | (Return (Inl err), st') \<Rightarrow> (Return (Inl Internal), st')
                | (Return (Inr bundle), st') \<Rightarrow>
                    ((case parseCertificateBundle pki roots ctxErr bundle of
                        Panic \<Rightarrow> Panic
                      | Blocked \<Rightarrow> Blocked
                      | Return (Inl err) \<Rightarrow> Return (Inl Internal)
                      | Return (Inr certChain) \<Rightarrow> Return (Inr certChain)), st')))"

definition Server_NeedLeaderElection :: bool where
  "Server_NeedLeaderElection = False"

definition Server_Check :: "'ctx Server \<Rightarrow> error option" where
  "Server_Check s = (if srv_ready s then None else Some (Errorf ''not ready''))"

section \<open>The clients of the signer and of the root certificates\<close>

text \<open>What the service needs of its two collaborators together.\<close>

locale certificate_service =
  signer sign created + tls_provider rootCAs cancelled
  for sign :: "'s \<Rightarrow> string \<Rightarrow> string \<Rightarrow> duration \<Rightarrow> KeyUsage list \<Rightarrow> (error + Bundle) go \<times> 's"
    and created :: "'s \<Rightarrow> cm_CertificateRequest list"
    and rootCAs :: "'p \<Rightarrow> 'c RootCAs option go"
    and cancelled :: "'p \<Rightarrow> bool"
begin

lemma creates_only_authorised:
  assumes "CreateCertificate env pki sign roots ctxErr s st ctx icr = (r, st')"
    and "created st' \<noteq> created st"
  obtains ids cr where "authRequest env s ctx icr = Return (ids, True)"
    "created st' = created st @ [cr]" "cr_Request cr = icr_Csr icr"
    "cr_Duration cr = request_duration s icr" "cr_Usages cr = [UsageClientAuth, UsageServerAuth]"
    "\<not> cr_IsCA cr"
proof -
  from assms obtain ids r' where a: "authRequest env s ctx icr = Return (ids, True)"
    and s: "sign st ids (icr_Csr icr) (request_duration s icr) [UsageClientAuth, UsageServerAuth] = (r', st')"
    by (auto simp: CreateCertificate_def split: go.splits prod.splits if_splits sum.splits)
  from sign_creates [OF s] assms(2) a that show thesis by blast
qed

lemma refused_unchanged:
  assumes "\<And>ids. authRequest env s ctx icr \<noteq> Return (ids, True)"
  shows "snd (CreateCertificate env pki sign roots ctxErr s st ctx icr) = st"
  using assms by (auto simp: CreateCertificate_def split: go.splits prod.splits)

lemma answer_verified:
  assumes "CreateCertificate env pki sign (rootCAs p) ctxErr s st ctx icr = (Return (Inr chain), st')"
  obtains b leaf inter r pool encs where
    "b_Certificate b \<noteq> []" "created st' \<noteq> created st"
    "parseCertificateBundle pki (rootCAs p) ctxErr b = Return (Inr chain)"
    "rootCAs p = Return (Some r)" "rc_CertPool r = Some pool" "rc_PEM r \<noteq> []"
proof -
  from assms obtain ids b where
    s: "sign st ids (icr_Csr icr) (request_duration s icr) [UsageClientAuth, UsageServerAuth] =
          (Return (Inr b), st')"
    and p: "parseCertificateBundle pki (rootCAs p) ctxErr b = Return (Inr chain)"
    by (auto simp: CreateCertificate_def split: go.splits prod.splits if_splits sum.splits)
  from p obtain r where r: "rootCAs p = Return (Some r)"
    by (auto simp: parseCertificateBundle_def split: sum.splits list.splits go.splits option.splits)
  from sign_bundle [OF s] p r rootCAs_pool [OF r] that show thesis by blast
qed

end

interpretation svc: certificate_service "Sign env m" created_requests
    Provider_RootCAs "\<lambda>polls. PollDone \<in> set polls"
  for env :: "'w cm_env" and m
  by unfold_locales

section \<open>Lemmas\<close>

lemma request_duration_bounded:
  "sint (request_duration s icr) \<le> sint (so_MaximumClientCertificateDuration (srv_opts s))"
  by (simp add: request_duration_def sint_go_min)

lemma create_certificate_issuer:
  assumes "CreateCertificate env pki (Sign cmenv m) roots ctxErr s cl ctx icr = (r, cl')"
    and "created_requests cl' = created_requests cl @ [cr]"
  shows "Some (cr_IssuerRef cr) = mgr_activeIssuerRef m"
proof -
  from assms obtain ids r' where "Sign cmenv m cl ids (icr_Csr icr) (request_duration s icr)
      [UsageClientAuth, UsageServerAuth] = (r', cl')"
    by (auto simp: CreateCertificate_def split: go.splits prod.splits if_splits sum.splits)
  then show ?thesis
    using Sign_created [of cmenv m cl ids "icr_Csr icr" "request_duration s icr"
        "[UsageClientAuth, UsageServerAuth]"] assms(2)
    by (auto simp: new_request_def split: option.splits)
qed

lemma encode_certs_Inr:
  "encode_certs pki cs = Inr es \<longleftrightarrow> map (pki_EncodeX509 pki) cs = map Inr es"
proof (induction cs arbitrary: es)
  case (Cons c cs)
  then show ?case
    using Cons.IH [of "tl es"]
    by (cases es; cases "pki_EncodeX509 pki c"; cases "encode_certs pki cs") auto
qed auto

lemma parseCertificateBundle_Inr:
  assumes "parseCertificateBundle pki (Return (Some r)) ctxErr b = Return (Inr chain)"
  obtains pem leaf inter es where
    "pki_ParseSingleCertificateChainPEM pki (b_Certificate b) = Inr pem"
    "pki_DecodeX509CertificateChainBytes pki pem = Inr (leaf # inter)"
    "pki_Verify pki leaf \<lparr>vo_Intermediates = inter, vo_Roots = rc_CertPool r,
       vo_KeyUsages = [ExtKeyUsageClientAuth, ExtKeyUsageServerAuth]\<rparr> = None"
    "map (pki_EncodeX509 pki) (leaf # inter) = map Inr es"
    "chain = es @ [rc_PEM r]"
proof -
  from assms obtain pem leaf inter es where p:
    "pki_ParseSingleCertificateChainPEM pki (b_Certificate b) = Inr pem"
    "pki_DecodeX509CertificateChainBytes pki pem = Inr (leaf # inter)"
    "pki_Verify pki leaf \<lparr>vo_Intermediates = inter, vo_Roots = rc_CertPool r,
       vo_KeyUsages = [ExtKeyUsageClientAuth, ExtKeyUsageServerAuth]\<rparr> = None"
    "encode_certs pki (leaf # inter) = Inr es" "chain = es @ [rc_PEM r]"
    by (auto simp: parseCertificateBundle_def Let_def
        simp del: encode_certs.simps split: sum.splits list.splits option.splits)
  show thesis by (rule that [OF p(1-3) p(4) [unfolded encode_certs_Inr] p(5)])
qed

lemma parseCertificateBundle_iff:
  "parseCertificateBundle pki roots ctxErr b = Return (Inr chain) \<longleftrightarrow>
   (\<exists>pem leaf inter r es.
      pki_ParseSingleCertificateChainPEM pki (b_Certificate b) = Inr pem \<and>
      pki_DecodeX509CertificateChainBytes pki pem = Inr (leaf # inter) \<and> roots = Return (Some r) \<and>
      pki_Verify pki leaf \<lparr>vo_Intermediates = inter, vo_Roots = rc_CertPool r,
        vo_KeyUsages = [ExtKeyUsageClientAuth, ExtKeyUsageServerAuth]\<rparr> = None \<and>
      map (pki_EncodeX509 pki) (leaf # inter) = map Inr es \<and> chain = es @ [rc_PEM r])"
  by (auto simp: parseCertificateBundle_def Let_def encode_certs_Inr [symmetric] simp del: encode_certs.simps list.map
      split: sum.splits list.splits go.splits option.splits)

lemma CreateCertificate_iff:
  "fst (CreateCertificate env pki sign roots ctxErr s st ctx icr) = Return (Inr chain) \<longleftrightarrow>
   (\<exists>ids b. authRequest env s ctx icr = Return (ids, True) \<and>
      fst (sign st ids (icr_Csr icr) (request_duration s icr) [UsageClientAuth, UsageServerAuth]) = Return (Inr b) \<and>
      parseCertificateBundle pki roots ctxErr b = Return (Inr chain))"
  by (auto simp: CreateCertificate_def split: go.splits prod.splits sum.splits)

lemma CreateCertificate_Unauthenticated:
  "fst (CreateCertificate env pki sign roots ctxErr s st ctx icr) = Return (Inl Unauthenticated) \<longleftrightarrow>
   (\<exists>ids. authRequest env s ctx icr = Return (ids, False))"
  by (auto simp: CreateCertificate_def split: go.splits prod.splits sum.splits if_splits)

lemma parse_accounts_mem:
  "\<lparr>nn_Namespace = ns, nn_Name = sa\<rparr> \<in> parse_accounts vs \<longleftrightarrow>
   CHR ''/'' \<notin> set ns \<and> ns @ CHR ''/'' # sa \<in> set vs"
proof (induction vs)
  case (Cons v vs)
  have "strings_Cut v (CHR ''/'') = (ns, sa, True) \<longleftrightarrow> CHR ''/'' \<notin> set ns \<and> ns @ CHR ''/'' # sa = v"
    by (rule strings_Cut_found)
  then show ?case using Cons by (auto split: prod.splits)
qed simp

lemma Server_New_Inr:
  assumes "Server_New e cc jwt mk opts = Inr s"
  shows "srv_authenticators s = (if so_EnableClientCert opts then [cc, jwt] else [jwt])"
    and "srv_nodeAuthorizer s = (if so_CATrustedNodeAccounts opts = [] then None
           else Some (mk (parse_accounts (so_CATrustedNodeAccounts opts))))"
    and "srv_opts s = opts" "\<not> srv_ready s"
  using assms by (auto simp: Server_New_def split: option.splits)

section \<open>A concrete service\<close>

definition demo_srv_opts :: ServerOptions where
  "demo_srv_opts = \<lparr>so_ClusterID = ''Kubernetes'', so_ServingAddress = ''0.0.0.0:6443'',
     so_MaximumClientCertificateDuration = 3600000000000, so_EnableClientCert = False,
     so_CATrustedNodeAccounts = [''istio-system/ztunnel'', ''broken'']\<rparr>"

definition demo_icr :: IstioCertificateRequest where
  "demo_icr = \<lparr>icr_Csr = ''csr'', icr_ValidityDuration = 86400, icr_Metadata = []\<rparr>"

definition demo_server :: "unit Server" where
  "demo_server = \<lparr>srv_authenticators = [], srv_nodeAuthorizer = None, srv_opts = demo_srv_opts,
     srv_ready = False\<rparr>"

text \<open>
  An instance of every parameter, for the witnesses: a workload with one identity, a CSR for it,
  a cert-manager that signs at once, one root certificate.
\<close>

definition world_csr :: "string CertificateRequest" where
  "world_csr = \<lparr>csr_CommonName = [], csr_Extensions = [], csr_ExtraExtensions = [], csr_DNSNames = [],
     csr_EmailAddresses = [], csr_IPAddresses = [], csr_URIs = [''spiffe://td/ns/a/sa/b'']\<rparr>"

definition world_auth :: "string auth_env" where
  "world_auth = \<lparr>env_ImpersonatedIdentity = ''ImpersonatedIdentity'',
     env_ParsePemEncodedCSR = (\<lambda>_. Inr world_csr), env_CheckSignature = (\<lambda>_. None),
     env_URL_String = (\<lambda>u. u), env_NewAggregate = aggregate_errors,
     env_ParseIdentity = (\<lambda>_. Inr sleep_identity)\<rparr>"

definition world_caller :: Caller where
  "world_caller = \<lparr>caller_Identities = [''spiffe://td/ns/a/sa/b''], caller_KubernetesInfo = zt_caller\<rparr>"

definition world_server :: "unit Server" where
  "world_server = \<lparr>srv_authenticators = [\<lambda>_. (Some world_caller, None)], srv_nodeAuthorizer = None,
     srv_opts = demo_srv_opts, srv_ready = True\<rparr>"

definition world_pki :: "string pki_env" where
  "world_pki = \<lparr>pki_ParseSingleCertificateChainPEM = Inr,
     pki_DecodeX509CertificateChainBytes = (\<lambda>pem. Inr [pem]),
     pki_Verify = (\<lambda>c opts. if vo_Roots opts = Some [''root''] then None else Some (Errorf ''unknown authority'')),
     pki_EncodeX509 = Inr\<rparr>"

definition world_root :: "string RootCAs" where
  "world_root = \<lparr>rc_PEM = ''root'', rc_CertPool = Some [''root'']\<rparr>"

lemmas world_defs = world_csr_def world_auth_def world_caller_def world_server_def world_pki_def
  world_root_def demo_srv_opts_def demo_icr_def

lemma world_accepts:
  "authRequest world_auth world_server () demo_icr = Return (''spiffe://td/ns/a/sa/b'', True)"
  by (simp add: world_defs authRequest_def requested_identities_def csr_checks_def
      identitiesMatch_def ValidateCSRExtentions_def aggregate_errors_def map_filter_simps)

lemma world_answers:
  "fst (CreateCertificate world_auth world_pki (Sign demo_env demo_manager)
     (Provider_RootCAs [PollTick world_root]) ctxErr world_server demo_cluster () demo_icr) =
   Return (Inr [''cert'', ''root''])"
  unfolding CreateCertificate_def world_accepts
  by (simp add: demo_defs Sign_def waitForCertificateRequest_def new_request_def
      wait_check.simps do_call_def failed_condition_def populated_def parseCertificateBundle_def
      world_defs)

lemma world_creates:
  "created_requests (snd (CreateCertificate world_auth world_pki (Sign demo_env demo_manager)
     (Provider_RootCAs [PollTick world_root]) ctxErr world_server demo_cluster () demo_icr)) \<noteq>
   created_requests demo_cluster"
proof -
  obtain cl' where c: "CreateCertificate world_auth world_pki (Sign demo_env demo_manager)
     (Provider_RootCAs [PollTick world_root]) ctxErr world_server demo_cluster () demo_icr =
     (Return (Inr [''cert'', ''root'']), cl')"
    using world_answers [of ctxErr] by (metis fst_conv surj_pair)
  show ?thesis unfolding c snd_conv by (rule svc.answer_verified [OF c])
qed

section \<open>Properties\<close>

text \<open>
  The duration of the request is the validity the client asked for in seconds, in
  nanoseconds and cut at the configured maximum, for every validity whose nanoseconds fit
  \<open>int64\<close>.
\<close>

lemma duration_capped:
  assumes "- 9223372036 \<le> sint (icr_ValidityDuration icr)" "sint (icr_ValidityDuration icr) \<le> 9223372036"
  shows "sint (request_duration s icr) =
    min (sint (icr_ValidityDuration icr) * 1000000000)
        (sint (so_MaximumClientCertificateDuration (srv_opts s)))"
proof -
  let ?v = "sint (icr_ValidityDuration icr)"
  have "icr_ValidityDuration icr * time_Second = word_of_int (?v * 1000000000)"
    by (simp add: time_Second_def)
  then have "sint (icr_ValidityDuration icr * time_Second) = ?v * 1000000000"
    using assms sint64_of_int [of "?v * 1000000000"] by simp
  then show ?thesis by (simp add: request_duration_def sint_go_min)
qed

text \<open>
  Beyond that range the product wraps: a client that asks for 9223372037 seconds gets a
  request with a negative duration, one that asks for \<open>2 ^ 55\<close> seconds a duration of at most
  zero, although both ask for more than any maximum.
\<close>

lemma duration_overflow:
  "sint (request_duration s (icr\<lparr>icr_ValidityDuration := 9223372037\<rparr>)) < 0 \<and>
   sint (request_duration s (icr\<lparr>icr_ValidityDuration := 2 ^ 55\<rparr>)) \<le> 0"
proof -
  have "sint (9223372037 * time_Second) < 0" "2 ^ 55 * time_Second = 0"
    by (simp_all add: time_Second_def)
  then show ?thesis by (simp add: request_duration_def sint_go_min min_def)
qed

text \<open>
  A server built by \<open>New\<close> authorises impersonation only when trusted accounts are configured,
  and trusts exactly the pairs written \<open>namespace/account\<close> in the configuration, split at the
  first slash; the Kubernetes token authenticator is always the last resort.
\<close>

lemma server_new_trust:
  assumes "Server_New e cc jwt (NewClusterNodeAuthorizer podsGet createIndex) opts = Inr s"
  shows "last (srv_authenticators s) = jwt \<and>
    (srv_nodeAuthorizer s = None \<longleftrightarrow> so_CATrustedNodeAccounts opts = []) \<and>
    (\<forall>na ns sa. srv_nodeAuthorizer s = Some na \<longrightarrow>
       (\<lparr>nn_Namespace = ns, nn_Name = sa\<rparr> \<in> na_trustedNodeAccounts na \<longleftrightarrow>
        CHR ''/'' \<notin> set ns \<and> ns @ CHR ''/'' # sa \<in> set (so_CATrustedNodeAccounts opts)))"
  using Server_New_Inr [OF assms]
  by (auto simp: NewClusterNodeAuthorizer_def parse_accounts_mem split: if_splits)

end
