(* ===== verification/Curves.thy ===== *)
theory Curves
  imports Istio_Prelude
begin

text \<open>
  \<open>pkg/tls/curves.go\<close>: the parser of the curve preferences, with what it uses of Go's
  \<open>unicode/utf8\<close>, \<open>strings\<close>, \<open>unicode\<close> and \<open>strconv\<close>. The table of the Unicode category Nd above
  Latin-1 is the parameter \<open>Nd\<close>; no accepted result depends on it.
\<close>

section \<open>Runes\<close>

definition runeError :: nat where "runeError = 0xFFFD"

definition tail_byte :: "nat \<Rightarrow> bool" where "tail_byte b \<longleftrightarrow> 0x80 \<le> b \<and> b \<le> 0xBF"

text \<open>\<open>utf8.DecodeRuneInString\<close> on the bytes of a string: the rune and its width.\<close>

fun decode_rune :: "nat list \<Rightarrow> nat \<times> nat" where
  "decode_rune [] = (runeError, 0)"
| "decode_rune (b0 # bs) =
     (if b0 < 0x80 then (b0, 1)
      else if 0xC2 \<le> b0 \<and> b0 \<le> 0xDF then
        (case bs of
           b1 # _ \<Rightarrow> if tail_byte b1 then ((b0 mod 32) * 64 + b1 mod 64, 2) else (runeError, 1)
         | _ \<Rightarrow> (runeError, 1))
      else if 0xE0 \<le> b0 \<and> b0 \<le> 0xEF then
        (case bs of
           b1 # b2 # _ \<Rightarrow>
             if (if b0 = 0xE0 then 0xA0 else 0x80) \<le> b1 \<and> b1 \<le> (if b0 = 0xED then 0x9F else 0xBF)
                \<and> tail_byte b2
             then ((b0 mod 16) * 4096 + (b1 mod 64) * 64 + b2 mod 64, 3) else (runeError, 1)
         | _ \<Rightarrow> (runeError, 1))
      else if 0xF0 \<le> b0 \<and> b0 \<le> 0xF4 then
        (case bs of
           b1 # b2 # b3 # _ \<Rightarrow>
             if (if b0 = 0xF0 then 0x90 else 0x80) \<le> b1 \<and> b1 \<le> (if b0 = 0xF4 then 0x8F else 0xBF)
                \<and> tail_byte b2 \<and> tail_byte b3
             then ((b0 mod 8) * 262144 + (b1 mod 64) * 4096 + (b2 mod 64) * 64 + b3 mod 64, 4)
             else (runeError, 1)
         | _ \<Rightarrow> (runeError, 1))
      else (runeError, 1))"

text \<open>
  \<open>utf8.DecodeLastRuneInString\<close>: it goes back over at most three continuation bytes to a byte
  that may start a rune and decodes there; a rune that does not end the string is an error.
\<close>

definition last_start :: "nat list \<Rightarrow> nat" where
  "last_start s =
     (let end' = length s; lim = end' - 4;
          cands = filter (\<lambda>i. lim \<le> i \<and> \<not> tail_byte (s ! i)) (rev [0..<end' - 1]) in
      case cands of i # _ \<Rightarrow> i | [] \<Rightarrow> if end' < 5 then 0 else end' - 5)"

definition decode_last_rune :: "nat list \<Rightarrow> nat \<times> nat" where
  "decode_last_rune s =
     (if s = [] then (runeError, 0)
      else if last s < 0x80 then (last s, 1)
      else let start = last_start s; (r, width) = decode_rune (drop start s) in
        if start + width \<noteq> length s then (runeError, 1) else (r, width))"

section \<open>White space and digits\<close>

definition unicode_IsSpace :: "nat \<Rightarrow> bool" where
  "unicode_IsSpace r \<longleftrightarrow>
     (9 \<le> r \<and> r \<le> 13) \<or> r = 32 \<or> r = 0x85 \<or> r = 0xA0 \<or> r = 0x1680 \<or> (0x2000 \<le> r \<and> r \<le> 0x200A) \<or>
     r = 0x2028 \<or> r = 0x2029 \<or> r = 0x202F \<or> r = 0x205F \<or> r = 0x3000"

definition unicode_IsDigit :: "(nat \<Rightarrow> bool) \<Rightarrow> nat \<Rightarrow> bool" where
  "unicode_IsDigit Nd r \<longleftrightarrow> (if r \<le> 0xFF then 0x30 \<le> r \<and> r \<le> 0x39 else Nd r)"

text \<open>\<open>strings.TrimSpace\<close>: white space is cut rune by rune, first on the left, then on the right.\<close>

lemma decode_rune_width: "bs \<noteq> [] \<Longrightarrow> 0 < snd (decode_rune bs)"
  by (cases bs) (auto split: list.splits)

lemma decode_rune_shorter:
  "(r, w) = decode_rune s \<Longrightarrow> s \<noteq> [] \<Longrightarrow> length s - w < length s"
  by (metis decode_rune_width diff_less length_greater_0_conv snd_conv)

function trim_left :: "nat list \<Rightarrow> nat list" where
  "trim_left s =
     (case decode_rune s of (r, width) \<Rightarrow>
        if s \<noteq> [] \<and> unicode_IsSpace r then trim_left (drop width s) else s)"
  by pat_completeness auto
termination
  by (relation "measure length") (auto simp: decode_rune_shorter)

lemma last_start_less: "s \<noteq> [] \<Longrightarrow> last_start s < length s"
proof -
  assume "s \<noteq> []"
  have "i < length s" if "filter P (rev [0..<length s - 1]) = i # is" for P i "is"
  proof -
    have "i \<in> set (filter P (rev [0..<length s - 1]))" using that by simp
    then show ?thesis by auto
  qed
  with \<open>s \<noteq> []\<close> show ?thesis by (auto simp: last_start_def Let_def split: list.splits)
qed

lemma decode_last_rune_width: "s \<noteq> [] \<Longrightarrow> 0 < snd (decode_last_rune s)"
  using last_start_less [of s] decode_rune_width [of "drop (last_start s) s"]
  by (auto simp: decode_last_rune_def Let_def split: prod.splits)

lemma decode_last_rune_shorter:
  "(r, w) = decode_last_rune s \<Longrightarrow> s \<noteq> [] \<Longrightarrow> length s - w < length s"
  by (metis decode_last_rune_width diff_less length_greater_0_conv snd_conv)

function trim_right :: "nat list \<Rightarrow> nat list" where
  "trim_right s =
     (case decode_last_rune s of (r, width) \<Rightarrow>
        if s \<noteq> [] \<and> unicode_IsSpace r then trim_right (take (length s - width) s) else s)"
  by pat_completeness auto
termination
  by (relation "measure length") (auto simp: decode_last_rune_shorter)

declare trim_left.simps [simp del] trim_right.simps [simp del]

definition strings_TrimSpace :: "string \<Rightarrow> string" where
  "strings_TrimSpace s = map char_of (trim_right (trim_left (map of_char s :: nat list)))"

section \<open>Numbers\<close>

text \<open>
  \<open>strconv.ParseUint(s, 10, 16)\<close>. The accumulator never exceeds 65535, so the \<open>uint64\<close> arithmetic
  of the source does not wrap and its test for that is not reached.
\<close>

definition digit_val :: "char \<Rightarrow> nat option" where
  "digit_val c = (if 0x30 \<le> (of_char c :: nat) \<and> (of_char c :: nat) \<le> 0x39
                  then Some (of_char c - 0x30) else None)"

fun parse_uint_loop :: "string \<Rightarrow> nat \<Rightarrow> error + nat" where
  "parse_uint_loop [] n = Inr n"
| "parse_uint_loop (c # cs) n =
     (case digit_val c of
        None \<Rightarrow> Inl (Errorf ''invalid syntax'')
      | Some d \<Rightarrow>
          if n * 10 + d > 65535 then Inl (Errorf ''value out of range'')
          else parse_uint_loop cs (n * 10 + d))"

definition ParseUint16 :: "string \<Rightarrow> error + nat" where
  "ParseUint16 s = (if s = [] then Inl (Errorf ''invalid syntax'') else parse_uint_loop s 0)"

section \<open>The parser\<close>

text \<open>The loop \<open>for _, r := range s\<close> of \<open>isAllDecimal\<close>.\<close>

function all_digits :: "(nat \<Rightarrow> bool) \<Rightarrow> nat list \<Rightarrow> bool" where
  "all_digits Nd s =
     (case decode_rune s of (r, width) \<Rightarrow>
        if s = [] then True
        else if \<not> unicode_IsDigit Nd r then False
        else all_digits Nd (drop width s))"
  by pat_completeness auto
termination
  by (relation "measure (\<lambda>(_, s). length s)") (auto simp: decode_rune_shorter)

declare all_digits.simps [simp del]

definition isAllDecimal :: "(nat \<Rightarrow> bool) \<Rightarrow> string \<Rightarrow> bool" where
  "isAllDecimal Nd s = (if s = [] then False else all_digits Nd (map of_char s))"

type_synonym CurveID = "16 word"

definition parseCurveID :: "(nat \<Rightarrow> bool) \<Rightarrow> string \<Rightarrow> error + CurveID" where
  "parseCurveID Nd name =
     (if isAllDecimal Nd name
      then (case ParseUint16 name of
              Inl err \<Rightarrow> Inl (Wrapf ''invalid tls curve id %q: %w'' err)
            | Inr u \<Rightarrow> Inr (of_nat u))
      else if name = ''X25519'' then Inr 29
      else if name = ''CurveP256'' \<or> name = ''P-256'' \<or> name = ''P256'' then Inr 23
      else if name = ''CurveP384'' \<or> name = ''P-384'' \<or> name = ''P384'' then Inr 24
      else if name = ''CurveP521'' \<or> name = ''P-521'' \<or> name = ''P521'' then Inr 25
      else Inl (Errorf ''unknown tls curve preference %q (use a name like X25519 or a decimal CurveID)''))"

fun parse_curves :: "(nat \<Rightarrow> bool) \<Rightarrow> string list \<Rightarrow> CurveID list \<Rightarrow> error + CurveID list" where
  "parse_curves Nd [] out = Inr out"
| "parse_curves Nd (raw # names) out =
     (let name = strings_TrimSpace raw in
      if name = [] then Inl (Errorf ''empty curve preference entry'')
      else case parseCurveID Nd name of
             Inl err \<Rightarrow> Inl err
           | Inr curveID \<Rightarrow> parse_curves Nd names (out @ [curveID]))"

definition ParseCurvePreferences :: "(nat \<Rightarrow> bool) \<Rightarrow> string list \<Rightarrow> error + CurveID list" where
  "ParseCurvePreferences Nd names = (if names = [] then Inr [] else parse_curves Nd names [])"

section \<open>Lemmas\<close>

text \<open>The bytes of a name that consists of decimal digits only.\<close>

definition ascii_digits :: "string \<Rightarrow> bool" where
  "ascii_digits s \<longleftrightarrow> list_all (\<lambda>c. digit_val c \<noteq> None) s"

definition decimal_value :: "string \<Rightarrow> nat" where
  "decimal_value s = foldl (\<lambda>n c. n * 10 + the (digit_val c)) 0 s"

lemma decode_rune_ascii: "b < 0x80 \<Longrightarrow> decode_rune (b # bs) = (b, 1)"
  by simp

lemma all_digits_ascii:
  "ascii_digits s \<Longrightarrow> all_digits Nd (map of_char s)"
proof (induction s)
  case (Cons c cs)
  then have "0x30 \<le> (of_char c :: nat) \<and> (of_char c :: nat) \<le> 0x39"
    by (auto simp: ascii_digits_def digit_val_def split: if_splits)
  with Cons show ?case
    by (simp add: all_digits.simps [of Nd "of_char c # _"] unicode_IsDigit_def ascii_digits_def
        del: decode_rune.simps add: decode_rune_ascii)
qed (simp add: all_digits.simps)

lemma parse_uint_loop_Inr:
  "n \<le> 65535 \<Longrightarrow> parse_uint_loop s n = Inr u \<longleftrightarrow>
   ascii_digits s \<and> u = foldl (\<lambda>n c. n * 10 + the (digit_val c)) n s \<and> u \<le> 65535"
proof (induction s arbitrary: n)
  case (Cons c cs)
  have mono: "m \<le> foldl (\<lambda>n c. n * 10 + the (digit_val c)) m cs" for m
  proof (induction cs arbitrary: m)
    case (Cons c cs)
    have "m \<le> m * 10 + the (digit_val c)" by simp
    also note Cons.IH [of "m * 10 + the (digit_val c)"]
    finally show ?case by simp
  qed simp
  show ?case
  proof (cases "digit_val c")
    case (Some d)
    show ?thesis
    proof (cases "n * 10 + d > 65535")
      case True
      with Some mono [of "n * 10 + d"] show ?thesis by (auto simp: ascii_digits_def)
    next
      case False
      with Some Cons.IH [of "n * 10 + d"] show ?thesis by (simp add: ascii_digits_def)
    qed
  qed (simp add: ascii_digits_def)
qed (auto simp: ascii_digits_def)

lemma ParseUint16_Inr:
  "ParseUint16 s = Inr u \<longleftrightarrow> s \<noteq> [] \<and> ascii_digits s \<and> u = decimal_value s \<and> u \<le> 65535"
  by (auto simp: ParseUint16_def parse_uint_loop_Inr decimal_value_def)

text \<open>The names the parser knows.\<close>

definition curve_names :: "(string \<times> CurveID) list" where
  "curve_names = [(''X25519'', 29),
     (''CurveP256'', 23), (''P-256'', 23), (''P256'', 23),
     (''CurveP384'', 24), (''P-384'', 24), (''P384'', 24),
     (''CurveP521'', 25), (''P-521'', 25), (''P521'', 25)]"

lemma all_digits_no_digit: "b < 0x30 \<or> 0x39 < b \<and> b < 0x80 \<Longrightarrow> \<not> all_digits Nd (b # bs)"
  by (subst all_digits.simps) (auto simp: unicode_IsDigit_def)

lemma curve_name_not_decimal:
  assumes "(name, i) \<in> set curve_names"
  shows "\<not> isAllDecimal Nd name"
  using assms by (auto simp: curve_names_def isAllDecimal_def all_digits_no_digit)

lemma isAllDecimal_ascii: "name \<noteq> [] \<Longrightarrow> ascii_digits name \<Longrightarrow> isAllDecimal Nd name"
  by (simp add: isAllDecimal_def all_digits_ascii)

lemma parseCurveID_Inr:
  "parseCurveID Nd name = Inr i \<longleftrightarrow>
   (name, i) \<in> set curve_names \<or>
   (name \<noteq> [] \<and> ascii_digits name \<and> decimal_value name \<le> 65535 \<and> i = of_nat (decimal_value name))"
proof (cases "isAllDecimal Nd name")
  case True
  then have "(name, i) \<notin> set curve_names" using curve_name_not_decimal by blast
  then show ?thesis
    using True by (auto simp: parseCurveID_def ParseUint16_Inr split: sum.splits)
      (metis Inl_Inr_False ParseUint16_Inr)
next
  case False
  then have "\<not> (name \<noteq> [] \<and> ascii_digits name)" using isAllDecimal_ascii by blast
  moreover have "parseCurveID Nd name = Inr i \<longleftrightarrow> (name, i) \<in> set curve_names"
    using False by (auto simp: parseCurveID_def curve_names_def)
  ultimately show ?thesis by blast
qed

lemma parse_curves_Inr:
  "parse_curves Nd names out = Inr ids \<longleftrightarrow>
   (\<exists>new. ids = out @ new \<and>
      list_all2 (\<lambda>raw i. strings_TrimSpace raw \<noteq> [] \<and> parseCurveID Nd (strings_TrimSpace raw) = Inr i)
        names new)"
proof (induction names arbitrary: out)
  case (Cons raw names)
  then show ?case
    by (cases "parseCurveID Nd (strings_TrimSpace raw)") (auto simp: Let_def list_all2_Cons1)
qed auto

text \<open>Decimal notation, as \<open>strconv.FormatUint\<close> writes it.\<close>

fun decimal :: "nat \<Rightarrow> string" where
  "decimal n = (if n < 10 then [char_of (48 + n)] else decimal (n div 10) @ [char_of (48 + n mod 10)])"

declare decimal.simps [simp del]

lemma digit_val_char_of: "d < 10 \<Longrightarrow> digit_val (char_of (48 + d)) = Some d"
  by (simp add: digit_val_def of_char_of take_bit_nat_eq_self)

lemma decimal_digits: "decimal n \<noteq> [] \<and> ascii_digits (decimal n)"
proof (induction n rule: decimal.induct)
  case (1 n)
  then show ?case
    by (cases "n < 10")
       (simp_all add: decimal.simps [of n] ascii_digits_def digit_val_char_of)
qed

lemma decimal_value_decimal: "decimal_value (decimal n) = n"
proof (induction n rule: decimal.induct)
  case (1 n)
  show ?case
  proof (cases "n < 10")
    case True
    then show ?thesis by (simp add: decimal.simps [of n] decimal_value_def digit_val_char_of)
  next
    case False
    with 1 show ?thesis
      by (simp add: decimal.simps [of n] decimal_value_def digit_val_char_of)
  qed
qed

lemma TrimSpace_digits:
  assumes "ascii_digits s"
  shows "strings_TrimSpace s = s"
proof (cases "s = []")
  case True
  then show ?thesis
    by (simp add: strings_TrimSpace_def trim_left.simps [of "[]"] trim_right.simps [of "[]"])
next
  case False
  have d: "0x30 \<le> (of_char c :: nat) \<and> (of_char c :: nat) \<le> 0x39" if "c \<in> set s" for c
    using assms that
    by (fastforce simp: ascii_digits_def list_all_iff digit_val_def split: if_splits)
  have l: "trim_left (map of_char s) = (map of_char s :: nat list)"
  proof (cases s)
    case (Cons c cs)
    with d [of c] show ?thesis
      by (subst trim_left.simps) (simp add: unicode_IsSpace_def)
  qed (simp add: trim_left.simps [of "[]"])
  have "trim_right (map of_char s) = (map of_char s :: nat list)"
    using d [of "last s"] False
    by (subst trim_right.simps) (simp add: decode_last_rune_def last_map unicode_IsSpace_def)
  with l show ?thesis by (simp add: strings_TrimSpace_def map_idI)
qed

section \<open>Properties\<close>

text \<open>
  A single entry is accepted exactly when it is one of the ten known names, with that curve,
  or a non-empty string of ASCII digits of value at most 65535, with that number. So digits of
  other scripts, which \<open>isAllDecimal\<close> lets through, are always refused.
\<close>

lemma curve_id_exact:
  "parseCurveID Nd name = Inr i \<longleftrightarrow>
   (name, i) \<in> set curve_names \<or>
   (name \<noteq> [] \<and> ascii_digits name \<and> decimal_value name \<le> 65535 \<and> i = of_nat (decimal_value name))"
  by (rule parseCurveID_Inr)

text \<open>
  A list of preferences is accepted exactly when every entry is, after trimming, a non-empty
  and accepted one; the result holds their curves in the order of the entries.
\<close>

lemma curve_preferences_order:
  "ParseCurvePreferences Nd names = Inr ids \<longleftrightarrow>
   list_all2 (\<lambda>raw i. strings_TrimSpace raw \<noteq> [] \<and> parseCurveID Nd (strings_TrimSpace raw) = Inr i)
     names ids"
  by (auto simp: ParseCurvePreferences_def parse_curves_Inr)

text \<open>
  C35: Curve identifiers written in decimal are read back, in order, for all 65536 of them.
\<close>

theorem curve_decimal_roundtrip:
  "ParseCurvePreferences Nd (map (\<lambda>i. decimal (unat i)) ids) = Inr ids"
proof -
  have "strings_TrimSpace (decimal (unat i)) \<noteq> [] \<and>
      parseCurveID Nd (strings_TrimSpace (decimal (unat i))) = Inr i" for i :: CurveID
  proof -
    have "unat i < 2 ^ LENGTH(16)" by (rule unsigned_less)
    then have "unat i \<le> 65535" by simp
    then show ?thesis
      using decimal_digits [of "unat i"]
      by (simp add: TrimSpace_digits parseCurveID_Inr decimal_value_decimal)
  qed
  then show ?thesis
    by (auto simp: ParseCurvePreferences_def parse_curves_Inr list_all2_conv_all_nth)
qed

end
