(* ===== verification/Tls_Provider.thy ===== *)
theory Tls_Provider
  imports Tls_Interface Curves Cert_Manager
begin

text \<open>
  \<open>pkg/tls/tls.go\<close>: the provider of the serving certificate, of the TLS configuration built from
  it and of the mesh's root certificates. The signer is the operation of the \<open>signer\<close> interface;
  key generation, PEM decoding, key pairs and Istio's SPIFFE verifier are the record \<open>tls_env\<close>,
  the flag parsers of Kubernetes are arguments of \<open>NewProvider\<close>. \<open>'c\<close> is the type of parsed
  certificates, \<open>'k\<close> of private keys, \<open>'kp\<close> of TLS certificates with their key and \<open>'v\<close> of peer
  verifiers.
\<close>

section \<open>Model\<close>

record TlsOptions =
  to_TrustDomain :: string
  to_RootCAsCertFile :: string
  to_ServingCertificateDuration :: duration
  to_ServingCertificateDNSNames :: "string list"
  to_ServingCertificateKeySize :: int
  to_ServingSignatureAlgorithm :: string
  to_ServingTLSMinVersion :: string
  to_ServingTLSCipherSuites :: "string list"
  to_ServingTLSCurvePreferences :: "string list"

text \<open>A point in time, in nanoseconds; Go's zero time lies \<open>zeroTime\<close> before the epoch.\<close>

type_synonym time = int

definition zeroTime :: time where
  "zeroTime = - 62135596800000000000"

datatype ECCurve = P256Curve | P384Curve

datatype ECSigAlg = EcdsaSigAlg

record CertOptions =
  co_Host :: string
  co_IsServer :: bool
  co_TTL :: duration
  co_ECSigAlg :: "ECSigAlg option"
  co_RSAKeySize :: int
  co_ECCCurve :: "ECCurve option"

datatype ClientAuthType = NoClientCert | VerifyClientCertIfGiven | RequireAndVerifyClientCert

text \<open>
  \<open>tls.Config\<close>: the fields the provider sets. \<open>ClientCAs\<close> and \<open>VerifyPeerCertificate\<close> are taken
  from a peer verifier, \<open>GetConfigForClient\<close> is set or not.
\<close>

record ('kp, 'v) tls_Config =
  tc_Certificates :: "'kp list"
  tc_NextProtos :: "string list"
  tc_ClientAuth :: ClientAuthType
  tc_ClientCAs :: "'v option"
  tc_SessionTicketsDisabled :: bool
  tc_VerifyPeerCertificate :: "'v option"
  tc_GetConfigForClient :: bool
  tc_MinVersion :: "16 word"
  tc_CipherSuites :: "16 word list"
  tc_CurvePreferences :: "CurveID list"

definition empty_Config :: "('kp, 'v) tls_Config" where
  "empty_Config = \<lparr>tc_Certificates = [], tc_NextProtos = [], tc_ClientAuth = NoClientCert,
     tc_ClientCAs = None, tc_SessionTicketsDisabled = False, tc_VerifyPeerCertificate = None,
     tc_GetConfigForClient = False, tc_MinVersion = 0, tc_CipherSuites = [],
     tc_CurvePreferences = []\<rparr>"

definition VersionTLS12 :: "16 word" where
  "VersionTLS12 = 0x0303"

text \<open>
  Subscriptions are channels (numbers) that are only ever appended; \<open>prv_sends\<close> are the started
  goroutines that send to the subscription at the index they captured; \<open>prv_metric\<close> the success
  labels counted so far.
\<close>

record ('c, 'kp, 'v) Provider =
  prv_opts :: TlsOptions
  prv_rootCAs :: "'c RootCAs"
  prv_servingMinVersion :: "16 word"
  prv_servingCipherSuites :: "16 word list"
  prv_servingCurvePreferences :: "CurveID list"
  prv_tlsConfig :: "('kp, 'v) tls_Config option"
  prv_subscriptions :: "nat list"
  prv_sends :: "nat list"
  prv_metric :: "string list"

record ('c, 'k, 'kp, 'v) tls_env =
  te_GenCSR :: "CertOptions \<Rightarrow> error + string \<times> 'k"
  te_DecodeX509CertificateSetBytes :: "'c decoder"
  te_AddMappingFromPEM :: "string \<Rightarrow> string \<Rightarrow> error + 'v"
  te_X509KeyPair :: "string \<Rightarrow> 'k \<Rightarrow> error + 'kp"
  te_NotAfter :: "string \<Rightarrow> error + time"

definition NewProvider ::
  "(string \<Rightarrow> error + 16 word) \<Rightarrow> (string list \<Rightarrow> error + 16 word list) \<Rightarrow> (nat \<Rightarrow> bool)
   \<Rightarrow> TlsOptions \<Rightarrow> error + ('c, 'kp, 'v) Provider" where
  "NewProvider TLSVersion TLSCipherSuites Nd opts =
     (case TLSVersion (to_ServingTLSMinVersion opts) of
        Inl err \<Rightarrow> Inl (Wrapf ''serving tls min version: %w'' err)
      | Inr minVersion \<Rightarrow>
     if minVersion < VersionTLS12
     then Inl (Errorf ''serving tls min version must be VersionTLS12 or higher'')
     else
     (case TLSCipherSuites (to_ServingTLSCipherSuites opts) of
        Inl err \<Rightarrow> Inl (Wrapf ''serving tls cipher suites: %w'' err)
      | Inr cipherSuites \<Rightarrow>
     (case ParseCurvePreferences Nd (to_ServingTLSCurvePreferences opts) of
        Inl err \<Rightarrow> Inl (Wrapf ''serving tls curve preferences: %w'' err)
      | Inr curves \<Rightarrow>
          Inr \<lparr>prv_opts = opts, prv_rootCAs = \<lparr>rc_PEM = [], rc_CertPool = None\<rparr>,
               prv_servingMinVersion = minVersion, prv_servingCipherSuites = cipherSuites,
               prv_servingCurvePreferences = curves, prv_tlsConfig = None,
               prv_subscriptions = [], prv_sends = [], prv_metric = []\<rparr>)))"

definition applyTLSSecuritySettings ::
  "('c, 'kp, 'v) Provider \<Rightarrow> ('kp, 'v) tls_Config \<Rightarrow> ('kp, 'v) tls_Config" where
  "applyTLSSecuritySettings p cfg =
     (let cfg1 = cfg\<lparr>tc_MinVersion := max (prv_servingMinVersion p) VersionTLS12\<rparr>;
          cfg2 = (if prv_servingCipherSuites p \<noteq> []
                  then cfg1\<lparr>tc_CipherSuites := prv_servingCipherSuites p\<rparr> else cfg1) in
      if prv_servingCurvePreferences p \<noteq> []
      then cfg2\<lparr>tc_CurvePreferences := prv_servingCurvePreferences p\<rparr> else cfg2)"

text \<open>The goroutines started for a change of the root certificates: one per subscription.\<close>

definition broadcast :: "('c, 'kp, 'v) Provider \<Rightarrow> ('c, 'kp, 'v) Provider" where
  "broadcast p = p\<lparr>prv_sends := prv_sends p @ [0..<length (prv_subscriptions p)]\<rparr>"

definition loadCAsRoot ::
  "('c, 'k, 'kp, 'v) tls_env \<Rightarrow> ('c, 'kp, 'v) Provider \<Rightarrow> string
   \<Rightarrow> error option \<times> ('c, 'kp, 'v) Provider" where
  "loadCAsRoot env p rootCAsPEM =
     (if rc_PEM (prv_rootCAs p) = rootCAsPEM then (None, p)
      else case te_DecodeX509CertificateSetBytes env rootCAsPEM of
             Inl err \<Rightarrow> (Some (Wrapf ''failed to decode bundle CA returned from issuer: %w'' err), p)
           | Inr rootCAsCerts \<Rightarrow>
               (None, broadcast (p\<lparr>prv_rootCAs :=
                  \<lparr>rc_PEM = rootCAsPEM, rc_CertPool = Some rootCAsCerts\<rparr>\<rparr>)))"

text \<open>The two \<open>switch\<close> statements of \<open>fetchCertificate\<close>.\<close>

definition cert_options :: "TlsOptions \<Rightarrow> error + CertOptions" where
  "cert_options o' =
     (let opts = \<lparr>co_Host = strings_Join (to_ServingCertificateDNSNames o') '','', co_IsServer = True,
                  co_TTL = to_ServingCertificateDuration o', co_ECSigAlg = None, co_RSAKeySize = 0,
                  co_ECCCurve = None\<rparr> in
      if to_ServingSignatureAlgorithm o' = ''RSA''
      then Inr (opts\<lparr>co_RSAKeySize := to_ServingCertificateKeySize o'\<rparr>)
      else if to_ServingSignatureAlgorithm o' = ''ECDSA''
      then (if to_ServingCertificateKeySize o' = 256
            then Inr (opts\<lparr>co_ECSigAlg := Some EcdsaSigAlg, co_ECCCurve := Some P256Curve\<rparr>)
            else if to_ServingCertificateKeySize o' = 384
            then Inr (opts\<lparr>co_ECSigAlg := Some EcdsaSigAlg, co_ECCCurve := Some P384Curve\<rparr>)
            else Inl (Errorf ''unsupported serving certificate key size (supported: 256, 384): %d''))
      else Inl (Errorf ''unknown signature algorithm (supported: \"RSA\", \"ECDSA\"): %s''))"

text \<open>The part of \<open>fetchCertificate\<close> that runs under the lock, after the root certificates are loaded.\<close>

definition install_config ::
  "('c, 'k, 'kp, 'v) tls_env \<Rightarrow> ('c, 'kp, 'v) Provider \<Rightarrow> Bundle \<Rightarrow> 'k
   \<Rightarrow> (error + time) \<times> ('c, 'kp, 'v) Provider" where
  "install_config env p bundle pk =
     (if \<not> populated (prv_rootCAs p) then (Inl (Errorf ''root CA certificate is not defined''), p)
      else case te_AddMappingFromPEM env (to_TrustDomain (prv_opts p)) (rc_PEM (prv_rootCAs p)) of
        Inl err \<Rightarrow> (Inl (Wrapf ''failed to add root CAs to SPIFFE peer certificate verifier: %w'' err), p)
      | Inr peerCertVerifier \<Rightarrow>
     (case te_X509KeyPair env (b_Certificate bundle) pk of
        Inl err \<Rightarrow> (Inl err, p)
      | Inr tlsCert \<Rightarrow>
     (case te_NotAfter env (b_Certificate bundle) of
        Inl err \<Rightarrow> (Inl (Wrapf ''failed to parse signed certificate: %w'' err), p)
      | Inr notAfter \<Rightarrow>
          (Inr notAfter,
           p\<lparr>prv_tlsConfig := Some (applyTLSSecuritySettings p
               (empty_Config\<lparr>tc_Certificates := [tlsCert], tc_NextProtos := [''h2''],
                 tc_ClientAuth := VerifyClientCertIfGiven, tc_ClientCAs := Some peerCertVerifier,
                 tc_SessionTicketsDisabled := True,
                 tc_VerifyPeerCertificate := Some peerCertVerifier\<rparr>))\<rparr>))))"

text \<open>The deferred increment of the metric.\<close>

definition count_request :: "string \<Rightarrow> ('c, 'kp, 'v) Provider \<Rightarrow> ('c, 'kp, 'v) Provider" where
  "count_request success p = p\<lparr>prv_metric := prv_metric p @ [success]\<rparr>"

definition fetchCertificate ::
  "('c, 'k, 'kp, 'v) tls_env \<Rightarrow>
   ('s \<Rightarrow> string \<Rightarrow> string \<Rightarrow> duration \<Rightarrow> KeyUsage list \<Rightarrow> (error + Bundle) go \<times> 's) \<Rightarrow>
   ('c, 'kp, 'v) Provider \<Rightarrow> 's \<Rightarrow> (error + time) go \<times> ('c, 'kp, 'v) Provider \<times> 's" where
  "fetchCertificate env sign p st =
     (case cert_options (prv_opts p) of
        Inl err \<Rightarrow> (Return (Inl err), count_request ''0'' p, st)
      | Inr opts \<Rightarrow>
     (case te_GenCSR env opts of
        Inl err \<Rightarrow>
          (Return (Inl (Wrapf ''failed to generate serving private key and CSR: %s'' err)),
           count_request ''0'' p, st)
      | Inr (csr, pk) \<Rightarrow>
     (case sign st ''istio-csr-serving'' csr (to_ServingCertificateDuration (prv_opts p)) [UsageServerAuth] of
        (Panic, st') \<Rightarrow> (Panic, count_request ''0'' p, st')
      | (Blocked, st') \<Rightarrow> (Blocked, p, st')
      | (Return (Inl err), st') \<Rightarrow>
          (Return (Inl (Wrapf ''failed to sign serving certificate: %w'' err)), count_request ''0'' p, st')
      | (Return (Inr bundle), st') \<Rightarrow>
          (case (if to_RootCAsCertFile (prv_opts p) = [] then loadCAsRoot env p (b_CA bundle) else (None, p)) of
             (Some err, p1) \<Rightarrow>
               (Return (Inl (Wrapf ''failed to load CA from issuer response: %w'' err)), count_request ''0'' p1, st')
           | (None, p1) \<Rightarrow>
               (case install_config env p1 bundle pk of
                  (Inl err, p2) \<Rightarrow> (Return (Inl err), count_request ''0'' p2, st')
                | (Inr notAfter, p2) \<Rightarrow> (Return (Inr notAfter), count_request ''1'' p2, st'))))))"

text \<open>The assignment in the goroutine that follows the file of root certificates.\<close>

definition root_file_update :: "'c RootCAs \<Rightarrow> ('c, 'kp, 'v) Provider \<Rightarrow> ('c, 'kp, 'v) Provider" where
  "root_file_update rootCAs p = broadcast (p\<lparr>prv_rootCAs := rootCAs\<rparr>)"

text \<open>
  \<open>Config\<close> polls for a configuration; each round finds one, or none and then the context done or
  not. \<open>getConfigForClient\<close> gives the current inner configuration to a connection.
\<close>

fun Provider_Config ::
  "(('c, 'kp, 'v) Provider \<times> error option) list \<Rightarrow> (error + ('kp, 'v) tls_Config) go" where
  "Provider_Config [] = Blocked"
| "Provider_Config ((p, ctxErr) # polls) =
     (if prv_tlsConfig p \<noteq> None
      then Return (Inr (applyTLSSecuritySettings p
             (empty_Config\<lparr>tc_GetConfigForClient := True, tc_ClientAuth := RequireAndVerifyClientCert\<rparr>)))
      else case ctxErr of
             Some err \<Rightarrow> Return (Inl err)
           | None \<Rightarrow> Provider_Config polls)"

definition getConfigForClient :: "('c, 'kp, 'v) Provider \<Rightarrow> ('kp, 'v) tls_Config option" where
  "getConfigForClient p = prv_tlsConfig p"

definition TrustDomain :: "('c, 'kp, 'v) Provider \<Rightarrow> string" where
  "TrustDomain p = to_TrustDomain (prv_opts p)"

definition Provider_NeedLeaderElection :: bool where
  "Provider_NeedLeaderElection = False"

definition Provider_Check :: "('c, 'kp, 'v) Provider \<Rightarrow> error option" where
  "Provider_Check p = (if prv_tlsConfig p \<noteq> None then None else Some (Errorf ''not ready''))"

definition SubscribeRootCAsEvent :: "('c, 'kp, 'v) Provider \<Rightarrow> nat \<times> ('c, 'kp, 'v) Provider" where
  "SubscribeRootCAsEvent p =
     (let sub = length (prv_subscriptions p) in
      (sub, p\<lparr>prv_subscriptions := prv_subscriptions p @ [sub]\<rparr>))"

section \<open>Renewal\<close>

text \<open>\<open>time.Until\<close> saturates; the product and the quotient are in \<open>int64\<close>.\<close>

definition time_Until :: "time \<Rightarrow> time \<Rightarrow> duration" where
  "time_Until now t = word_of_int (max (- (2 ^ 63)) (min (2 ^ 63 - 1) (t - now)))"

definition renewalTime :: "time \<Rightarrow> time \<Rightarrow> duration" where
  "renewalTime now notAfter = go_quot (2 * time_Until now notAfter) 3"

text \<open>
  \<open>Start\<close> with \<open>mustFetchCertificate\<close> inlined, as a machine on the inputs the environment offers.
  \<open>AtBackoff\<close> is the head of the first loop, \<open>AwaitIssuer\<close> its wait for an issuer, \<open>AwaitRenewal t\<close>
  the timer, \<open>AwaitTicker\<close> the \<open>select\<close> after a failed renewal.
\<close>

datatype provider_phase =
  AtBackoff | AwaitIssuer | AwaitRenewal time | AwaitTicker | FetchStuck
| is_ProviderReturned: ProviderReturned "error option"

datatype 'c provider_input =
  BackoffContinue | BackoffEnd | IssuerWaitOver | TimerFired | TickerFired | ContextDone
| RootFile "'c RootCAs" | Subscribe

type_synonym ('c, 'kp, 'v, 's) provider_state = "provider_phase \<times> ('c, 'kp, 'v) Provider \<times> 's"

definition after_initial ::
  "(error + time) go \<times> ('c, 'kp, 'v) Provider \<times> 's \<Rightarrow> ('c, 'kp, 'v, 's) provider_state" where
  "after_initial x =
     (case x of
        (Return (Inl err), p, st) \<Rightarrow> (AtBackoff, p, st)
      | (Return (Inr notAfter), p, st) \<Rightarrow> (AwaitRenewal notAfter, p, st)
      | (_, p, st) \<Rightarrow> (FetchStuck, p, st))"

definition after_renewal ::
  "(error + time) go \<times> ('c, 'kp, 'v) Provider \<times> 's \<Rightarrow> ('c, 'kp, 'v, 's) provider_state" where
  "after_renewal x =
     (case x of
        (Return (Inl err), p, st) \<Rightarrow> (AwaitTicker, p, st)
      | (Return (Inr notAfter), p, st) \<Rightarrow> (AwaitRenewal notAfter, p, st)
      | (_, p, st) \<Rightarrow> (FetchStuck, p, st))"

fun provider_step ::
  "('c, 'k, 'kp, 'v) tls_env \<Rightarrow>
   ('s \<Rightarrow> string \<Rightarrow> string \<Rightarrow> duration \<Rightarrow> KeyUsage list \<Rightarrow> (error + Bundle) go \<times> 's) \<Rightarrow>
   ('c, 'kp, 'v, 's) provider_state \<Rightarrow> 'c provider_input \<Rightarrow> ('c, 'kp, 'v, 's) provider_state" where
  "provider_step env sign (ph, p, st) (RootFile r) =
     (if to_RootCAsCertFile (prv_opts p) \<noteq> [] \<and> \<not> is_ProviderReturned ph
      then (ph, root_file_update r p, st) else (ph, p, st))"
| "provider_step env sign (ph, p, st) Subscribe = (ph, snd (SubscribeRootCAsEvent p), st)"
| "provider_step env sign (AtBackoff, p, st) BackoffContinue = (AwaitIssuer, p, st)"
| "provider_step env sign (AtBackoff, p, st) BackoffEnd = (AwaitRenewal zeroTime, p, st)"
| "provider_step env sign (AwaitIssuer, p, st) IssuerWaitOver = after_initial (fetchCertificate env sign p st)"
| "provider_step env sign (AwaitRenewal t, p, st) TimerFired = after_renewal (fetchCertificate env sign p st)"
| "provider_step env sign (AwaitRenewal t, p, st) ContextDone = (ProviderReturned None, p\<lparr>prv_tlsConfig := None\<rparr>, st)"
| "provider_step env sign (AwaitTicker, p, st) TickerFired = after_renewal (fetchCertificate env sign p st)"
| "provider_step env sign (AwaitTicker, p, st) ContextDone = (AwaitRenewal zeroTime, p, st)"
| "provider_step env sign s _ = s"

text \<open>\<open>watchErr\<close> is the error of \<open>rootca.Watch\<close>, called when a file is configured.\<close>

definition Provider_Start where
  "Provider_Start env sign watchErr p st inputs =
     (case watchErr of
        Some err \<Rightarrow>
          if to_RootCAsCertFile (prv_opts p) \<noteq> [] then (ProviderReturned (Some err), p, st)
          else foldl (provider_step env sign) (AtBackoff, p, st) inputs
      | None \<Rightarrow> foldl (provider_step env sign) (AtBackoff, p, st) inputs)"

section \<open>Invariant\<close>

text \<open>
  What holds of every configuration the provider serves with: the floor on the protocol version,
  client certificates verified against a verifier built from the trust domain and a non-empty
  bundle of roots, no session tickets (they would skip that verifier).
\<close>

definition secure_config ::
  "('c, 'k, 'kp, 'v) tls_env \<Rightarrow> string \<Rightarrow> ('kp, 'v) tls_Config \<Rightarrow> bool" where
  "secure_config env trustDomain c \<longleftrightarrow>
     VersionTLS12 \<le> tc_MinVersion c \<and> tc_ClientAuth c = VerifyClientCertIfGiven \<and>
     tc_SessionTicketsDisabled c \<and> tc_NextProtos c = [''h2''] \<and> length (tc_Certificates c) = 1 \<and>
     (\<exists>v pem. pem \<noteq> [] \<and> te_AddMappingFromPEM env trustDomain pem = Inr v \<and>
        tc_ClientCAs c = Some v \<and> tc_VerifyPeerCertificate c = Some v)"

definition provider_inv :: "('c, 'k, 'kp, 'v) tls_env \<Rightarrow> TlsOptions \<Rightarrow> ('c, 'kp, 'v) Provider \<Rightarrow> bool" where
  "provider_inv env opts p \<longleftrightarrow>
     prv_opts p = opts \<and>
     (\<forall>c. prv_tlsConfig p = Some c \<longrightarrow> secure_config env (to_TrustDomain opts) c) \<and>
     (\<forall>i < length (prv_subscriptions p). prv_subscriptions p ! i = i) \<and>
     (\<forall>i \<in> set (prv_sends p). i < length (prv_subscriptions p))"

lemma settings_min: "VersionTLS12 \<le> tc_MinVersion (applyTLSSecuritySettings p c)"
  by (simp add: applyTLSSecuritySettings_def Let_def)

lemma settings_frame [simp]:
  "tc_ClientAuth (applyTLSSecuritySettings p c) = tc_ClientAuth c"
  "tc_SessionTicketsDisabled (applyTLSSecuritySettings p c) = tc_SessionTicketsDisabled c"
  "tc_NextProtos (applyTLSSecuritySettings p c) = tc_NextProtos c"
  "tc_Certificates (applyTLSSecuritySettings p c) = tc_Certificates c"
  "tc_ClientCAs (applyTLSSecuritySettings p c) = tc_ClientCAs c"
  "tc_VerifyPeerCertificate (applyTLSSecuritySettings p c) = tc_VerifyPeerCertificate c"
  "tc_GetConfigForClient (applyTLSSecuritySettings p c) = tc_GetConfigForClient c"
  by (simp_all add: applyTLSSecuritySettings_def Let_def)

lemma broadcast_frame [simp]:
  "prv_opts (broadcast p) = prv_opts p" "prv_tlsConfig (broadcast p) = prv_tlsConfig p"
  "prv_rootCAs (broadcast p) = prv_rootCAs p" "prv_subscriptions (broadcast p) = prv_subscriptions p"
  "prv_metric (broadcast p) = prv_metric p"
  by (simp_all add: broadcast_def)

lemma broadcast_inv: "provider_inv env opts p \<Longrightarrow> provider_inv env opts (broadcast p)"
  by (auto simp: provider_inv_def broadcast_def)

lemma provider_inv_rootCAs [simp]:
  "provider_inv env opts (p\<lparr>prv_rootCAs := r\<rparr>) = provider_inv env opts p"
  by (simp add: provider_inv_def)

lemma loadCAsRoot_inv:
  "loadCAsRoot env p pem = (e, p') \<Longrightarrow> provider_inv env' opts p \<Longrightarrow> provider_inv env' opts p'"
  by (auto simp: loadCAsRoot_def broadcast_inv split: if_splits sum.splits)

lemma loadCAsRoot_frame:
  "loadCAsRoot env p pem = (e, p') \<Longrightarrow>
   prv_opts p' = prv_opts p \<and> prv_tlsConfig p' = prv_tlsConfig p \<and> prv_metric p' = prv_metric p"
  by (auto simp: loadCAsRoot_def split: if_splits sum.splits)

lemma install_config_Inr:
  assumes "install_config env p b pk = (Inr t, p')"
  obtains v kp where "populated (prv_rootCAs p)" "te_NotAfter env (b_Certificate b) = Inr t"
    "te_AddMappingFromPEM env (to_TrustDomain (prv_opts p)) (rc_PEM (prv_rootCAs p)) = Inr v"
    "te_X509KeyPair env (b_Certificate b) pk = Inr kp"
    "p' = p\<lparr>prv_tlsConfig := Some (applyTLSSecuritySettings p
       (empty_Config\<lparr>tc_Certificates := [kp], tc_NextProtos := [''h2''],
         tc_ClientAuth := VerifyClientCertIfGiven, tc_ClientCAs := Some v,
         tc_SessionTicketsDisabled := True, tc_VerifyPeerCertificate := Some v\<rparr>))\<rparr>"
  using assms by (auto simp: install_config_def split: if_splits sum.splits)

lemma install_config_Inl: "install_config env p b pk = (Inl e, p') \<Longrightarrow> p' = p"
  by (auto simp: install_config_def split: if_splits sum.splits)

lemma install_config_inv:
  assumes "install_config env p b pk = (r, p')" and "provider_inv env opts p"
  shows "provider_inv env opts p'"
proof (cases r)
  case (Inl e)
  then show ?thesis using assms install_config_Inl by metis
next
  case (Inr t)
  with assms obtain v kp where v: "rc_PEM (prv_rootCAs p) \<noteq> []"
    "te_AddMappingFromPEM env (to_TrustDomain (prv_opts p)) (rc_PEM (prv_rootCAs p)) = Inr v"
    and p': "p' = p\<lparr>prv_tlsConfig := Some (applyTLSSecuritySettings p
       (empty_Config\<lparr>tc_Certificates := [kp], tc_NextProtos := [''h2''],
         tc_ClientAuth := VerifyClientCertIfGiven, tc_ClientCAs := Some v,
         tc_SessionTicketsDisabled := True, tc_VerifyPeerCertificate := Some v\<rparr>))\<rparr>"
    by (auto elim!: install_config_Inr simp: populated_def)
  from assms(2) have "prv_opts p = opts" by (simp add: provider_inv_def)
  with v have "\<exists>pem. pem \<noteq> [] \<and> te_AddMappingFromPEM env (to_TrustDomain opts) pem = Inr v" by blast
  with assms(2) settings_min [of p] show ?thesis
    by (auto simp: provider_inv_def secure_config_def p')
qed

lemma count_request_inv [simp]: "provider_inv env opts (count_request l p) = provider_inv env opts p"
  by (simp add: count_request_def provider_inv_def)

lemma fetch_inv:
  assumes "fetchCertificate env sign p st = (r, p', st')" and "provider_inv env opts p"
  shows "provider_inv env opts p'"
  using assms
  by (auto simp: fetchCertificate_def split: sum.splits prod.splits go.splits option.splits if_splits
      dest!: loadCAsRoot_inv [where opts = opts] install_config_inv [where opts = opts])

lemma after_inv:
  assumes "provider_inv env opts (fst (snd x))"
  shows "provider_inv env opts (fst (snd (after_initial x)))"
    and "provider_inv env opts (fst (snd (after_renewal x)))"
  using assms by (auto simp: after_initial_def after_renewal_def split: prod.splits go.splits sum.splits)

lemma fetch_inv': "provider_inv env opts p \<Longrightarrow> provider_inv env opts (fst (snd (fetchCertificate env sign p st)))"
  by (metis fetch_inv prod.collapse)

lemma shutdown_inv: "provider_inv env opts p \<Longrightarrow> provider_inv env opts (p\<lparr>prv_tlsConfig := None\<rparr>)"
  by (simp add: provider_inv_def)

lemma provider_step_inv:
  "provider_inv env opts (fst (snd s)) \<Longrightarrow> provider_inv env opts (fst (snd (provider_step env sign s i)))"
proof (induction env sign s i rule: provider_step.induct)
  case (2 env sign ph p st)
  then show ?case
    by (auto simp: SubscribeRootCAsEvent_def Let_def provider_inv_def nth_append less_Suc_eq)
qed (auto simp: after_inv fetch_inv' broadcast_inv root_file_update_def shutdown_inv)

lemma provider_run_inv:
  "provider_inv env opts (fst (snd s)) \<Longrightarrow>
   provider_inv env opts (fst (snd (foldl (provider_step env sign) s inputs)))"
  by (induction inputs arbitrary: s) (auto simp: provider_step_inv)

lemma NewProvider_inv:
  "NewProvider TLSVersion TLSCipherSuites Nd opts = Inr p \<Longrightarrow> provider_inv env opts p"
  by (auto simp: NewProvider_def provider_inv_def split: sum.splits if_splits)

lemma Provider_Start_inv:
  "provider_inv env opts p \<Longrightarrow> provider_inv env opts (fst (snd (Provider_Start env sign we p st inputs)))"
  by (auto simp: Provider_Start_def provider_run_inv split: option.splits)

section \<open>Fetching a certificate\<close>

lemma fetch_error:
  assumes "fetchCertificate env sign p st = (Return (Inl err), p', st')"
  shows "prv_tlsConfig p' = prv_tlsConfig p \<and> prv_metric p' = prv_metric p @ [''0'']"
  using assms
  by (auto simp: fetchCertificate_def count_request_def
      split: sum.splits prod.splits go.splits option.splits if_splits
      dest!: loadCAsRoot_frame install_config_Inl)

lemma fetch_success:
  assumes "fetchCertificate env sign p st = (Return (Inr t), p', st')"
  obtains copts csr pk b p1 p2 where
    "cert_options (prv_opts p) = Inr copts" "te_GenCSR env copts = Inr (csr, pk)"
    "sign st ''istio-csr-serving'' csr (to_ServingCertificateDuration (prv_opts p)) [UsageServerAuth] =
       (Return (Inr b), st')"
    "(if to_RootCAsCertFile (prv_opts p) = [] then loadCAsRoot env p (b_CA b) else (None, p)) = (None, p1)"
    "install_config env p1 b pk = (Inr t, p2)" "p' = count_request ''1'' p2"
  using assms
  by (auto simp: fetchCertificate_def split: sum.splits prod.splits go.splits option.splits)

lemma loadCAsRoot_None:
  "loadCAsRoot env p pem = (None, p') \<Longrightarrow> rc_PEM (prv_rootCAs p') = pem"
  by (auto simp: loadCAsRoot_def split: if_splits sum.splits)

lemma fetch_config:
  assumes "prv_tlsConfig p \<noteq> None"
  shows "prv_tlsConfig (fst (snd (fetchCertificate env sign p st))) \<noteq> None"
  using assms
  by (auto simp: fetchCertificate_def count_request_def
      split: sum.splits prod.splits go.splits option.splits if_splits
      dest!: loadCAsRoot_frame install_config_Inl elim!: install_config_Inr)

lemma after_provider [simp]:
  "fst (snd (after_initial x)) = fst (snd x)" "fst (snd (after_renewal x)) = fst (snd x)"
  by (auto simp: after_initial_def after_renewal_def split: prod.splits go.splits sum.splits)

lemma provider_step_ready:
  "i \<noteq> ContextDone \<Longrightarrow> prv_tlsConfig (fst (snd s)) \<noteq> None \<Longrightarrow>
   prv_tlsConfig (fst (snd (provider_step env sign s i))) \<noteq> None"
  by (induction env sign s i rule: provider_step.induct)
     (simp_all add: root_file_update_def SubscribeRootCAsEvent_def Let_def fetch_config del: not_None_eq)

lemma after_not_returned [simp]:
  "\<not> is_ProviderReturned (fst (after_initial x))" "\<not> is_ProviderReturned (fst (after_renewal x))"
  by (auto simp: after_initial_def after_renewal_def split: prod.splits go.splits sum.splits)

lemma provider_step_returned:
  "(is_ProviderReturned (fst s) \<longrightarrow> prv_tlsConfig (fst (snd s)) = None) \<Longrightarrow>
   is_ProviderReturned (fst (provider_step env sign s i)) \<longrightarrow>
   prv_tlsConfig (fst (snd (provider_step env sign s i))) = None"
  by (induction env sign s i rule: provider_step.induct)
     (auto simp: root_file_update_def SubscribeRootCAsEvent_def Let_def)

lemma time_Until_exact: "- (2 ^ 63) \<le> t - now \<Longrightarrow> t - now < 2 ^ 63 \<Longrightarrow> time_Until now t = word_of_int (t - now)"
  by (simp add: time_Until_def)

lemma sint_three: "sint (3 :: duration) = 3"
  by simp

lemma sdiv_three_nonpos: "a \<le> 0 \<Longrightarrow> a sdiv (3::int) \<le> 0"
  by (simp add: signed_divide_int_def mult_nonpos_nonneg sgn_if)

lemma sdiv_three_bounds: "- (2 ^ 63) \<le> a \<Longrightarrow> a < 2 ^ 63 \<Longrightarrow> - (2 ^ 63) \<le> a sdiv (3::int) \<and> a sdiv (3::int) < 2 ^ 63"
  by (auto simp: signed_divide_int_def sgn_if)

lemma sint_quot_three: "sint (go_quot a 3) = sint a sdiv 3"
  unfolding go_quot_def sint_three
  by (rule sint64_of_int) (use sdiv_three_bounds [OF sint64_bounds [of a]] in auto)

lemma renewal_two_thirds:
  assumes "0 \<le> notAfter - now" "notAfter - now < 2 ^ 62"
  shows "sint (renewalTime now notAfter) = 2 * (notAfter - now) div 3"
proof -
  have "2 * time_Until now notAfter = word_of_int (2 * (notAfter - now))"
    using assms by (simp add: time_Until_exact)
  then have "sint (2 * time_Until now notAfter) = 2 * (notAfter - now)"
    using assms sint64_of_int [of "2 * (notAfter - now)"] by simp
  then show ?thesis
    using assms by (simp add: renewalTime_def sint_quot_three signed_divide_int_def sgn_if)
qed

lemma renewal_overflow:
  assumes "2 ^ 62 \<le> notAfter - now"
  shows "sint (renewalTime now notAfter) \<le> 0"
proof -
  let ?d = "min (2 ^ 63 - 1) (notAfter - now)"
  have "2 * time_Until now notAfter = word_of_int (2 * ?d - 2 ^ 64)"
    using assms by (simp add: time_Until_def max_def flip: word_of_int_2p)
  moreover have "- (2 ^ 63) \<le> 2 * ?d - 2 ^ 64" "2 * ?d - 2 ^ 64 < 0"
    using assms by auto
  ultimately have "sint (2 * time_Until now notAfter) < 0"
    using sint64_of_int [of "2 * ?d - 2 ^ 64"] by simp
  then show ?thesis by (simp add: renewalTime_def sint_quot_three sdiv_three_nonpos)
qed

section \<open>Properties\<close>

text \<open>
  C36: The renewal timer is set to two thirds of the time left for a certificate that has not expired
  and has less than \<open>2 ^ 62\<close> nanoseconds (146 years) left. With more time left the product
  overflows: the timer is set to zero or less and fires at once, so such a certificate is renewed
  without a pause.
\<close>

theorem renewal_time:
  assumes "now \<le> notAfter"
  shows "if notAfter - now < 2 ^ 62
    then sint (renewalTime now notAfter) = 2 * (notAfter - now) div 3
    else sint (renewalTime now notAfter) \<le> 0"
  using assms renewal_two_thirds [of notAfter now] renewal_overflow [of notAfter now] by simp

theorem renewal_time_witness:
  "sint (renewalTime 1000 3600000001000) = 2400000000000 \<and>
   sint (renewalTime 0 (150 * 365 * 86400 * 1000000000)) \<le> 0"
  using renewal_time [of 1000 3600000001000] renewal_time [of 0 "150 * 365 * 86400 * 1000000000"] by simp

text \<open>A concrete provider for the witnesses.\<close>

definition demo_tls_opts :: TlsOptions where
  "demo_tls_opts = \<lparr>to_TrustDomain = ''td'', to_RootCAsCertFile = [],
     to_ServingCertificateDuration = 3600, to_ServingCertificateDNSNames = [''a.svc'', ''b.svc''],
     to_ServingCertificateKeySize = 2048, to_ServingSignatureAlgorithm = ''RSA'',
     to_ServingTLSMinVersion = [], to_ServingTLSCipherSuites = [], to_ServingTLSCurvePreferences = []\<rparr>"

definition demo_tls_env :: "(string, string, string, string) tls_env" where
  "demo_tls_env = \<lparr>te_GenCSR = (\<lambda>_. Inr (''csr'', ''key'')),
     te_DecodeX509CertificateSetBytes = (\<lambda>s. Inr [s]), te_AddMappingFromPEM = (\<lambda>td pem. Inr pem),
     te_X509KeyPair = (\<lambda>c k. Inr c), te_NotAfter = (\<lambda>_. Inr 100)\<rparr>"

definition demo_provider :: "(string, string, string) Provider" where
  "demo_provider = \<lparr>prv_opts = demo_tls_opts, prv_rootCAs = \<lparr>rc_PEM = [], rc_CertPool = None\<rparr>,
     prv_servingMinVersion = 0x0303, prv_servingCipherSuites = [], prv_servingCurvePreferences = [],
     prv_tlsConfig = None, prv_subscriptions = [], prv_sends = [], prv_metric = []\<rparr>"

lemma demo_provider_new:
  "NewProvider (\<lambda>_. Inr 0x0303) (\<lambda>_. Inr []) (\<lambda>_. False) demo_tls_opts = Inr demo_provider"
  by (simp add: NewProvider_def demo_tls_opts_def demo_provider_def ParseCurvePreferences_def
      VersionTLS12_def)

lemma demo_sign:
  "\<exists>cl'. Sign demo_env demo_manager demo_cluster ids csr dur us =
     (Return (Inr \<lparr>b_Certificate = ''cert'', b_CA = ''ca''\<rparr>), cl')"
  by (simp add: demo_defs Sign_def waitForCertificateRequest_def new_request_def
      wait_check.simps do_call_def failed_condition_def)

definition demo_served :: "(string, string) tls_Config" where
  "demo_served = empty_Config\<lparr>tc_Certificates := [''cert''], tc_NextProtos := [''h2''],
     tc_ClientAuth := VerifyClientCertIfGiven, tc_ClientCAs := Some ''ca'',
     tc_SessionTicketsDisabled := True, tc_VerifyPeerCertificate := Some ''ca'',
     tc_MinVersion := 0x0303\<rparr>"

lemma demo_fetch:
  "\<exists>cl'. fetchCertificate demo_tls_env (Sign demo_env demo_manager) demo_provider demo_cluster =
     (Return (Inr 100), demo_provider\<lparr>prv_rootCAs := \<lparr>rc_PEM = ''ca'', rc_CertPool = Some [''ca'']\<rparr>,
        prv_tlsConfig := Some demo_served, prv_metric := [''1'']\<rparr>, cl')"
proof -
  obtain cl' where "Sign demo_env demo_manager demo_cluster ''istio-csr-serving'' ''csr'' 3600 [UsageServerAuth] =
     (Return (Inr \<lparr>b_Certificate = ''cert'', b_CA = ''ca''\<rparr>), cl')"
    using demo_sign by blast
  then show ?thesis
    by (simp add: fetchCertificate_def demo_provider_def demo_tls_opts_def cert_options_def Let_def
        demo_tls_env_def loadCAsRoot_def broadcast_def install_config_def populated_def
        applyTLSSecuritySettings_def VersionTLS12_def count_request_def demo_served_def)
qed

lemma demo_start:
  "\<exists>cl'. Provider_Start demo_tls_env (Sign demo_env demo_manager) None demo_provider demo_cluster
     [BackoffContinue, IssuerWaitOver] =
   (AwaitRenewal 100, demo_provider\<lparr>prv_rootCAs := \<lparr>rc_PEM = ''ca'', rc_CertPool = Some [''ca'']\<rparr>,
      prv_tlsConfig := Some demo_served, prv_metric := [''1'']\<rparr>, cl')"
  using demo_fetch by (auto simp: Provider_Start_def after_initial_def)

text \<open>
  C10: Whatever happens to a provider that \<open>NewProvider\<close> built (renewals, failures, changes of the
  root file, subscriptions, shut-down), the configuration it gives to a connection accepts TLS 1.2
  or later only, verifies a client certificate that is given with a verifier built for the trust
  domain from a non-empty bundle of roots, and has session tickets disabled.
\<close>

theorem provider_serves_secure:
  assumes "NewProvider TLSVersion TLSCipherSuites Nd opts = Inr p"
    and "Provider_Start env sign watchErr p st inputs = (ph, p', st')"
    and "getConfigForClient p' = Some c"
  shows "secure_config env (to_TrustDomain opts) c"
  using Provider_Start_inv [OF NewProvider_inv [OF assms(1), of env], of sign watchErr st inputs] assms(2,3)
  by (simp add: provider_inv_def getConfigForClient_def)

theorem provider_serves_secure_witness: "secure_config demo_tls_env ''td'' demo_served"
proof -
  obtain cl' where s: "Provider_Start demo_tls_env (Sign demo_env demo_manager) None demo_provider demo_cluster
     [BackoffContinue, IssuerWaitOver] =
   (AwaitRenewal 100, demo_provider\<lparr>prv_rootCAs := \<lparr>rc_PEM = ''ca'', rc_CertPool = Some [''ca'']\<rparr>,
      prv_tlsConfig := Some demo_served, prv_metric := [''1'']\<rparr>, cl')"
    using demo_start by blast
  from provider_serves_secure [OF demo_provider_new s] show ?thesis
    by (simp add: getConfigForClient_def demo_tls_opts_def)
qed

text \<open>
  The provider's readiness: once it is ready it stays so through every renewal, failed or not,
  until its context is done; and when \<open>Start\<close> has returned it is not ready.
\<close>

lemma provider_ready_lifecycle:
  assumes "NewProvider TLSVersion TLSCipherSuites Nd opts = Inr p"
  shows "(is_ProviderReturned (fst (Provider_Start env sign watchErr p st inputs)) \<longrightarrow>
      Provider_Check (fst (snd (Provider_Start env sign watchErr p st inputs))) \<noteq> None) \<and>
    (Provider_Check (fst (snd (Provider_Start env sign watchErr p st inputs))) = None \<longrightarrow>
     ContextDone \<notin> set later \<longrightarrow>
      Provider_Check (fst (snd (Provider_Start env sign watchErr p st (inputs @ later)))) = None)"
proof -
  have p: "prv_tlsConfig p = None" using assms by (auto simp: NewProvider_def split: sum.splits if_splits)
  have ret: "is_ProviderReturned (fst s) \<longrightarrow> prv_tlsConfig (fst (snd s)) = None" if
    "s = foldl (provider_step env sign) (AtBackoff, p, st) is" for s "is"
    using that by (induction "is" arbitrary: s rule: rev_induct) (auto simp: p provider_step_returned)
  have keep: "prv_tlsConfig (fst (snd (foldl (provider_step env sign) s later))) \<noteq> None"
    if "prv_tlsConfig (fst (snd s)) \<noteq> None" "ContextDone \<notin> set later" for s later
    using that
  proof (induction later arbitrary: s)
    case (Cons i later)
    then have "prv_tlsConfig (fst (snd (provider_step env sign s i))) \<noteq> None"
      by (intro provider_step_ready) auto
    with Cons show ?case by simp
  qed simp
  show ?thesis
    using ret [OF refl, of inputs] keep [of "foldl (provider_step env sign) (AtBackoff, p, st) inputs" later] p
    by (auto simp: Provider_Start_def Provider_Check_def split: option.splits) blast+
qed

text \<open>
  C26: When a serving certificate is fetched, one \<open>CertificateRequest\<close> was created, for server
  authentication and the configured duration and not for a CA; the provider then has root
  certificates (those the issuer returned, unless they come from a file), its configuration
  verifies clients against exactly these roots, and the metric counts a success.
\<close>

theorem fetch_serving_certificate:
  assumes "fetchCertificate env (Sign cmenv m) p cl = (Return (Inr t), p', cl')"
  shows "\<exists>cr (b :: Bundle) c v. created_requests cl' = created_requests cl @ [cr] \<and> cr_Usages cr = [UsageServerAuth] \<and>
      cr_Duration cr = to_ServingCertificateDuration (prv_opts p) \<and> \<not> cr_IsCA cr \<and>
      b_Certificate b \<noteq> [] \<and> te_NotAfter env (b_Certificate b) = Inr t \<and>
      populated (prv_rootCAs p') \<and>
      (to_RootCAsCertFile (prv_opts p) = [] \<longrightarrow> rc_PEM (prv_rootCAs p') = b_CA b) \<and>
      te_AddMappingFromPEM env (to_TrustDomain (prv_opts p)) (rc_PEM (prv_rootCAs p')) = Inr v \<and>
      prv_tlsConfig p' = Some c \<and> tc_VerifyPeerCertificate c = Some v \<and> tc_ClientCAs c = Some v \<and>
      prv_metric p' = prv_metric p @ [''1'']"
proof -
  obtain copts csr pk b p1 p2 where
    s: "Sign cmenv m cl ''istio-csr-serving'' csr (to_ServingCertificateDuration (prv_opts p)) [UsageServerAuth] =
       (Return (Inr b), cl')"
    and l: "(if to_RootCAsCertFile (prv_opts p) = [] then loadCAsRoot env p (b_CA b) else (None, p)) = (None, p1)"
    and i: "install_config env p1 b pk = (Inr t, p2)" and p': "p' = count_request ''1'' p2"
    by (rule fetch_success [OF assms])
  from l have p1: "prv_opts p1 = prv_opts p" "prv_metric p1 = prv_metric p"
    "to_RootCAsCertFile (prv_opts p) = [] \<longrightarrow> rc_PEM (prv_rootCAs p1) = b_CA b"
    by (auto split: if_splits dest: loadCAsRoot_frame loadCAsRoot_None)
  obtain cr where "created_requests cl' = created_requests cl @ [cr]" "cr_Usages cr = [UsageServerAuth]"
    "cr_Duration cr = to_ServingCertificateDuration (prv_opts p)" "\<not> cr_IsCA cr"
    by (rule mgr.bundle_from_request [OF s])
  moreover have "b_Certificate b \<noteq> []" using mgr.sign_bundle [OF s] by simp
  moreover from i obtain v c where "populated (prv_rootCAs p2)" "te_NotAfter env (b_Certificate b) = Inr t"
    "te_AddMappingFromPEM env (to_TrustDomain (prv_opts p)) (rc_PEM (prv_rootCAs p2)) = Inr v"
    "prv_tlsConfig p2 = Some c" "tc_VerifyPeerCertificate c = Some v" "tc_ClientCAs c = Some v"
    "prv_rootCAs p2 = prv_rootCAs p1" "prv_metric p2 = prv_metric p1"
    by (elim install_config_Inr) (auto simp: p1)
  ultimately show ?thesis
    using p1 unfolding p' count_request_def by (intro exI [of _ cr] exI [of _ b] exI [of _ c] exI [of _ v]) auto
qed

theorem fetch_serving_certificate_witness:
  "\<exists>cr cl'. created_requests cl' = created_requests demo_cluster @ [cr] \<and> cr_Usages cr = [UsageServerAuth]
     \<and> snd (snd (fetchCertificate demo_tls_env (Sign demo_env demo_manager) demo_provider demo_cluster)) = cl'"
proof -
  obtain p' cl' where f: "fetchCertificate demo_tls_env (Sign demo_env demo_manager) demo_provider demo_cluster =
     (Return (Inr 100), p', cl')"
    using demo_fetch by blast
  from fetch_serving_certificate [OF f] f show ?thesis by auto
qed

text \<open>
  A failed attempt leaves the configuration that is being served alone and counts one request
  without success.
\<close>

lemma fetch_failure_harmless:
  assumes "fetchCertificate env sign p st = (Return (Inl err), p', st')"
  shows "getConfigForClient p' = getConfigForClient p \<and> prv_metric p' = prv_metric p @ [''0'']"
  using fetch_error [OF assms] by (simp add: getConfigForClient_def)

text \<open>
  The goroutines that tell subscribers about new roots index the list of subscriptions when
  they run. Since the list only grows, every index captured in a run of the provider is valid and
  still means the subscription it was captured for.
\<close>

lemma root_events_delivered:
  assumes "NewProvider TLSVersion TLSCipherSuites Nd opts = Inr p"
    and "Provider_Start env sign watchErr p st inputs = (ph, p', st')"
  shows "\<forall>i \<in> set (prv_sends p'). i < length (prv_subscriptions p') \<and> prv_subscriptions p' ! i = i"
  using Provider_Start_inv [OF NewProvider_inv [OF assms(1), of env], of sign watchErr st inputs] assms(2)
  by (simp add: provider_inv_def)

text \<open>
  A change of the root file reaches \<open>RootCAs\<close> and the subscribers at once, but not the
  configuration that is served: clients are verified against the roots of the last fetch until the
  next one.
\<close>

lemma root_file_keeps_verifier:
  assumes "to_RootCAsCertFile (prv_opts p) \<noteq> []" "\<not> is_ProviderReturned ph"
  shows "\<exists>p'. provider_step env sign (ph, p, st) (RootFile r) = (ph, p', st) \<and>
    prv_rootCAs p' = r \<and> prv_sends p' = prv_sends p @ [0..<length (prv_subscriptions p)] \<and>
    getConfigForClient p' = getConfigForClient p"
  using assms by (simp add: root_file_update_def broadcast_def getConfigForClient_def)

end
