(* ===== verification/Kube_Store.thy ===== *)
theory Kube_Store
  imports Istio_Prelude
begin

text \<open>
  What the two controllers use of a Kubernetes API client: reading one object, creating and
  updating it. The client is not part of the repository; it is the record \<open>kube_client\<close> of functions
  on an API state \<open>'w\<close>, an argument of the controllers, and \<open>store_law\<close> is the behaviour they rely
  on: what was written without an error is read back, and other objects are left alone. The
  writes the program makes are recorded beside the API state.
\<close>

datatype api_error = NotFound | APIError error

record ('w, 'o) kube_client =
  kc_Get :: "'w \<Rightarrow> string \<Rightarrow> string \<Rightarrow> api_error + 'o"
  kc_Create :: "'w \<Rightarrow> 'o \<Rightarrow> api_error option \<times> 'w"
  kc_Update :: "'w \<Rightarrow> 'o \<Rightarrow> api_error option \<times> 'w"

datatype 'o kube_write = Created 'o | Updated 'o

record ('w, 'o) kube =
  k_api :: 'w
  k_writes :: "'o kube_write list"

definition kube_Get :: "('w, 'o) kube_client \<Rightarrow> ('w, 'o) kube \<Rightarrow> string \<Rightarrow> string \<Rightarrow> api_error + 'o" where
  "kube_Get client k ns name = kc_Get client (k_api k) ns name"

definition kube_Create :: "('w, 'o) kube_client \<Rightarrow> ('w, 'o) kube \<Rightarrow> 'o \<Rightarrow> api_error option \<times> ('w, 'o) kube" where
  "kube_Create client k obj =
     (case kc_Create client (k_api k) obj of
        (err, w) \<Rightarrow> (err, k\<lparr>k_api := w, k_writes := k_writes k @ [Created obj]\<rparr>))"

definition kube_Update :: "('w, 'o) kube_client \<Rightarrow> ('w, 'o) kube \<Rightarrow> 'o \<Rightarrow> api_error option \<times> ('w, 'o) kube" where
  "kube_Update client k obj =
     (case kc_Update client (k_api k) obj of
        (err, w) \<Rightarrow> (err, k\<lparr>k_api := w, k_writes := k_writes k @ [Updated obj]\<rparr>))"

text \<open>\<open>key\<close> reads the namespace and name off an object.\<close>

definition stores :: "('o \<Rightarrow> string \<times> string) \<Rightarrow> ('w, 'o) kube_client \<Rightarrow> 'w \<Rightarrow> 'o \<Rightarrow> 'w \<Rightarrow> bool" where
  "stores key client w obj w' \<longleftrightarrow>
     (\<forall>ns name. kc_Get client w' ns name = (if (ns, name) = key obj then Inr obj else kc_Get client w ns name))"

definition store_law :: "('o \<Rightarrow> string \<times> string) \<Rightarrow> ('w, 'o) kube_client \<Rightarrow> bool" where
  "store_law key client \<longleftrightarrow>
     (\<forall>w obj w'. kc_Create client w obj = (None, w') \<longrightarrow> stores key client w obj w') \<and>
     (\<forall>w obj w'. kc_Update client w obj = (None, w') \<longrightarrow> stores key client w obj w') \<and>
     (\<forall>w ns name obj. kc_Get client w ns name = Inr obj \<longrightarrow> key obj = (ns, name))"

lemma store_law_get:
  "store_law key client \<Longrightarrow> kube_Get client k ns name = Inr obj \<Longrightarrow> key obj = (ns, name)"
  by (simp add: store_law_def kube_Get_def)

lemma store_law_create:
  assumes "store_law key client" "kube_Create client k obj = (None, k')"
  shows "kube_Get client k' ns name = (if (ns, name) = key obj then Inr obj else kube_Get client k ns name)"
proof -
  from assms(2) obtain w' where "kc_Create client (k_api k) obj = (None, w')" "k_api k' = w'"
    by (auto simp: kube_Create_def split: prod.splits)
  with assms(1) show ?thesis by (simp add: store_law_def stores_def kube_Get_def)
qed

lemma store_law_update:
  assumes "store_law key client" "kube_Update client k obj = (None, k')"
  shows "kube_Get client k' ns name = (if (ns, name) = key obj then Inr obj else kube_Get client k ns name)"
proof -
  from assms(2) obtain w' where "kc_Update client (k_api k) obj = (None, w')" "k_api k' = w'"
    by (auto simp: kube_Update_def split: prod.splits)
  with assms(1) show ?thesis by (simp add: store_law_def stores_def kube_Get_def)
qed

lemma kube_writes:
  "kube_Create client k obj = (e, k') \<Longrightarrow> k_writes k' = k_writes k @ [Created obj]"
  "kube_Update client k obj = (e, k') \<Longrightarrow> k_writes k' = k_writes k @ [Updated obj]"
  by (auto simp: kube_Create_def kube_Update_def split: prod.splits)

text \<open>A write, whether it succeeds or fails, leaves every other object alone.\<close>

definition isolated_writes :: "('o \<Rightarrow> string \<times> string) \<Rightarrow> ('w, 'o) kube_client \<Rightarrow> bool" where
  "isolated_writes key client \<longleftrightarrow>
     (\<forall>w obj ns name. (ns, name) \<noteq> key obj \<longrightarrow>
        kc_Get client (snd (kc_Create client w obj)) ns name = kc_Get client w ns name \<and>
        kc_Get client (snd (kc_Update client w obj)) ns name = kc_Get client w ns name)"

lemma isolated_create:
  "isolated_writes key client \<Longrightarrow> kube_Create client k obj = (e, k') \<Longrightarrow> (ns, name) \<noteq> key obj \<Longrightarrow>
   kube_Get client k' ns name = kube_Get client k ns name"
  unfolding isolated_writes_def kube_Create_def kube_Get_def by (auto split: prod.splits) (metis snd_conv)+

lemma isolated_update:
  "isolated_writes key client \<Longrightarrow> kube_Update client k obj = (e, k') \<Longrightarrow> (ns, name) \<noteq> key obj \<Longrightarrow>
   kube_Get client k' ns name = kube_Get client k ns name"
  unfolding isolated_writes_def kube_Update_def kube_Get_def by (auto split: prod.splits) (metis snd_conv)+

text \<open>
  The API serves the program: as long as its state satisfies \<open>up\<close>, which the program's writes do not
  end, reading finds the object or that there is none, and in a namespace that \<open>accepts\<close> objects, one
  that does not exist can be created and one that exists can be updated. Creating one that exists
  and updating one that does not may fail, as documented.
\<close>

definition serves ::
  "('o \<Rightarrow> string \<times> string) \<Rightarrow> ('w, 'o) kube_client \<Rightarrow> (string \<Rightarrow> bool) \<Rightarrow> ('w \<Rightarrow> bool) \<Rightarrow> bool" where
  "serves key client accepts up \<longleftrightarrow>
     (\<forall>w. up w \<longrightarrow>
        (\<forall>ns name err. kc_Get client w ns name \<noteq> Inl (APIError err)) \<and>
        (\<forall>obj. up (snd (kc_Create client w obj)) \<and> up (snd (kc_Update client w obj))) \<and>
        (\<forall>obj ns name. key obj = (ns, name) \<and> accepts ns \<longrightarrow>
           (kc_Get client w ns name = Inl NotFound \<longrightarrow> fst (kc_Create client w obj) = None) \<and>
           (\<forall>stored. kc_Get client w ns name = Inr stored \<longrightarrow> fst (kc_Update client w obj) = None)))"

lemma serves_get:
  "serves key client accepts up \<Longrightarrow> up (k_api k) \<Longrightarrow> kube_Get client k ns name \<noteq> Inl (APIError err)"
  by (simp add: serves_def kube_Get_def)

lemma serves_create:
  assumes "serves key client accepts up" "up (k_api k)" "kube_Create client k obj = (e, k')"
  shows "up (k_api k')"
    and "key obj = (ns, name) \<Longrightarrow> accepts ns \<Longrightarrow> kube_Get client k ns name = Inl NotFound \<Longrightarrow> e = None"
proof -
  have e: "fst (kc_Create client (k_api k) obj) = e" "snd (kc_Create client (k_api k) obj) = k_api k'"
    using assms(3) by (auto simp: kube_Create_def split: prod.splits)
  with assms(1,2) show "up (k_api k')" unfolding serves_def by metis
  show "e = None" if "key obj = (ns, name)" "accepts ns" "kube_Get client k ns name = Inl NotFound"
    using assms(1,2) that e(1) unfolding serves_def kube_Get_def by metis
qed

lemma serves_update:
  assumes "serves key client accepts up" "up (k_api k)" "kube_Update client k obj = (e, k')"
  shows "up (k_api k')"
    and "key obj = (ns, name) \<Longrightarrow> accepts ns \<Longrightarrow> kube_Get client k ns name = Inr stored \<Longrightarrow> e = None"
proof -
  have e: "fst (kc_Update client (k_api k) obj) = e" "snd (kc_Update client (k_api k) obj) = k_api k'"
    using assms(3) by (auto simp: kube_Update_def split: prod.splits)
  with assms(1,2) show "up (k_api k')" unfolding serves_def by metis
  show "e = None" if "key obj = (ns, name)" "accepts ns" "kube_Get client k ns name = Inr stored"
    using assms(1,2) that e(1) unfolding serves_def kube_Get_def by metis
qed

text \<open>
  A concrete client over a list of objects, which the witnesses use: an object that exists cannot be
  created, and one that does not cannot be updated.
\<close>

definition list_client :: "('o \<Rightarrow> string \<times> string) \<Rightarrow> ('o list, 'o) kube_client" where
  "list_client key = \<lparr>
     kc_Get = (\<lambda>w ns name. case find (\<lambda>obj. key obj = (ns, name)) w of None \<Rightarrow> Inl NotFound | Some obj \<Rightarrow> Inr obj),
     kc_Create = (\<lambda>w obj. if find (\<lambda>x. key x = key obj) w = None then (None, obj # w)
        else (Some (APIError (Errorf ''already exists'')), w)),
     kc_Update = (\<lambda>w obj. if find (\<lambda>x. key x = key obj) w = None then (Some NotFound, w) else (None, obj # w))\<rparr>"

lemma store_law_list_client: "store_law key (list_client key)"
  by (auto simp: store_law_def stores_def list_client_def find_Some_iff split: option.splits if_splits)

text \<open>An update with the object that is stored already changes nothing.\<close>

definition noop_updates :: "('o \<Rightarrow> string \<times> string) \<Rightarrow> ('w, 'o) kube_client \<Rightarrow> bool" where
  "noop_updates key client \<longleftrightarrow>
     (\<forall>w obj. (\<exists>ns name. key obj = (ns, name) \<and> kc_Get client w ns name = Inr obj) \<longrightarrow>
        snd (kc_Update client w obj) = w)"

text \<open>A second concrete client, over a map from keys to objects.\<close>

definition map_client :: "('o \<Rightarrow> string \<times> string) \<Rightarrow> (string \<times> string \<Rightarrow> 'o option, 'o) kube_client" where
  "map_client key = \<lparr>
     kc_Get = (\<lambda>w ns name. case w (ns, name) of None \<Rightarrow> Inl NotFound
        | Some obj \<Rightarrow> if key obj = (ns, name) then Inr obj else Inl NotFound),
     kc_Create = (\<lambda>w obj. if w (key obj) = None then (None, w(key obj := Some obj))
        else (Some (APIError (Errorf ''already exists'')), w)),
     kc_Update = (\<lambda>w obj. if w (key obj) = None then (Some NotFound, w) else (None, w(key obj := Some obj)))\<rparr>"

text \<open>The states of this client in which every object is stored under its key.\<close>

definition keyed :: "('o \<Rightarrow> string \<times> string) \<Rightarrow> (string \<times> string \<Rightarrow> 'o option) \<Rightarrow> bool" where
  "keyed key w \<longleftrightarrow> (\<forall>k obj. w k = Some obj \<longrightarrow> key obj = k)"

lemma map_client_laws:
  "store_law key (map_client key)" "isolated_writes key (map_client key)"
  "serves key (map_client key) accepts (keyed key)"
  by (auto simp: store_law_def stores_def isolated_writes_def serves_def keyed_def map_client_def
      split: option.splits if_splits)

lemma map_client_noop: "noop_updates key (map_client key)"
  unfolding noop_updates_def
proof (intro allI impI)
  fix w obj
  assume "\<exists>ns name. key obj = (ns, name) \<and> kc_Get (map_client key) w ns name = Inr obj"
  then obtain ns name where k: "key obj = (ns, name)" and g: "kc_Get (map_client key) w ns name = Inr obj" by blast
  from g have "w (ns, name) = Some obj"
    by (cases "w (ns, name)") (simp_all add: map_client_def split: if_splits)
  then show "snd (kc_Update (map_client key) w obj) = w" by (simp add: map_client_def k fun_upd_idem)
qed

lemma isolated_list_client: "isolated_writes key (list_client key)"
  by (auto simp: isolated_writes_def list_client_def)

lemma serves_list_client: "serves key (list_client key) accepts (\<lambda>w. True)"
  by (auto simp: serves_def list_client_def split: option.splits)

end
