(* ===== verification/Issuer_Notify.thy ===== *)
theory Issuer_Notify
  imports Cert_Manager
begin

text \<open>
  The concurrent side of \<open>pkg/certmanager/certmanager.go\<close>: the goroutines that deliver issuer
  changes to the subscribers, and \<open>WaitForIssuerConfig\<close>, which waits for one. The two run, with the
  watcher and other subscribers, as the step relation \<open>notify_step\<close> over the manager of
  \<open>Cert_Manager\<close>.
\<close>

section \<open>Model\<close>

text \<open>
  The program points of \<open>WaitForIssuerConfig\<close>: the fast path, the subscription, the \<open>select\<close> (with
  the subscription it holds) and the end.
\<close>

datatype wait_pc = AtFastPath | AtSubscribe | AtSelect nat | WaitReturned

text \<open>
  \<open>ns_senders\<close> are the goroutines that have evaluated \<open>m.issuerChangeSubscriptions[i]\<close> and are
  blocked on that subscription's unbuffered channel; those that have not are the manager's
  \<open>mgr_sends\<close>. \<open>ns_crashed\<close> holds once an index was out of range, which ends the process.
\<close>

record notify_state =
  ns_m :: manager
  ns_senders :: "(nat \<times> IssuerReference option) list"
  ns_crashed :: bool
  ns_wait :: wait_pc

definition notify_init :: "manager \<Rightarrow> notify_state" where
  "notify_init m = \<lparr>ns_m = m, ns_senders = [], ns_crashed = False, ns_wait = AtFastPath\<rparr>"

text \<open>The goroutines an event starts, and those of a list that a mask selects.\<close>

definition started :: "manager \<Rightarrow> Event \<Rightarrow> (nat \<times> IssuerReference option) list" where
  "started m ev = drop (length (mgr_sends m)) (mgr_sends (handle_event m ev))"

definition selected :: "bool list \<Rightarrow> 'a list \<Rightarrow> 'a list" where
  "selected early xs = map snd (filter fst (zip early xs))"

text \<open>
  In an \<open>event\<close> step the goroutines of the mask \<open>early\<close> run before \<open>notifyIssuerChange\<close> has assigned the
  filtered list, so against the old list; the others run later, against the list they find then.
\<close>

definition event_effect :: "bool list \<Rightarrow> Event \<Rightarrow> notify_state \<Rightarrow> notify_state" where
  "event_effect early ev s =
     s\<lparr>ns_m := (handle_event (ns_m s) ev)\<lparr>mgr_sends :=
         mgr_sends (ns_m s) @ selected (map Not early) (started (ns_m s) ev)\<rparr>,
       ns_senders := ns_senders s @
         map (\<lambda>(i, v). (mgr_issuerChangeSubscriptions (ns_m s) ! i, v)) (selected early (started (ns_m s) ev))\<rparr>"

inductive notify_step :: "notify_state \<Rightarrow> notify_state \<Rightarrow> bool" where
  subscribe: "notify_step s (s\<lparr>ns_m := snd (SubscribeIssuerChange (ns_m s))\<rparr>)"
| close: "notify_step s (s\<lparr>ns_m := Close sub (ns_m s)\<rparr>)"
| event: "length early = length (started (ns_m s) ev) \<Longrightarrow> notify_step s (event_effect early ev s)"
| send: "mgr_sends (ns_m s) = xs @ (i, v) # ys \<Longrightarrow> i < length (mgr_issuerChangeSubscriptions (ns_m s)) \<Longrightarrow>
    notify_step s (s\<lparr>ns_m := (ns_m s)\<lparr>mgr_sends := xs @ ys\<rparr>,
      ns_senders := ns_senders s @ [(mgr_issuerChangeSubscriptions (ns_m s) ! i, v)]\<rparr>)"
| send_panic: "(i, v) \<in> set (mgr_sends (ns_m s)) \<Longrightarrow> length (mgr_issuerChangeSubscriptions (ns_m s)) \<le> i \<Longrightarrow>
    notify_step s (s\<lparr>ns_crashed := True\<rparr>)"
| receive_other: "ns_senders s = xs @ (sub, v) # ys \<Longrightarrow> ns_wait s \<noteq> AtSelect sub \<Longrightarrow>
    notify_step s (s\<lparr>ns_senders := xs @ ys\<rparr>)"
| wait_fast: "ns_wait s = AtFastPath \<Longrightarrow>
    notify_step s (s\<lparr>ns_wait := if HasIssuerConfig (ns_m s) then WaitReturned else AtSubscribe\<rparr>)"
| wait_subscribe: "ns_wait s = AtSubscribe \<Longrightarrow> SubscribeIssuerChange (ns_m s) = (sub, m') \<Longrightarrow>
    notify_step s (s\<lparr>ns_m := m', ns_wait := AtSelect sub\<rparr>)"
| wait_receive: "ns_wait s = AtSelect sub \<Longrightarrow> ns_senders s = xs @ (sub, v) # ys \<Longrightarrow>
    notify_step s (if v \<noteq> None
      then s\<lparr>ns_m := Close sub (ns_m s), ns_senders := xs @ ys, ns_wait := WaitReturned\<rparr>
      else s\<lparr>ns_senders := xs @ ys\<rparr>)"
| wait_cancelled: "ns_wait s = AtSelect sub \<Longrightarrow>
    notify_step s (s\<lparr>ns_m := Close sub (ns_m s), ns_wait := WaitReturned\<rparr>)"

inductive_cases notify_stepE: "notify_step s s'"

section \<open>The invariant while nothing is closed\<close>

definition notify_inv :: "notify_state \<Rightarrow> bool" where
  "notify_inv s \<longleftrightarrow>
     (mgr_closedSubs (ns_m s) = [] \<longrightarrow>
        \<not> ns_crashed s \<and>
        length (mgr_issuerChangeSubscriptions (ns_m s)) = mgr_nextSub (ns_m s) \<and>
        (\<forall>i < mgr_nextSub (ns_m s). mgr_issuerChangeSubscriptions (ns_m s) ! i = i) \<and>
        (\<forall>(i, v) \<in> set (mgr_sends (ns_m s)). i < mgr_nextSub (ns_m s)) \<and>
        (\<forall>sub. ns_wait s = AtSelect sub \<longrightarrow> sub < mgr_nextSub (ns_m s)))"

lemma handle_event_shape:
  obtains x where "handle_event m ev = m\<lparr>mgr_activeIssuerRef := x\<rparr>"
  | x r where "handle_event m ev = notifyIssuerChange r (m\<lparr>mgr_activeIssuerRef := x\<rparr>)"
proof -
  consider "handle_event m ev = m"
    | "handle_event m ev = handleRuntimeConfigIssuerDeletion m"
    | "handle_event m ev = snd (handleRuntimeConfigIssuerChange m ev)"
    by (cases "ev_Type ev") (simp_all add: handle_event_def)
  then show thesis
  proof cases
    case 1
    with that(1) [of "mgr_activeIssuerRef m"] show thesis by simp
  next
    case 2
    with that show thesis
      by (cases "mgr_originalIssuerRef m") (simp_all add: handleRuntimeConfigIssuerDeletion_def)
  next
    case 3
    have "snd (handleRuntimeConfigIssuerChange m ev) = m \<or>
        (\<exists>x r. snd (handleRuntimeConfigIssuerChange m ev) =
           notifyIssuerChange r (m\<lparr>mgr_activeIssuerRef := x\<rparr>))"
      unfolding handleRuntimeConfigIssuerChange_def Let_def by (cases "ev_Object ev") (simp_all, blast)
    with 3 that(1) [of "mgr_activeIssuerRef m"] that(2) show thesis by auto
  qed
qed

lemma filter_open_all:
  "mgr_closedSubs m = [] \<Longrightarrow> filter (\<lambda>(i, sub). \<not> Closed sub m) xs = xs"
  by (simp add: Closed_def case_prod_beta)

lemma map_fst_const: "map (\<lambda>(i, sub). (i, r)) xs = map (\<lambda>i. (i, r)) (map fst xs)"
  by (induction xs) auto

lemma notify_none_closed:
  "mgr_closedSubs m = [] \<Longrightarrow>
   notifyIssuerChange r m = m\<lparr>mgr_sends := mgr_sends m @
     map (\<lambda>i. (i, r)) [0..<length (mgr_issuerChangeSubscriptions m)]\<rparr>"
  unfolding notifyIssuerChange_def Let_def
  by (simp add: filter_open_all map_fst_const map_fst_enumerate del: map_map)

lemma set_selected: "set (selected b xs) \<subseteq> set xs"
  by (auto simp: selected_def dest: set_zip_rightD)

lemma handle_event_none_closed:
  assumes "mgr_closedSubs m = []"
  shows "mgr_issuerChangeSubscriptions (handle_event m ev) = mgr_issuerChangeSubscriptions m"
    and "\<forall>(i, v) \<in> set (started m ev). i < length (mgr_issuerChangeSubscriptions m)"
  by (rule handle_event_shape [of m ev]; use assms in \<open>simp add: started_def notify_none_closed\<close>)+

lemma handle_event_subs_frame [simp]:
  "mgr_closedSubs (handle_event m ev) = mgr_closedSubs m"
  "mgr_nextSub (handle_event m ev) = mgr_nextSub m"
  by (rule handle_event_shape [of m ev]; simp add: notifyIssuerChange_def Let_def)+

lemma Subscribe_frame:
  assumes "SubscribeIssuerChange m = (sub, m')"
  shows "sub = mgr_nextSub m" "mgr_closedSubs m' = mgr_closedSubs m" "mgr_nextSub m' = Suc (mgr_nextSub m)"
    "mgr_sends m' = mgr_sends m" "mgr_activeIssuerRef m' = mgr_activeIssuerRef m"
    "mgr_issuerChangeSubscriptions m' = mgr_issuerChangeSubscriptions m @ [mgr_nextSub m]"
  using assms by (auto simp: SubscribeIssuerChange_def)

lemma Close_closed [simp]: "mgr_closedSubs (Close sub m) \<noteq> []"
  by (simp add: Close_def)

lemma notify_step_inv:
  assumes "notify_step s s'" and "notify_inv s"
  shows "notify_inv s'"
  using assms
proof (cases rule: notify_step.cases)
  case (event early ev)
  with assms(2) show ?thesis
    using handle_event_none_closed [of "ns_m s" ev] set_selected [of "map Not early" "started (ns_m s) ev"]
    by (fastforce simp: notify_inv_def event_effect_def)
next
  case (wait_subscribe sub m')
  then show ?thesis using assms(2) Subscribe_frame [of "ns_m s" sub m']
    by (auto simp: notify_inv_def nth_append less_Suc_eq)
next
  case subscribe
  then show ?thesis using assms(2)
    by (auto simp: notify_inv_def SubscribeIssuerChange_def nth_append less_Suc_eq)
qed (auto simp: notify_inv_def split: if_splits)

lemma notify_reach_inv: "notify_step\<^sup>*\<^sup>* s s' \<Longrightarrow> notify_inv s \<Longrightarrow> notify_inv s'"
  by (induction rule: rtranclp_induct) (auto intro: notify_step_inv)

lemma New_notify_inv: "New k8sErr cmErr opts = Inr m \<Longrightarrow> notify_inv (notify_init m)"
  by (auto simp: New_def Let_def notify_inv_def notify_init_def split: option.splits sum.splits if_splits)

lemma selected_cover:
  assumes "x \<in> set xs" "length early = length xs"
  shows "x \<in> set (selected early xs) \<or> x \<in> set (selected (map Not early) xs)"
proof -
  from assms(1) obtain i where i: "i < length xs" "xs ! i = x" by (auto simp: in_set_conv_nth)
  then have "(early ! i, x) \<in> set (zip early xs)" "(\<not> early ! i, x) \<in> set (zip (map Not early) xs)"
    using assms(2) by (force simp: in_set_zip)+
  then show ?thesis by (cases "early ! i") (force simp: selected_def)+
qed

text \<open>What a changed configuration does, in one equation.\<close>

lemma configured_change:
  "snd (handleRuntimeConfigIssuerChange m ev) =
     (case full_config (ev_Object ev) of
        None \<Rightarrow> m
      | Some r \<Rightarrow> notifyIssuerChange (Some r) (m\<lparr>mgr_activeIssuerRef := Some r\<rparr>))"
proof (cases "ev_Object ev")
  case (ObjConfigMap cm)
  then show ?thesis
    by (cases "map_of (cmap_Data cm) issuerNameKey"; cases "map_of (cmap_Data cm) issuerKindKey";
        cases "map_of (cmap_Data cm) issuerGroupKey")
      (simp_all add: full_config_def handleRuntimeConfigIssuerChange_def data_errs_def data_field_def
        Let_def)
qed (simp_all add: full_config_def handleRuntimeConfigIssuerChange_def)

lemma handle_event_config:
  "config_of ev = Some (Some r) \<Longrightarrow>
   handle_event m ev = notifyIssuerChange (Some r) (m\<lparr>mgr_activeIssuerRef := Some r\<rparr>)"
  by (cases "ev_Type ev") (auto simp: config_of_def handle_event_def configured_change)

lemma started_config:
  assumes "mgr_closedSubs m = []" "config_of ev = Some (Some r)" "i < length (mgr_issuerChangeSubscriptions m)"
  shows "(i, Some r) \<in> set (started m ev)"
  using assms by (simp add: started_def handle_event_config notify_none_closed)

lemma sender_wakes:
  assumes "ns_wait s = AtSelect sub" "(sub, Some r) \<in> set (ns_senders s)"
  shows "\<exists>s'. notify_step s s' \<and> ns_wait s' = WaitReturned"
proof -
  from assms(2) obtain xs ys where "ns_senders s = xs @ (sub, Some r) # ys" by (meson split_list)
  from notify_step.wait_receive [OF assms(1) this] show ?thesis by force
qed

lemma pending_wakes:
  assumes "ns_wait s = AtSelect sub" "(i, Some r) \<in> set (mgr_sends (ns_m s))"
    "i < length (mgr_issuerChangeSubscriptions (ns_m s))" "mgr_issuerChangeSubscriptions (ns_m s) ! i = sub"
  shows "\<exists>s'. notify_step\<^sup>*\<^sup>* s s' \<and> ns_wait s' = WaitReturned"
proof -
  from assms(2) obtain xs ys where "mgr_sends (ns_m s) = xs @ (i, Some r) # ys" by (meson split_list)
  from notify_step.send [OF this assms(3)] obtain s1 where "notify_step s s1"
    "ns_wait s1 = AtSelect sub" "(sub, Some r) \<in> set (ns_senders s1)"
    using assms(1,4) by force
  with sender_wakes [of s1 sub r] show ?thesis
    by (meson converse_rtranclp_into_rtranclp r_into_rtranclp)
qed

lemma handle_event_sends: "mgr_sends (handle_event m ev) = mgr_sends m @ started m ev"
  by (rule handle_event_shape [of m ev]) (simp_all add: started_def notifyIssuerChange_def Let_def)

text \<open>The step in which all goroutines of an event run after the list was assigned.\<close>

lemma event_effect_late:
  "event_effect (replicate (length (started (ns_m s) ev)) False) ev s = s\<lparr>ns_m := handle_event (ns_m s) ev\<rparr>"
proof -
  have "selected (map Not (replicate (length xs) False)) xs = xs"
    "selected (replicate (length xs) False) xs = []" for xs :: "(nat \<times> IssuerReference option) list"
    by (induction xs) (auto simp: selected_def)
  then show ?thesis by (simp add: event_effect_def handle_event_sends [symmetric] del: map_replicate)
qed

lemma event_late: "notify_step s (s\<lparr>ns_m := handle_event (ns_m s) ev\<rparr>)"
  using notify_step.event [of "replicate (length (started (ns_m s) ev)) False" s ev]
  by (simp add: event_effect_late)

text \<open>
  A manager that was started without an issuer, and an event that configures one, for the
  witnesses and the runs below.
\<close>

definition rt_opts :: Options where
  "rt_opts = demo_opts\<lparr>opt_DefaultIssuerEnabled := False, opt_IssuanceConfigMapName := ''issuance'',
     opt_IssuanceConfigMapNamespace := ''istio-system''\<rparr>"

definition rt_manager ::
  "IssuerReference option \<Rightarrow> nat list \<Rightarrow> nat list \<Rightarrow> nat \<Rightarrow> (nat \<times> IssuerReference option) list \<Rightarrow> manager" where
  "rt_manager active subs closed next_sub sends =
     \<lparr>mgr_opts = rt_opts, mgr_activeIssuerRef = active, mgr_originalIssuerRef = None,
      mgr_issuerChangeSubscriptions = subs, mgr_closedSubs = closed, mgr_nextSub = next_sub, mgr_sends = sends\<rparr>"

definition rt_event :: Event where
  "rt_event = \<lparr>ev_Type = Modified, ev_Object = ObjConfigMap \<lparr>cmap_Data = [(''issuer-name'', ''istio-ca''),
     (''issuer-kind'', ''Issuer''), (''issuer-group'', ''cert-manager.io'')]\<rparr>\<rparr>"

lemma rt_new: "New None None rt_opts = Inr (rt_manager None [] [] 0 [])"
  by (simp add: New_def handleOriginalIssuerRef_def HasRuntimeConfiguration_def rt_opts_def
      demo_opts_def rt_manager_def errNoOriginalIssuer_def)

lemma rt_config: "config_of rt_event = Some (Some demo_ref)"
  by (simp add: rt_event_def config_of_def full_config_def issuerNameKey_def issuerKindKey_def
      issuerGroupKey_def demo_ref_def)

lemma rt_handle:
  "handle_event (rt_manager a subs closed n sends) rt_event =
   rt_manager (Some demo_ref) (filter (\<lambda>sub. sub \<notin> set closed) subs) closed n
     (sends @ map (\<lambda>(i, sub). (i, Some demo_ref))
        (filter (\<lambda>(i, sub). sub \<notin> set closed) (enumerate 0 subs)))"
proof -
  have "map snd (filter (\<lambda>(i, sub). sub \<notin> set closed) (enumerate k subs)) =
      filter (\<lambda>sub. sub \<notin> set closed) subs" for k
    by (induction subs arbitrary: k) auto
  then show ?thesis
    by (simp add: handle_event_config [OF rt_config] notifyIssuerChange_def Closed_def Let_def
        rt_manager_def)
qed

definition rt_state :: "manager \<Rightarrow> (nat \<times> IssuerReference option) list \<Rightarrow> bool \<Rightarrow> wait_pc \<Rightarrow> notify_state" where
  "rt_state m senders crashed w = \<lparr>ns_m = m, ns_senders = senders, ns_crashed = crashed, ns_wait = w\<rparr>"

lemma rt_fields:
  "mgr_sends (rt_manager a subs cl n sends) = sends" "mgr_closedSubs (rt_manager a subs cl n sends) = cl"
  "mgr_issuerChangeSubscriptions (rt_manager a subs cl n sends) = subs"
  "(rt_manager a subs cl n sends)\<lparr>mgr_sends := sends'\<rparr> = rt_manager a subs cl n sends'"
  "ns_m (rt_state m out c w) = m" "ns_wait (rt_state m out c w) = w" "ns_senders (rt_state m out c w) = out"
  "(rt_state m out c w)\<lparr>ns_m := m', ns_senders := out'\<rparr> = rt_state m' out' c w"
  by (simp_all add: rt_manager_def rt_state_def)

lemma rt_init: "notify_init (rt_manager None [] [] 0 []) = rt_state (rt_manager None [] [] 0 []) [] False AtFastPath"
  by (simp add: notify_init_def rt_state_def)

lemma rt_step_fast:
  "notify_step (rt_state (rt_manager None subs cl n sends) out c AtFastPath)
     (rt_state (rt_manager None subs cl n sends) out c AtSubscribe)"
  using notify_step.wait_fast [of "rt_state (rt_manager None subs cl n sends) out c AtFastPath"]
  by (simp add: rt_state_def rt_manager_def HasIssuerConfig_def)

lemma rt_step_wait_subscribe:
  "notify_step (rt_state (rt_manager a subs cl n sends) out c AtSubscribe)
     (rt_state (rt_manager a (subs @ [n]) cl (Suc n) sends) out c (AtSelect n))"
  using notify_step.wait_subscribe [of "rt_state (rt_manager a subs cl n sends) out c AtSubscribe"
      n "rt_manager a (subs @ [n]) cl (Suc n) sends"]
  by (simp add: rt_state_def rt_manager_def SubscribeIssuerChange_def)

lemma rt_step_subscribe:
  "notify_step (rt_state (rt_manager a subs cl n sends) out c w)
     (rt_state (rt_manager a (subs @ [n]) cl (Suc n) sends) out c w)"
  using notify_step.subscribe [of "rt_state (rt_manager a subs cl n sends) out c w"]
  by (simp add: rt_state_def rt_manager_def SubscribeIssuerChange_def)

lemma rt_started:
  "started (rt_manager a subs cl n sends) rt_event = map (\<lambda>(i, sub). (i, Some demo_ref))
     (filter (\<lambda>(i, sub). sub \<notin> set cl) (enumerate 0 subs))"
  by (simp add: started_def rt_handle) (simp add: rt_manager_def)

lemma rt_step_event:
  "notify_step (rt_state m out c w) (rt_state (handle_event m rt_event) out c w)"
  using event_late [of "rt_state m out c w" rt_event] by (simp add: rt_state_def)

lemma rt_step_send:
  "i < length subs \<Longrightarrow>
   notify_step (rt_state (rt_manager a subs cl n ((i, v) # sends)) out c w)
     (rt_state (rt_manager a subs cl n sends) (out @ [(subs ! i, v)]) c w)"
  using notify_step.send [of "rt_state (rt_manager a subs cl n ((i, v) # sends)) out c w" "[]" i v sends]
  by (simp add: rt_state_def rt_manager_def)

lemma rt_step_wait_receive:
  "notify_step (rt_state (rt_manager a subs cl n sends) ((sub, Some v) # out) c (AtSelect sub))
     (rt_state (rt_manager a subs (sub # cl) n sends) out c WaitReturned)"
  using notify_step.wait_receive [of "rt_state (rt_manager a subs cl n sends) ((sub, Some v) # out) c (AtSelect sub)"
      sub "[]" "Some v" out]
  by (simp add: rt_state_def rt_manager_def Close_def)

lemma rt_step_receive_other:
  "w \<noteq> AtSelect sub \<Longrightarrow>
   notify_step (rt_state m ((sub, v) # out) c w) (rt_state m out c w)"
  using notify_step.receive_other [of "rt_state m ((sub, v) # out) c w" "[]" sub v out]
  by (simp add: rt_state_def)

lemma rt_step_panic:
  "length subs \<le> i \<Longrightarrow>
   notify_step (rt_state (rt_manager a subs cl n ((i, v) # sends)) out c w)
     (rt_state (rt_manager a subs cl n ((i, v) # sends)) out True w)"
  using notify_step.send_panic [of i v "rt_state (rt_manager a subs cl n ((i, v) # sends)) out c w"]
  by (simp add: rt_state_def rt_manager_def)

lemmas rt_run = converse_rtranclp_into_rtranclp [of notify_step]

section \<open>Properties\<close>

text \<open>
  As long as no subscription has been closed, the goroutines that deliver issuer changes are
  safe, although each looks its subscription up by index only when it runs: every captured index
  is in range and still denotes the subscription it was captured for, and nothing crashes.
\<close>

lemma notify_safe_until_close:
  assumes "New k8sErr cmErr opts = Inr m" and "notify_step\<^sup>*\<^sup>* (notify_init m) s"
    and "mgr_closedSubs (ns_m s) = []"
  shows "\<not> ns_crashed s \<and>
    (\<forall>(i, v) \<in> set (mgr_sends (ns_m s)). i < length (mgr_issuerChangeSubscriptions (ns_m s)) \<and>
       mgr_issuerChangeSubscriptions (ns_m s) ! i = i)"
  using notify_reach_inv [OF assms(2) New_notify_inv [OF assms(1)]] assms(3)
  by (auto simp: notify_inv_def)

text \<open>
  A waiter that has subscribed is woken by the next complete configuration: whatever the
  interleaving of that event, the waiter can still return afterwards.
\<close>

lemma subscribed_waiter_wakes:
  assumes "New k8sErr cmErr opts = Inr m" and "notify_step\<^sup>*\<^sup>* (notify_init m) s"
    and "mgr_closedSubs (ns_m s) = []" and "ns_wait s = AtSelect sub"
    and "config_of ev = Some (Some r)" and "length early = length (started (ns_m s) ev)"
    and "s1 = event_effect early ev s"
  shows "notify_step s s1 \<and> (\<exists>s2. notify_step\<^sup>*\<^sup>* s1 s2 \<and> ns_wait s2 = WaitReturned)"
proof -
  let ?subs = "mgr_issuerChangeSubscriptions (ns_m s)"
  have inv: "sub < length ?subs" "?subs ! sub = sub"
    using notify_reach_inv [OF assms(2) New_notify_inv [OF assms(1)]] assms(3,4)
    by (auto simp: notify_inv_def)
  have w: "ns_wait s1 = AtSelect sub" using assms(4,7) by (simp add: event_effect_def)
  consider "(sub, Some r) \<in> set (selected early (started (ns_m s) ev))"
    | "(sub, Some r) \<in> set (selected (map Not early) (started (ns_m s) ev))"
    using selected_cover [OF started_config [OF assms(3,5) inv(1)] assms(6)] by blast
  then have "\<exists>s2. notify_step\<^sup>*\<^sup>* s1 s2 \<and> ns_wait s2 = WaitReturned"
  proof cases
    case 1
    then have "(sub, Some r) \<in> set (ns_senders s1)" using assms(7) inv(2) by (force simp: event_effect_def)
    with sender_wakes [OF w] show ?thesis by blast
  next
    case 2
    then have "(sub, Some r) \<in> set (mgr_sends (ns_m s1))" using assms(7) by (simp add: event_effect_def)
    with pending_wakes [OF w] inv handle_event_none_closed(1) [OF assms(3), of ev] show ?thesis
      using assms(7) by (simp add: event_effect_def)
  qed
  then show ?thesis using notify_step.event [OF assms(6)] assms(7) by simp
qed

text \<open>
  C22: Once a subscription has been closed the goroutines are not safe. A run with the program's own
  two subscribers and a manager started without an issuer: the istiod certificate controller
  subscribes, then \<open>WaitForIssuerConfig\<close> does; the configuration changes twice, the waiter takes the
  first message, returns and closes its subscription, and a third change filters it out. The
  goroutine that was to tell the waiter about the second change, which captured index 1, then
  indexes a list of length 1: the process panics.
\<close>

theorem notify_panics_after_close:
  "\<exists>s. notify_step\<^sup>*\<^sup>* (notify_init (rt_manager None [] [] 0 [])) s \<and>
     New None None rt_opts = Inr (rt_manager None [] [] 0 []) \<and>
     ns_wait s = WaitReturned \<and> mgr_closedSubs (ns_m s) = [1] \<and>
     mgr_issuerChangeSubscriptions (ns_m s) = [0] \<and> (1, Some demo_ref) \<in> set (mgr_sends (ns_m s)) \<and>
     ns_crashed s"
proof -
  let ?v = "Some demo_ref"
  have "notify_step\<^sup>*\<^sup>* (notify_init (rt_manager None [] [] 0 []))
      (rt_state (rt_manager ?v [0] [1] 2 [(1, ?v), (0, ?v)]) [(0, ?v)] True WaitReturned)"
    unfolding rt_init
    apply (rule rt_run [OF rt_step_subscribe])
    apply (rule rt_run [OF rt_step_fast])
    apply (rule rt_run [OF rt_step_wait_subscribe])
    apply (rule rt_run [OF rt_step_event])
    apply (simp add: rt_handle)
    apply (rule rt_run [OF rt_step_event])
    apply (simp add: rt_handle)
    apply (rule rt_run [OF rt_step_send], simp)
    apply (rule rt_run [OF rt_step_send], simp)
    apply simp
    apply (rule rt_run [OF rt_step_receive_other], simp)
    apply (rule rt_run [OF rt_step_wait_receive])
    apply (rule rt_run [OF rt_step_event])
    apply (simp add: rt_handle)
    apply (rule rt_run [OF rt_step_send], simp)
    apply simp
    apply (rule rt_run [OF rt_step_panic], simp)
    apply (simp add: numeral_2_eq_2)
    done
  then show ?thesis using rt_new by (fastforce simp: rt_state_def rt_manager_def)
qed

text \<open>
  C38: \<open>WaitForIssuerConfig\<close> can miss a configuration: when it arrives between the fast path and
  the subscription, the waiter sits in its \<open>select\<close> although an issuer is configured, and no
  message for it exists.
\<close>

theorem wait_misses_configuration:
  "\<exists>s sub. notify_step\<^sup>*\<^sup>* (notify_init (rt_manager None [] [] 0 [])) s \<and>
     ns_wait s = AtSelect sub \<and> HasIssuerConfig (ns_m s) \<and> mgr_sends (ns_m s) = [] \<and> ns_senders s = []"
proof -
  have "notify_step\<^sup>*\<^sup>* (notify_init (rt_manager None [] [] 0 []))
      (rt_state (rt_manager (Some demo_ref) [0] [] 1 []) [] False (AtSelect 0))"
    unfolding rt_init
    apply (rule rt_run [OF rt_step_fast])
    apply (rule rt_run [OF rt_step_event])
    apply (simp add: rt_handle)
    apply (rule rt_run [OF rt_step_wait_subscribe])
    apply simp
    done
  then show ?thesis by (fastforce simp: rt_state_def rt_manager_def HasIssuerConfig_def)
qed

end
