(* ===== verification/Istiod_Cert.thy ===== *)
theory Istiod_Cert
  imports Kube_Store Issuer_Notify
begin

text \<open>
  \<open>pkg/istiodcert\<close>: the options of the dynamically provisioned istiod certificate
  (\<open>options.go\<close>) and the controller that provisions it (\<open>worker.go\<close>). Kubernetes' validation of DNS
  names, the upper case of non-ASCII text and the cert-manager client are arguments.
\<close>

section \<open>Options\<close>

datatype PrivateKeyAlgorithm = NoKeyAlgorithm | RSAKeyAlgorithm | ECDSAKeyAlgorithm

record IstiodOptions =
  io_Enabled :: bool
  io_CertificateName :: string
  io_CertificateNamespace :: string
  io_Duration :: duration
  io_RenewBefore :: duration
  io_KeyAlgorithm :: string
  io_KeySize :: int
  io_CMKeyAlgorithm :: PrivateKeyAlgorithm
  io_AdditionalDNSNames :: "string list"
  io_AdditionalAnnotations :: strmap
  io_IstioRevisions :: "string list"
  io_MaxConcurrentReconciles :: int

definition minRSAKeySize :: int where
  "minRSAKeySize = 2048"

text \<open>\<open>strings.ToUpper\<close>: byte-wise on ASCII text, the parameter \<open>U\<close> on other text.\<close>

definition ascii_upper :: "char \<Rightarrow> char" where
  "ascii_upper c =
     (let n = of_char c :: nat in if 97 \<le> n \<and> n \<le> 122 then char_of (n - 32) else c)"

definition strings_ToUpper :: "(string \<Rightarrow> string) \<Rightarrow> string \<Rightarrow> string" where
  "strings_ToUpper U s = (if list_all (\<lambda>c. (of_char c :: nat) < 128) s then map ascii_upper s else U s)"

text \<open>The \<open>switch o.KeyAlgorithm\<close> of \<open>Validate\<close>: its errors and the changed options.\<close>

definition validate_key :: "IstiodOptions \<Rightarrow> error list \<times> IstiodOptions" where
  "validate_key o' =
     (if io_KeyAlgorithm o' = ''RSA'' then
        (let o1 = o'\<lparr>io_CMKeyAlgorithm := RSAKeyAlgorithm\<rparr>;
             o2 = (if io_KeySize o1 = 0 then o1\<lparr>io_KeySize := minRSAKeySize\<rparr> else o1) in
         ((if io_KeySize o2 < minRSAKeySize
           then [Errorf ''istio certificate RSA key size must be at least %d bits, but got %d''] else []), o2))
      else if io_KeyAlgorithm o' = ''ECDSA'' then
        (let o1 = o'\<lparr>io_CMKeyAlgorithm := ECDSAKeyAlgorithm\<rparr>;
             o2 = (if io_KeySize o1 = 0 then o1\<lparr>io_KeySize := 256\<rparr> else o1) in
         ((if io_KeySize o2 \<noteq> 256 \<and> io_KeySize o2 \<noteq> 384
           then [Errorf ''istio certificate private key of type ECDSA must have 'size' equal to either 256 or 384''] else []), o2))
      else ([Errorf ''invalid key algorithm %q; valid values are RSA and ECDSA''], o'))"

definition Validate ::
  "(string \<Rightarrow> string) \<Rightarrow> (string \<Rightarrow> string list) \<Rightarrow> IstiodOptions \<Rightarrow> error option \<times> IstiodOptions" where
  "Validate U IsDNS1123Subdomain o' =
     (if \<not> io_Enabled o' then (None, o')
      else
        (let errs1 = (if io_MaxConcurrentReconciles o' < 1
                      then [Errorf ''max-concurrent-reconciles must be at least 1, got %d''] else []);
             errs2 = (if sint (io_Duration o') \<le> sint (io_RenewBefore o')
                      then [Errorf ''istiod certificate renew-before %s must be smaller than the requested duration %s'']
                      else []) in
         case validate_key (o'\<lparr>io_KeyAlgorithm := strings_ToUpper U (io_KeyAlgorithm o')\<rparr>) of
           (errs3, o2) \<Rightarrow>
             (let errs4 = concat (map (\<lambda>name. if IsDNS1123Subdomain name \<noteq> []
                                        then [Errorf ''invalid additional DNS name %q: ''] else [])
                                   (io_AdditionalDNSNames o2)) in
              (errors_Join (errs1 @ errs2 @ errs3 @ errs4), o2))))"

section \<open>DNS names\<close>

definition istiod_dns :: "string \<Rightarrow> string \<Rightarrow> string" where
  "istiod_dns namespace revision =
     (if revision = ''default'' then ''istiod.'' @ namespace @ ''.svc''
      else ''istiod-'' @ revision @ ''.'' @ namespace @ ''.svc'')"

fun revision_names :: "string \<Rightarrow> string list \<Rightarrow> string list \<Rightarrow> string list" where
  "revision_names namespace [] dnsNames = dnsNames"
| "revision_names namespace (revision # revisions) dnsNames =
     (if revision = ''default''
      then revision_names namespace revisions (dnsNames @ [''istiod.'' @ namespace @ ''.svc''])
      else revision_names namespace revisions (dnsNames @ [''istiod-'' @ revision @ ''.'' @ namespace @ ''.svc'']))"

definition makeDNSNamesFromRevisions :: "string \<Rightarrow> string list \<Rightarrow> string \<times> string list" where
  "makeDNSNamesFromRevisions namespace istioRevisions =
     (let revisions = (if istioRevisions = [] then [''default''] else istioRevisions) in
      (''istiod.'' @ namespace @ ''.svc'', revision_names namespace revisions []))"

section \<open>The provisioner\<close>

record CertificateSpec =
  cs_CommonName :: string
  cs_DNSNames :: "string list"
  cs_URIs :: "string list"
  cs_SecretName :: string
  cs_Duration :: duration
  cs_RenewBefore :: duration
  cs_RotationPolicyAlways :: bool
  cs_Algorithm :: PrivateKeyAlgorithm
  cs_Size :: int
  cs_RevisionHistoryLimit :: int
  cs_IssuerRef :: IssuerReference

record Certificate =
  cert_Namespace :: string
  cert_Name :: string
  cert_Annotations :: strmap
  cert_Spec :: CertificateSpec

definition cert_key :: "Certificate \<Rightarrow> string \<times> string" where
  "cert_key c = (cert_Namespace c, cert_Name c)"

text \<open>\<open>dicp_events\<close> are the events sent on \<open>reconcileChan\<close>: the namespaces and names to reconcile.\<close>

record DynamicIstiodCertProvisioner =
  dicp_opts :: IstiodOptions
  dicp_initialIssuerRef :: "IssuerReference option"
  dicp_issuerRef :: "IssuerReference option"
  dicp_subscription :: nat
  dicp_events :: "(string \<times> string) list"
  dicp_trustDomain :: string

text \<open>\<open>New\<close>; the first argument is the error of the client constructor.\<close>

definition Istiod_New ::
  "error option \<Rightarrow> IstiodOptions \<Rightarrow> manager \<Rightarrow> string \<Rightarrow> (error + DynamicIstiodCertProvisioner) \<times> manager" where
  "Istiod_New clientErr opts m trustDomain =
     (case clientErr of
        Some err \<Rightarrow> (Inl (Wrapf ''failed to build cert-manager client: %s'' err), m)
      | None \<Rightarrow>
          (case SubscribeIssuerChange m of
             (sub, m') \<Rightarrow>
               (Inr \<lparr>dicp_opts = opts, dicp_initialIssuerRef = InitialIssuer m,
                     dicp_issuerRef = InitialIssuer m, dicp_subscription = sub, dicp_events = [],
                     dicp_trustDomain = trustDomain\<rparr>, m')))"

definition handleNewIssuer ::
  "DynamicIstiodCertProvisioner \<Rightarrow> IssuerReference option \<Rightarrow> DynamicIstiodCertProvisioner" where
  "handleNewIssuer dicp issuerRef =
     (if issuerRef = None \<and> dicp_initialIssuerRef dicp \<noteq> None
      then dicp\<lparr>dicp_issuerRef := dicp_initialIssuerRef dicp\<rparr>
      else dicp\<lparr>dicp_issuerRef := issuerRef,
             dicp_events := dicp_events dicp @
               [(io_CertificateNamespace (dicp_opts dicp), io_CertificateName (dicp_opts dicp))]\<rparr>)"

text \<open>\<open>Start\<close>, given what arrives on its subscription until its context is done.\<close>

definition Istiod_Start ::
  "DynamicIstiodCertProvisioner \<Rightarrow> IssuerReference option list \<Rightarrow> DynamicIstiodCertProvisioner" where
  "Istiod_Start dicp received =
     foldl handleNewIssuer
       (if dicp_initialIssuerRef dicp \<noteq> None then handleNewIssuer dicp (dicp_initialIssuerRef dicp) else dicp)
       received"

definition Istiod_NeedLeaderElection :: bool where
  "Istiod_NeedLeaderElection = True"

text \<open>The predicate and the mapping the controller is registered with.\<close>

definition watches_certificate :: "DynamicIstiodCertProvisioner \<Rightarrow> Certificate \<Rightarrow> bool" where
  "watches_certificate dicp obj \<longleftrightarrow>
     cert_Name obj = io_CertificateName (dicp_opts dicp) \<and>
     cert_Namespace obj = io_CertificateNamespace (dicp_opts dicp)"

definition certificate_requests :: "DynamicIstiodCertProvisioner \<Rightarrow> (string \<times> string) list" where
  "certificate_requests dicp =
     [(io_CertificateNamespace (dicp_opts dicp), io_CertificateName (dicp_opts dicp))]"

text \<open>
  \<open>AddControllersToManager\<close>, given the errors of completing the controller and of adding the
  provisioner as a runnable: the number of workers, the predicate, the requests of an event on
  \<open>reconcileChan\<close>, and whether the runnable needs leader election.
\<close>

record istiod_registration =
  ireg_MaxConcurrentReconciles :: int
  ireg_predicate :: "Certificate \<Rightarrow> bool"
  ireg_requests :: "(string \<times> string) list"
  ireg_NeedLeaderElection :: bool

definition AddControllersToManager ::
  "error option \<Rightarrow> error option \<Rightarrow> DynamicIstiodCertProvisioner \<Rightarrow> error + istiod_registration" where
  "AddControllersToManager completeErr addErr dicp =
     (case completeErr of
        Some err \<Rightarrow> Inl err
      | None \<Rightarrow>
     (case addErr of
        Some err \<Rightarrow> Inl err
      | None \<Rightarrow>
          Inr \<lparr>ireg_MaxConcurrentReconciles = io_MaxConcurrentReconciles (dicp_opts dicp),
               ireg_predicate = watches_certificate dicp, ireg_requests = certificate_requests dicp,
               ireg_NeedLeaderElection = Istiod_NeedLeaderElection\<rparr>))"

definition desiredSpec ::
  "DynamicIstiodCertProvisioner \<Rightarrow> IssuerReference \<Rightarrow> string \<Rightarrow> CertificateSpec" where
  "desiredSpec dicp issuerRef req_Namespace =
     (let spiffeID = ''spiffe://'' @ dicp_trustDomain dicp @ ''/ns/'' @ req_Namespace @ ''/sa/istiod-service-account'';
          (commonName, dnsNames) = makeDNSNamesFromRevisions req_Namespace (io_IstioRevisions (dicp_opts dicp));
          dnsNames2 = (if io_AdditionalDNSNames (dicp_opts dicp) \<noteq> []
                       then dnsNames @ io_AdditionalDNSNames (dicp_opts dicp) else dnsNames) in
      \<lparr>cs_CommonName = commonName, cs_DNSNames = dnsNames2, cs_URIs = [spiffeID],
       cs_SecretName = ''istiod-tls'', cs_Duration = io_Duration (dicp_opts dicp),
       cs_RenewBefore = io_RenewBefore (dicp_opts dicp), cs_RotationPolicyAlways = True,
       cs_Algorithm = io_CMKeyAlgorithm (dicp_opts dicp), cs_Size = io_KeySize (dicp_opts dicp),
       cs_RevisionHistoryLimit = 1, cs_IssuerRef = issuerRef\<rparr>)"

text \<open>
  \<open>Reconcile\<close> of a request, a namespace and a name. The client reads and writes in the namespace
  it was built for, the one of the options.
\<close>

definition Istiod_Reconcile ::
  "('w, Certificate) kube_client \<Rightarrow> DynamicIstiodCertProvisioner \<Rightarrow> ('w, Certificate) kube \<Rightarrow>
   string \<Rightarrow> string \<Rightarrow> api_error option \<times> ('w, Certificate) kube" where
  "Istiod_Reconcile client dicp k req_Namespace req_Name =
     (case dicp_issuerRef dicp of
        None \<Rightarrow> (None, k)
      | Some issuerRef \<Rightarrow>
     (case kube_Get client k (io_CertificateNamespace (dicp_opts dicp)) req_Name of
        Inl NotFound \<Rightarrow>
          kube_Create client k
            \<lparr>cert_Namespace = req_Namespace, cert_Name = req_Name,
             cert_Annotations = io_AdditionalAnnotations (dicp_opts dicp),
             cert_Spec = desiredSpec dicp issuerRef req_Namespace\<rparr>
      | Inl (APIError err) \<Rightarrow> (Some (APIError (Wrapf ''failed to fetch cert: %s'' err)), k)
      | Inr cert \<Rightarrow>
          kube_Update client k (cert\<lparr>cert_Spec := desiredSpec dicp issuerRef req_Namespace\<rparr>)))"

section \<open>Messages to the provisioner\<close>

text \<open>
  The messages that one event of the run-time configuration makes the manager send to a
  subscription.
\<close>

definition messages :: "nat \<Rightarrow> manager \<Rightarrow> Event \<Rightarrow> IssuerReference option list" where
  "messages sub m ev = map snd (filter (\<lambda>(i, v). i = sub) (started m ev))"

section \<open>Lemmas\<close>

lemma ToUpper_fixed [simp]:
  "strings_ToUpper U ''RSA'' = ''RSA''" "strings_ToUpper U ''ECDSA'' = ''ECDSA''"
  by (simp_all add: strings_ToUpper_def ascii_upper_def)

lemma validate_key_errs:
  "fst (validate_key o') = [] \<longleftrightarrow>
   io_KeyAlgorithm o' = ''RSA'' \<and> (io_KeySize o' = 0 \<or> 2048 \<le> io_KeySize o') \<or>
   io_KeyAlgorithm o' = ''ECDSA'' \<and> io_KeySize o' \<in> {0, 256, 384}"
  by (auto simp: validate_key_def minRSAKeySize_def Let_def)

lemma validate_key_frame [simp]:
  "io_AdditionalDNSNames (snd (validate_key o')) = io_AdditionalDNSNames o'"
  "io_Enabled (snd (validate_key o')) = io_Enabled o'"
  "io_Duration (snd (validate_key o')) = io_Duration o'"
  "io_RenewBefore (snd (validate_key o')) = io_RenewBefore o'"
  "io_MaxConcurrentReconciles (snd (validate_key o')) = io_MaxConcurrentReconciles o'"
  "io_KeyAlgorithm (snd (validate_key o')) = io_KeyAlgorithm o'"
  by (simp_all add: validate_key_def Let_def)

lemma Validate_None:
  "fst (Validate U V o') = None \<longleftrightarrow>
   (io_Enabled o' \<longrightarrow>
      1 \<le> io_MaxConcurrentReconciles o' \<and> sint (io_RenewBefore o') < sint (io_Duration o') \<and>
      (\<forall>name \<in> set (io_AdditionalDNSNames o'). V name = []) \<and>
      (strings_ToUpper U (io_KeyAlgorithm o') = ''RSA'' \<and> (io_KeySize o' = 0 \<or> 2048 \<le> io_KeySize o') \<or>
       strings_ToUpper U (io_KeyAlgorithm o') = ''ECDSA'' \<and> io_KeySize o' \<in> {0, 256, 384}))"
proof (cases "io_Enabled o'")
  case True
  let ?o = "o'\<lparr>io_KeyAlgorithm := strings_ToUpper U (io_KeyAlgorithm o')\<rparr>"
  have "fst (Validate U V o') = None \<longleftrightarrow> 1 \<le> io_MaxConcurrentReconciles o' \<and>
      sint (io_RenewBefore o') < sint (io_Duration o') \<and> fst (validate_key ?o) = [] \<and>
      (\<forall>name \<in> set (io_AdditionalDNSNames o'). V name = [])"
    using True validate_key_frame [of ?o]
    by (auto simp: Validate_def Let_def case_prod_beta not_less not_le)
  then show ?thesis using True by (auto simp: validate_key_errs)
qed (simp add: Validate_def)

lemma Validate_snd:
  "io_Enabled o' \<Longrightarrow>
   snd (Validate U V o') = snd (validate_key (o'\<lparr>io_KeyAlgorithm := strings_ToUpper U (io_KeyAlgorithm o')\<rparr>))"
  by (simp add: Validate_def Let_def case_prod_beta)

lemma Validate_key_ok:
  assumes "Validate U V o' = (None, o2)" and "io_Enabled o2"
  shows "io_CMKeyAlgorithm o2 = RSAKeyAlgorithm \<and> 2048 \<le> io_KeySize o2 \<or>
    io_CMKeyAlgorithm o2 = ECDSAKeyAlgorithm \<and> io_KeySize o2 \<in> {256, 384}"
proof -
  let ?o = "o'\<lparr>io_KeyAlgorithm := strings_ToUpper U (io_KeyAlgorithm o')\<rparr>"
  have en: "io_Enabled o'" using assms by (cases "io_Enabled o'") (auto simp: Validate_def)
  have o2: "o2 = snd (validate_key ?o)" using Validate_snd [OF en, of U V] assms(1) by simp
  have "fst (Validate U V o') = None" using assms(1) by simp
  then show ?thesis
    using en unfolding o2 Validate_None by (auto simp: validate_key_def Let_def minRSAKeySize_def)
qed

lemma revision_names_map:
  "revision_names ns revs acc = acc @ map (istiod_dns ns) revs"
  by (induction revs arbitrary: acc) (auto simp: istiod_dns_def)

lemma istiod_dns_inj: "istiod_dns ns r = istiod_dns ns r' \<Longrightarrow> r = r'"
  by (auto simp: istiod_dns_def split: if_splits)

lemma handleNewIssuer_ref:
  "dicp_issuerRef (handleNewIssuer d v) = (case v of None \<Rightarrow> dicp_initialIssuerRef d | Some r \<Rightarrow> Some r)"
  by (auto simp: handleNewIssuer_def split: option.splits)

lemma handleNewIssuer_frame [simp]:
  "dicp_initialIssuerRef (handleNewIssuer d v) = dicp_initialIssuerRef d"
  "dicp_subscription (handleNewIssuer d v) = dicp_subscription d"
  "dicp_opts (handleNewIssuer d v) = dicp_opts d"
  "dicp_trustDomain (handleNewIssuer d v) = dicp_trustDomain d"
  by (simp_all add: handleNewIssuer_def)

lemma foldl_handleNewIssuer_frame [simp]:
  "dicp_initialIssuerRef (foldl handleNewIssuer d vs) = dicp_initialIssuerRef d"
  "dicp_subscription (foldl handleNewIssuer d vs) = dicp_subscription d"
  by (induction vs arbitrary: d) auto

lemma handle_event_unconfigured: "config_of ev = None \<Longrightarrow> handle_event m ev = m"
  by (cases "ev_Type ev") (auto simp: config_of_def handle_event_def configured_change)

lemma handle_event_withdrawn:
  "config_of ev = Some None \<Longrightarrow> handle_event m ev = handleRuntimeConfigIssuerDeletion m"
  by (auto simp: config_of_def handle_event_def split: EventType.splits)

lemma filter_index: "sub < n \<Longrightarrow> filter (\<lambda>(i, v). i = sub) (map (\<lambda>i. (i, r)) [0..<n]) = [(sub, r)]"
proof -
  assume "sub < n"
  then have "filter (\<lambda>i. i = sub) [0..<n] = [sub]"
    by (induction n) (auto simp: less_Suc_eq filter_empty_conv)
  then show ?thesis by (simp add: filter_map comp_def)
qed

text \<open>The messages of an event for a subscription of a manager that no one has closed.\<close>

lemma messages_eq:
  assumes "mgr_closedSubs m = []" "sub < length (mgr_issuerChangeSubscriptions m)"
    "mgr_originalIssuerRef m \<noteq> None"
  shows "messages sub m ev = (case config_of ev of None \<Rightarrow> [] | Some v \<Rightarrow> [v])"
proof (cases "config_of ev")
  case None
  then show ?thesis by (simp add: messages_def started_def handle_event_unconfigured)
next
  case (Some v)
  have "started m ev = map (\<lambda>i. (i, v)) [0..<length (mgr_issuerChangeSubscriptions m)]"
    using assms Some
    by (cases v) (auto simp: started_def handle_event_withdrawn handle_event_config
        handleRuntimeConfigIssuerDeletion_def notify_none_closed)
  then show ?thesis using Some by (simp add: messages_def filter_index [OF assms(2)] del: filter_map)
qed

section \<open>Properties\<close>

text \<open>
  Validation accepts exactly: the feature switched off; or at least one worker, a renewal time
  below the duration, valid additional DNS names, and a key that is RSA with at least 2048 bits or
  ECDSA with 256 or 384 bits (size 0 meaning the default), the algorithm in any case.
\<close>

lemma validate_exact:
  "fst (Validate U V o') = None \<longleftrightarrow>
   (io_Enabled o' \<longrightarrow>
      1 \<le> io_MaxConcurrentReconciles o' \<and> sint (io_RenewBefore o') < sint (io_Duration o') \<and>
      (\<forall>name \<in> set (io_AdditionalDNSNames o'). V name = []) \<and>
      (strings_ToUpper U (io_KeyAlgorithm o') = ''RSA'' \<and> (io_KeySize o' = 0 \<or> 2048 \<le> io_KeySize o') \<or>
       strings_ToUpper U (io_KeyAlgorithm o') = ''ECDSA'' \<and> io_KeySize o' \<in> {0, 256, 384}))"
  by (rule Validate_None)

definition demo_istiod_opts :: IstiodOptions where
  "demo_istiod_opts = \<lparr>io_Enabled = True, io_CertificateName = ''istiod-dynamic'',
     io_CertificateNamespace = ''istio-system'', io_Duration = 3600000000000, io_RenewBefore = 1800000000000,
     io_KeyAlgorithm = ''ecdsa'', io_KeySize = 0, io_CMKeyAlgorithm = NoKeyAlgorithm,
     io_AdditionalDNSNames = [], io_AdditionalAnnotations = [], io_IstioRevisions = [''default'', ''canary''],
     io_MaxConcurrentReconciles = 1\<rparr>"

text \<open>
  Accepted options are normalised: the algorithm handed to cert-manager is set and agrees with
  the key size, which is explicit, and validating them again changes nothing.
\<close>

lemma validate_normalises:
  assumes "Validate U V o' = (None, o2)" and "io_Enabled o'"
  shows "(io_CMKeyAlgorithm o2 = RSAKeyAlgorithm \<and> io_KeyAlgorithm o2 = ''RSA'' \<and> 2048 \<le> io_KeySize o2 \<or>
      io_CMKeyAlgorithm o2 = ECDSAKeyAlgorithm \<and> io_KeyAlgorithm o2 = ''ECDSA'' \<and> io_KeySize o2 \<in> {256, 384}) \<and>
    Validate U V o2 = (None, o2)"
proof -
  let ?o = "o'\<lparr>io_KeyAlgorithm := strings_ToUpper U (io_KeyAlgorithm o')\<rparr>"
  have o2: "o2 = snd (validate_key ?o)" using Validate_snd [OF assms(2), of U V] assms(1) by simp
  have ok: "fst (Validate U V o') = None" using assms(1) by simp
  then have key: "io_CMKeyAlgorithm o2 = RSAKeyAlgorithm \<and> io_KeyAlgorithm o2 = ''RSA'' \<and> 2048 \<le> io_KeySize o2 \<or>
      io_CMKeyAlgorithm o2 = ECDSAKeyAlgorithm \<and> io_KeyAlgorithm o2 = ''ECDSA'' \<and> io_KeySize o2 \<in> {256, 384}"
    using assms(2) unfolding o2 Validate_None
    by (auto simp: validate_key_def Let_def minRSAKeySize_def)
  have same: "io_Enabled o2" "io_MaxConcurrentReconciles o2 = io_MaxConcurrentReconciles o'"
    "io_RenewBefore o2 = io_RenewBefore o'" "io_Duration o2 = io_Duration o'"
    "io_AdditionalDNSNames o2 = io_AdditionalDNSNames o'"
    using assms(2) by (simp_all add: o2)
  have "fst (Validate U V o2) = None"
    using key ok assms(2) unfolding Validate_None same by auto
  moreover have "snd (Validate U V o2) = o2"
    using key unfolding Validate_snd [OF same(1)] by (auto simp: validate_key_def Let_def minRSAKeySize_def)
  ultimately show ?thesis using key by (metis prod.collapse)
qed

text \<open>
  The DNS names of the certificate are one per revision, in order, and determine the revisions
  (no two revisions share a name); the common name is one of them exactly when the default revision
  is among them, or none is given.
\<close>

lemma revision_dns_names:
  "(\<forall>revs. snd (makeDNSNamesFromRevisions ns revs) =
      map (istiod_dns ns) (if revs = [] then [''default''] else revs)) \<and>
   inj (istiod_dns ns) \<and>
   (\<forall>revs. fst (makeDNSNamesFromRevisions ns revs) \<in> set (snd (makeDNSNamesFromRevisions ns revs)) \<longleftrightarrow>
      revs = [] \<or> ''default'' \<in> set revs)"
proof -
  have names: "snd (makeDNSNamesFromRevisions ns revs) =
      map (istiod_dns ns) (if revs = [] then [''default''] else revs)" for revs
    by (simp add: makeDNSNamesFromRevisions_def Let_def revision_names_map)
  have "fst (makeDNSNamesFromRevisions ns revs) = istiod_dns ns ''default''" for revs
    by (simp add: makeDNSNamesFromRevisions_def Let_def istiod_dns_def)
  moreover have inj: "inj (istiod_dns ns)" by (auto intro: injI istiod_dns_inj)
  ultimately show ?thesis by (auto simp: names inj_image_mem_iff)
qed

text \<open>
  Reconciling a request for the configured certificate without an error leaves the Certificate
  with the desired specification for the current issuer, keeps the metadata of one that exists, and
  changes no other object; without an issuer nothing is done.
\<close>

lemma istiod_reconcile_desired:
  assumes "store_law cert_key client"
    and "Istiod_Reconcile client d k (io_CertificateNamespace (dicp_opts d)) name = (None, k')"
  shows "case dicp_issuerRef d of
      None \<Rightarrow> k' = k
    | Some ref \<Rightarrow>
        (\<exists>c. kube_Get client k' (io_CertificateNamespace (dicp_opts d)) name = Inr c \<and>
           cert_Spec c = desiredSpec d ref (io_CertificateNamespace (dicp_opts d)) \<and>
           (\<forall>old. kube_Get client k (io_CertificateNamespace (dicp_opts d)) name = Inr old \<longrightarrow>
              cert_Annotations c = cert_Annotations old)) \<and>
        (\<forall>ns' name'. (ns', name') \<noteq> (io_CertificateNamespace (dicp_opts d), name) \<longrightarrow>
           kube_Get client k' ns' name' = kube_Get client k ns' name')"
proof (cases "dicp_issuerRef d")
  case None
  then show ?thesis using assms(2) by (simp add: Istiod_Reconcile_def)
next
  case (Some ref)
  let ?ns = "io_CertificateNamespace (dicp_opts d)"
  show ?thesis
  proof (cases "kube_Get client k ?ns name")
    case (Inl e)
    then have e: "e = NotFound" using assms(2) Some by (cases e) (auto simp: Istiod_Reconcile_def)
    let ?c = "\<lparr>cert_Namespace = ?ns, cert_Name = name,
      cert_Annotations = io_AdditionalAnnotations (dicp_opts d), cert_Spec = desiredSpec d ref ?ns\<rparr>"
    have "kube_Create client k ?c = (None, k')" using assms(2) Some Inl e by (simp add: Istiod_Reconcile_def)
    from store_law_create [OF assms(1) this] show ?thesis using Some Inl by (simp add: cert_key_def)
  next
    case (Inr c)
    have "kube_Update client k (c\<lparr>cert_Spec := desiredSpec d ref ?ns\<rparr>) = (None, k')"
      using assms(2) Some Inr by (simp add: Istiod_Reconcile_def)
    from store_law_update [OF assms(1) this] store_law_get [OF assms(1) Inr] show ?thesis
      using Some Inr by (simp add: cert_key_def)
  qed
qed

definition demo_dicp :: DynamicIstiodCertProvisioner where
  "demo_dicp = \<lparr>dicp_opts = demo_istiod_opts, dicp_initialIssuerRef = Some demo_ref,
     dicp_issuerRef = Some demo_ref, dicp_subscription = 0, dicp_events = [], dicp_trustDomain = ''td''\<rparr>"

definition demo_certs :: "(Certificate list, Certificate) kube" where
  "demo_certs = \<lparr>k_api = [], k_writes = []\<rparr>"

definition other_event :: Event where
  "other_event = \<lparr>ev_Type = Modified, ev_Object = ObjConfigMap \<lparr>cmap_Data = [(''issuer-name'', ''vault''),
     (''issuer-kind'', ''Issuer''), (''issuer-group'', ''cert-manager.io'')]\<rparr>\<rparr>"

definition delete_event :: Event where
  "delete_event = \<lparr>ev_Type = Deleted, ev_Object = ObjOther\<rparr>"

definition vault_ref :: IssuerReference where
  "vault_ref = \<lparr>ir_Name = ''vault'', ir_Kind = ''Issuer'', ir_Group = ''cert-manager.io''\<rparr>"

definition demo_manager1 :: manager where
  "demo_manager1 = snd (SubscribeIssuerChange demo_manager)"

lemma demo_manager_new: "New None None demo_opts = Inr demo_manager"
  by (simp add: New_def handleOriginalIssuerRef_def demo_defs)

lemma demo_istiod_new: "Istiod_New None demo_istiod_opts demo_manager ''td'' = (Inr demo_dicp, demo_manager1)"
  by (simp add: Istiod_New_def demo_dicp_def demo_manager1_def SubscribeIssuerChange_def demo_manager_def
      InitialIssuer_def)

end
