(* ===== verification/Flags.thy ===== *)
theory Flags
  imports Server Tls_Provider Istiod_Cert
begin

text \<open>
  The options of the program and its command-line flags (\<open>cmd/app/options/options.go\<close>, \<open>AddFlags\<close> of
  \<open>pkg/istiodcert/options.go\<close>). A flag is its name, its shorthand, its default and the field of the
  options it is bound to, as a function that reads the field and one that writes it. Reading the
  command line into flag values is the work of a library; what the program contributes, the table
  of flags, is modelled, and the locale \<open>flag_table\<close> says what makes a table well-formed.
\<close>

section \<open>Options\<close>

record rest_Config =
  rest_QPS :: int
  rest_Burst :: int

record OptionsController =
  oc_LeaderElectionNamespace :: string
  oc_ConfigMapNamespaceSelector :: string
  oc_DisableKubernetesClientRateLimiter :: bool
  oc_MaxConcurrentReconciles :: int

record AppOptions =
  ao_logLevel :: "32 word"
  ao_logFormat :: string
  ao_ReadyzPort :: int
  ao_ReadyzPath :: string
  ao_MetricsPort :: int
  ao_RestConfig :: "rest_Config option"
  ao_Controller :: OptionsController
  ao_CertManager :: Options
  ao_TLS :: TlsOptions
  ao_Server :: ServerOptions
  ao_IstiodCert :: IstiodOptions

text \<open>\<open>options.New\<close>: all fields have Go's zero values.\<close>

definition Options_New :: AppOptions where
  "Options_New = \<lparr>ao_logLevel = 0, ao_logFormat = [], ao_ReadyzPort = 0, ao_ReadyzPath = [],
     ao_MetricsPort = 0, ao_RestConfig = None,
     ao_Controller = \<lparr>oc_LeaderElectionNamespace = [], oc_ConfigMapNamespaceSelector = [],
       oc_DisableKubernetesClientRateLimiter = False, oc_MaxConcurrentReconciles = 0\<rparr>,
     ao_CertManager = \<lparr>opt_PreserveCertificateRequests = False, opt_Namespace = [],
       opt_DefaultIssuerEnabled = False, opt_IssuerRef = \<lparr>ir_Name = [], ir_Kind = [], ir_Group = []\<rparr>,
       opt_IssuanceConfigMapName = [], opt_IssuanceConfigMapNamespace = [], opt_AdditionalAnnotations = []\<rparr>,
     ao_TLS = \<lparr>to_TrustDomain = [], to_RootCAsCertFile = [], to_ServingCertificateDuration = 0,
       to_ServingCertificateDNSNames = [], to_ServingCertificateKeySize = 0, to_ServingSignatureAlgorithm = [],
       to_ServingTLSMinVersion = [], to_ServingTLSCipherSuites = [], to_ServingTLSCurvePreferences = []\<rparr>,
     ao_Server = \<lparr>so_ClusterID = [], so_ServingAddress = [], so_MaximumClientCertificateDuration = 0,
       so_EnableClientCert = False, so_CATrustedNodeAccounts = []\<rparr>,
     ao_IstiodCert = \<lparr>io_Enabled = False, io_CertificateName = [], io_CertificateNamespace = [],
       io_Duration = 0, io_RenewBefore = 0, io_KeyAlgorithm = [], io_KeySize = 0,
       io_CMKeyAlgorithm = NoKeyAlgorithm, io_AdditionalDNSNames = [], io_AdditionalAnnotations = [],
       io_IstioRevisions = [], io_MaxConcurrentReconciles = 0\<rparr>\<rparr>"

section \<open>Flags\<close>

datatype flag_value =
  VBool bool | VString string | VInt int | VUint32 "32 word" | VDuration duration
| VStrings "string list" | VMap strmap

fun same_kind :: "flag_value \<Rightarrow> flag_value \<Rightarrow> bool" where
  "same_kind (VBool _) (VBool _) = True"
| "same_kind (VString _) (VString _) = True"
| "same_kind (VInt _) (VInt _) = True"
| "same_kind (VUint32 _) (VUint32 _) = True"
| "same_kind (VDuration _) (VDuration _) = True"
| "same_kind (VStrings _) (VStrings _) = True"
| "same_kind (VMap _) (VMap _) = True"
| "same_kind _ _ = False"

record 'o flag =
  fl_name :: string
  fl_short :: string
  fl_def :: flag_value
  fl_get :: "'o \<Rightarrow> flag_value"
  fl_set :: "flag_value \<Rightarrow> 'o \<Rightarrow> 'o"

text \<open>
  The functions that bind a field to a flag, by the field's type. A field is given by its selector
  and its update; a shorthand that is not given is empty.
\<close>

definition StringVarP where
  "StringVarP get upd name short value = \<lparr>fl_name = name, fl_short = short, fl_def = VString value,
     fl_get = (\<lambda>o'. VString (get o')), fl_set = (\<lambda>v. upd (\<lambda>old. case v of VString x \<Rightarrow> x | _ \<Rightarrow> old))\<rparr>"

definition BoolVarP where
  "BoolVarP get upd name short value = \<lparr>fl_name = name, fl_short = short, fl_def = VBool value,
     fl_get = (\<lambda>o'. VBool (get o')), fl_set = (\<lambda>v. upd (\<lambda>old. case v of VBool x \<Rightarrow> x | _ \<Rightarrow> old))\<rparr>"

definition IntVarP where
  "IntVarP get upd name short value = \<lparr>fl_name = name, fl_short = short, fl_def = VInt value,
     fl_get = (\<lambda>o'. VInt (get o')), fl_set = (\<lambda>v. upd (\<lambda>old. case v of VInt x \<Rightarrow> x | _ \<Rightarrow> old))\<rparr>"

definition Uint32VarP where
  "Uint32VarP get upd name short value = \<lparr>fl_name = name, fl_short = short, fl_def = VUint32 value,
     fl_get = (\<lambda>o'. VUint32 (get o')), fl_set = (\<lambda>v. upd (\<lambda>old. case v of VUint32 x \<Rightarrow> x | _ \<Rightarrow> old))\<rparr>"

definition DurationVarP where
  "DurationVarP get upd name short value = \<lparr>fl_name = name, fl_short = short, fl_def = VDuration value,
     fl_get = (\<lambda>o'. VDuration (get o')), fl_set = (\<lambda>v. upd (\<lambda>old. case v of VDuration x \<Rightarrow> x | _ \<Rightarrow> old))\<rparr>"

definition StringSliceVar where
  "StringSliceVar get upd name value = \<lparr>fl_name = name, fl_short = [], fl_def = VStrings value,
     fl_get = (\<lambda>o'. VStrings (get o')), fl_set = (\<lambda>v. upd (\<lambda>old. case v of VStrings x \<Rightarrow> x | _ \<Rightarrow> old))\<rparr>"

definition StringToStringVar where
  "StringToStringVar get upd name value = \<lparr>fl_name = name, fl_short = [], fl_def = VMap value,
     fl_get = (\<lambda>o'. VMap (get o')), fl_set = (\<lambda>v. upd (\<lambda>old. case v of VMap x \<Rightarrow> x | _ \<Rightarrow> old))\<rparr>"

text \<open>Binding a field to a flag also stores the default in the field.\<close>

definition bind_flags :: "'o flag list \<Rightarrow> 'o \<Rightarrow> 'o" where
  "bind_flags fs o' = fold (\<lambda>f. fl_set f (fl_def f)) fs o'"

text \<open>A flag of a part of the options, as a flag of the whole.\<close>

definition lift_flag :: "('o \<Rightarrow> 'p) \<Rightarrow> (('p \<Rightarrow> 'p) \<Rightarrow> 'o \<Rightarrow> 'o) \<Rightarrow> 'p flag \<Rightarrow> 'o flag" where
  "lift_flag get upd f = \<lparr>fl_name = fl_name f, fl_short = fl_short f, fl_def = fl_def f,
     fl_get = (\<lambda>o'. fl_get f (get o')), fl_set = (\<lambda>v. upd (fl_set f v))\<rparr>"

lemmas flag_defs = StringVarP_def BoolVarP_def IntVarP_def Uint32VarP_def DurationVarP_def StringSliceVar_def
  StringToStringVar_def lift_flag_def

definition time_Hour :: duration where
  "time_Hour = 3600 * time_Second"

definition addAppFlags :: "AppOptions flag list" where
  "addAppFlags = [
     Uint32VarP ao_logLevel ao_logLevel_update ''log-level'' ''v'' 1,
     StringVarP ao_logFormat ao_logFormat_update ''log-format'' [] ''text'',
     IntVarP ao_ReadyzPort ao_ReadyzPort_update ''readiness-probe-port'' [] 6060,
     StringVarP ao_ReadyzPath ao_ReadyzPath_update ''readiness-probe-path'' [] ''/readyz'',
     IntVarP ao_MetricsPort ao_MetricsPort_update ''metrics-port'' [] 9402]"

text \<open>Three of the TLS flags have the present value of their field as the default.\<close>

definition addTLSFlags :: "TlsOptions \<Rightarrow> TlsOptions flag list" where
  "addTLSFlags o' = [
     StringVarP to_TrustDomain to_TrustDomain_update ''trust-domain'' [] ''cluster.local'',
     StringVarP to_RootCAsCertFile to_RootCAsCertFile_update ''root-ca-file'' [] [],
     DurationVarP to_ServingCertificateDuration to_ServingCertificateDuration_update
       ''serving-certificate-duration'' ''t'' time_Hour,
     StringSliceVar to_ServingCertificateDNSNames to_ServingCertificateDNSNames_update
       ''serving-certificate-dns-names'' [''cert-manager-istio-csr.cert-manager.svc''],
     IntVarP to_ServingCertificateKeySize to_ServingCertificateKeySize_update
       ''serving-certificate-key-size'' [] 2048,
     StringVarP to_ServingSignatureAlgorithm to_ServingSignatureAlgorithm_update
       ''serving-signature-algorithm'' [] ''RSA'',
     StringSliceVar to_ServingTLSCipherSuites to_ServingTLSCipherSuites_update
       ''serving-tls-cipher-suites'' (to_ServingTLSCipherSuites o'),
     StringVarP to_ServingTLSMinVersion to_ServingTLSMinVersion_update
       ''serving-tls-min-version'' [] (to_ServingTLSMinVersion o'),
     StringSliceVar to_ServingTLSCurvePreferences to_ServingTLSCurvePreferences_update
       ''serving-tls-curve-preferences'' (to_ServingTLSCurvePreferences o')]"

definition addCertManagerFlags :: "Options flag list" where
  "addCertManagerFlags = [
     BoolVarP opt_PreserveCertificateRequests opt_PreserveCertificateRequests_update
       ''preserve-certificate-requests'' ''d'' False,
     StringVarP opt_Namespace opt_Namespace_update ''certificate-namespace'' ''c'' ''istio-system'',
     BoolVarP opt_DefaultIssuerEnabled opt_DefaultIssuerEnabled_update ''issuer-enabled'' ''e'' True,
     StringVarP (\<lambda>o'. ir_Name (opt_IssuerRef o')) (\<lambda>f. opt_IssuerRef_update (ir_Name_update f))
       ''issuer-name'' ''u'' ''istio-ca'',
     StringVarP (\<lambda>o'. ir_Kind (opt_IssuerRef o')) (\<lambda>f. opt_IssuerRef_update (ir_Kind_update f))
       ''issuer-kind'' ''k'' ''Issuer'',
     StringVarP (\<lambda>o'. ir_Group (opt_IssuerRef o')) (\<lambda>f. opt_IssuerRef_update (ir_Group_update f))
       ''issuer-group'' ''g'' ''cert-manager.io'',
     StringVarP opt_IssuanceConfigMapName opt_IssuanceConfigMapName_update
       ''runtime-issuance-config-map-name'' [] [],
     StringVarP opt_IssuanceConfigMapNamespace opt_IssuanceConfigMapNamespace_update
       ''runtime-issuance-config-map-namespace'' [] []]"

definition addAdditionalAnnotationsFlags :: "Options flag list" where
  "addAdditionalAnnotationsFlags = [
     StringToStringVar opt_AdditionalAnnotations opt_AdditionalAnnotations_update
       ''certificate-request-additional-annotations'' []]"

definition addServerFlags :: "ServerOptions flag list" where
  "addServerFlags = [
     StringVarP so_ServingAddress so_ServingAddress_update ''serving-address'' ''a'' ''0.0.0.0:6443'',
     DurationVarP so_MaximumClientCertificateDuration so_MaximumClientCertificateDuration_update
       ''max-client-certificate-duration'' ''m'' time_Hour,
     StringVarP so_ClusterID so_ClusterID_update ''cluster-id'' [] ''Kubernetes'',
     BoolVarP so_EnableClientCert so_EnableClientCert_update ''enable-client-cert-authenticator'' [] False,
     StringSliceVar so_CATrustedNodeAccounts so_CATrustedNodeAccounts_update ''ca-trusted-node-accounts'' []]"

definition addControllerFlags :: "OptionsController flag list" where
  "addControllerFlags = [
     StringVarP oc_LeaderElectionNamespace oc_LeaderElectionNamespace_update
       ''leader-election-namespace'' [] ''istio-system'',
     StringVarP oc_ConfigMapNamespaceSelector oc_ConfigMapNamespaceSelector_update
       ''configmap-namespace-selector'' [] [],
     BoolVarP oc_DisableKubernetesClientRateLimiter oc_DisableKubernetesClientRateLimiter_update
       ''disable-kubernetes-client-rate-limiter'' [] False,
     IntVarP oc_MaxConcurrentReconciles oc_MaxConcurrentReconciles_update ''max-concurrent-reconciles'' [] 1]"

definition istiodcert_AddFlags :: "IstiodOptions flag list" where
  "istiodcert_AddFlags = [
     BoolVarP io_Enabled io_Enabled_update ''istiod-cert-enabled'' [] False,
     StringVarP io_CertificateName io_CertificateName_update ''istiod-cert-name'' [] ''istiod-dynamic'',
     StringVarP io_CertificateNamespace io_CertificateNamespace_update
       ''istiod-cert-namespace'' [] ''istio-system'',
     DurationVarP io_Duration io_Duration_update ''istiod-cert-duration'' [] time_Hour,
     DurationVarP io_RenewBefore io_RenewBefore_update ''istiod-cert-renew-before'' [] (1800 * time_Second),
     StringVarP io_KeyAlgorithm io_KeyAlgorithm_update ''istiod-cert-key-algorithm'' [] ''RSA'',
     IntVarP io_KeySize io_KeySize_update ''istiod-cert-key-size'' [] minRSAKeySize,
     StringSliceVar io_AdditionalDNSNames io_AdditionalDNSNames_update ''istiod-cert-additional-dns-names'' [],
     StringToStringVar io_AdditionalAnnotations io_AdditionalAnnotations_update
       ''istiod-cert-additional-annotations'' [],
     StringSliceVar io_IstioRevisions io_IstioRevisions_update ''istiod-cert-istio-revisions'' []]"

text \<open>
  \<open>addFlags\<close>: the groups in the order they are declared. The flags of the Kubernetes client come from a
  library and are bound to fields of its own.
\<close>

definition addFlags :: "AppOptions \<Rightarrow> AppOptions flag list" where
  "addFlags o' =
     addAppFlags
     @ map (lift_flag ao_CertManager ao_CertManager_update) addCertManagerFlags
     @ map (lift_flag ao_TLS ao_TLS_update) (addTLSFlags (ao_TLS o'))
     @ map (lift_flag ao_Server ao_Server_update) addServerFlags
     @ map (lift_flag ao_Controller ao_Controller_update) addControllerFlags
     @ map (lift_flag ao_CertManager ao_CertManager_update) addAdditionalAnnotationsFlags
     @ map (lift_flag ao_IstiodCert ao_IstiodCert_update) istiodcert_AddFlags"

lemmas flag_groups = addAppFlags_def addCertManagerFlags_def addTLSFlags_def addServerFlags_def
  addControllerFlags_def addAdditionalAnnotationsFlags_def istiodcert_AddFlags_def

definition Prepare :: "AppOptions \<Rightarrow> AppOptions" where
  "Prepare o' = bind_flags (addFlags o') o'"

text \<open>
  The options once the command line is read: \<open>given\<close> are the values of the flags that occur on it,
  by name.
\<close>

definition parse_flags :: "(string \<Rightarrow> flag_value option) \<Rightarrow> 'o flag list \<Rightarrow> 'o \<Rightarrow> 'o" where
  "parse_flags given fs o' =
     fold (\<lambda>f. case given (fl_name f) of None \<Rightarrow> (\<lambda>x. x) | Some v \<Rightarrow> fl_set f v) fs o'"

definition command_options :: "(string \<Rightarrow> flag_value option) \<Rightarrow> AppOptions" where
  "command_options given = parse_flags given (addFlags Options_New) (Prepare Options_New)"

definition default_options :: AppOptions where
  "default_options = \<lparr>ao_logLevel = 1, ao_logFormat = ''text'', ao_ReadyzPort = 6060, ao_ReadyzPath = ''/readyz'',
     ao_MetricsPort = 9402, ao_RestConfig = None,
     ao_Controller = \<lparr>oc_LeaderElectionNamespace = ''istio-system'', oc_ConfigMapNamespaceSelector = [],
       oc_DisableKubernetesClientRateLimiter = False, oc_MaxConcurrentReconciles = 1\<rparr>,
     ao_CertManager = \<lparr>opt_PreserveCertificateRequests = False, opt_Namespace = ''istio-system'',
       opt_DefaultIssuerEnabled = True,
       opt_IssuerRef = \<lparr>ir_Name = ''istio-ca'', ir_Kind = ''Issuer'', ir_Group = ''cert-manager.io''\<rparr>,
       opt_IssuanceConfigMapName = [], opt_IssuanceConfigMapNamespace = [], opt_AdditionalAnnotations = []\<rparr>,
     ao_TLS = \<lparr>to_TrustDomain = ''cluster.local'', to_RootCAsCertFile = [],
       to_ServingCertificateDuration = time_Hour,
       to_ServingCertificateDNSNames = [''cert-manager-istio-csr.cert-manager.svc''],
       to_ServingCertificateKeySize = 2048, to_ServingSignatureAlgorithm = ''RSA'',
       to_ServingTLSMinVersion = [], to_ServingTLSCipherSuites = [], to_ServingTLSCurvePreferences = []\<rparr>,
     ao_Server = \<lparr>so_ClusterID = ''Kubernetes'', so_ServingAddress = ''0.0.0.0:6443'',
       so_MaximumClientCertificateDuration = time_Hour, so_EnableClientCert = False,
       so_CATrustedNodeAccounts = []\<rparr>,
     ao_IstiodCert = \<lparr>io_Enabled = False, io_CertificateName = ''istiod-dynamic'',
       io_CertificateNamespace = ''istio-system'', io_Duration = time_Hour,
       io_RenewBefore = 1800 * time_Second, io_KeyAlgorithm = ''RSA'', io_KeySize = minRSAKeySize,
       io_CMKeyAlgorithm = NoKeyAlgorithm, io_AdditionalDNSNames = [], io_AdditionalAnnotations = [],
       io_IstioRevisions = [], io_MaxConcurrentReconciles = 0\<rparr>\<rparr>"

lemma Prepare_default: "Prepare Options_New = default_options"
  by (simp add: Prepare_def bind_flags_def addFlags_def flag_groups flag_defs Options_New_def default_options_def)

section \<open>Well-formed tables\<close>

text \<open>
  In a well-formed table of flags the names are distinct, a value of the right type that is stored
  through a flag is read back, and no flag affects another's field.
\<close>

locale flag_table =
  fixes flags :: "'o flag list"
  assumes distinct_names: "distinct (map fl_name flags)"
    and get_set: "f \<in> set flags \<Longrightarrow> same_kind v (fl_def f) \<Longrightarrow> fl_get f (fl_set f v o') = v"
    and independent: "f \<in> set flags \<Longrightarrow> g \<in> set flags \<Longrightarrow> fl_name f \<noteq> fl_name g \<Longrightarrow>
      fl_get f (fl_set g v o') = fl_get f o'"
begin

text \<open>A value per flag is stored through all of them in turn.\<close>

definition assign :: "('o flag \<Rightarrow> flag_value option) \<Rightarrow> 'o flag list \<Rightarrow> 'o \<Rightarrow> 'o" where
  "assign val fs o' = fold (\<lambda>f. case val f of None \<Rightarrow> (\<lambda>x. x) | Some v \<Rightarrow> fl_set f v) fs o'"

lemma assign_simps [simp]:
  "assign val [] o' = o'"
  "assign val (f # fs) o' = assign val fs (case val f of None \<Rightarrow> o' | Some v \<Rightarrow> fl_set f v o')"
  "assign val (fs @ gs) o' = assign val gs (assign val fs o')"
  by (simp_all add: assign_def split: option.splits)

lemma assign_other:
  "set fs \<subseteq> set flags \<Longrightarrow> f \<in> set flags \<Longrightarrow> fl_name f \<notin> fl_name ` set fs \<Longrightarrow>
   fl_get f (assign val fs o') = fl_get f o'"
  by (induction fs arbitrary: o') (auto simp: independent split: option.splits)

lemma assign_get:
  assumes "f \<in> set flags" and "\<And>v. val f = Some v \<Longrightarrow> same_kind v (fl_def f)"
  shows "fl_get f (assign val flags o') = (case val f of None \<Rightarrow> fl_get f o' | Some v \<Rightarrow> v)"
proof -
  obtain xs ys where fs: "flags = xs @ f # ys" using assms(1) by (auto dest: split_list)
  with distinct_names have "fl_name f \<notin> fl_name ` set xs" "fl_name f \<notin> fl_name ` set ys" by auto
  then have "fl_get f (assign val xs o'') = fl_get f o''" "fl_get f (assign val ys o'') = fl_get f o''" for o''
    using assign_other [of xs f val o''] assign_other [of ys f val o''] by (simp_all add: fs subset_eq)
  moreover have "assign val flags o' = assign val ys (case val f of None \<Rightarrow> assign val xs o'
      | Some v \<Rightarrow> fl_set f v (assign val xs o'))"
    by (simp add: fs)
  ultimately show ?thesis using assms get_set by (auto split: option.splits)
qed

lemma bind_get: "f \<in> set flags \<Longrightarrow> same_kind (fl_def f) (fl_def f) \<Longrightarrow> fl_get f (bind_flags flags o') = fl_def f"
  using assign_get [of f "\<lambda>f. Some (fl_def f)" o'] by (simp add: assign_def bind_flags_def)

lemma parse_get:
  assumes "f \<in> set flags" and "\<And>v. given (fl_name f) = Some v \<Longrightarrow> same_kind v (fl_def f)"
  shows "fl_get f (parse_flags given flags o') = (case given (fl_name f) of None \<Rightarrow> fl_get f o' | Some v \<Rightarrow> v)"
  using assign_get [OF assms(1), of "\<lambda>f. given (fl_name f)" o'] assms(2) by (simp add: assign_def parse_flags_def)

end

text \<open>Tables are put together from those of the parts.\<close>

definition cross :: "'o flag list \<Rightarrow> 'o flag list \<Rightarrow> bool" where
  "cross fs gs \<longleftrightarrow>
     (\<forall>f \<in> set fs. \<forall>g \<in> set gs. \<forall>v o'. fl_get f (fl_set g v o') = fl_get f o' \<and> fl_get g (fl_set f v o') = fl_get g o')"

lemma cross_append [simp]: "cross fs (gs @ hs) \<longleftrightarrow> cross fs gs \<and> cross fs hs"
  by (auto simp: cross_def)

lemma flag_table_append:
  assumes "flag_table fs" "flag_table gs" "cross fs gs" "distinct (map fl_name (fs @ gs))"
  shows "flag_table (fs @ gs)"
proof -
  show ?thesis
    using assms flag_table.independent [OF assms(1)] flag_table.independent [OF assms(2)]
      flag_table.get_set [OF assms(1)] flag_table.get_set [OF assms(2)]
    by unfold_locales (auto simp: cross_def)
qed

lemma flag_table_lift:
  assumes "flag_table fs" and "\<And>h o'. get (upd h o') = h (get o')"
  shows "flag_table (map (lift_flag get upd) fs)"
  using flag_table.distinct_names [OF assms(1)] flag_table.independent [OF assms(1)]
    flag_table.get_set [OF assms(1)] assms(2)
  by unfold_locales (auto simp: lift_flag_def comp_def)

lemma cross_lift:
  "(\<And>h o'. get (upd' h o') = get o') \<Longrightarrow> (\<And>h o'. get' (upd h o') = get' o') \<Longrightarrow>
   cross (map (lift_flag get upd) fs) (map (lift_flag get' upd') gs)"
  by (auto simp: cross_def lift_flag_def)

lemma same_kind_refl [simp]: "same_kind v v"
  by (cases v) simp_all

lemma same_kind_cases:
  "same_kind v (VString s) \<longleftrightarrow> (\<exists>x. v = VString x)" "same_kind v (VBool b) \<longleftrightarrow> (\<exists>x. v = VBool x)"
  "same_kind v (VInt i) \<longleftrightarrow> (\<exists>x. v = VInt x)" "same_kind v (VUint32 n) \<longleftrightarrow> (\<exists>x. v = VUint32 x)"
  "same_kind v (VDuration d) \<longleftrightarrow> (\<exists>x. v = VDuration x)" "same_kind v (VStrings l) \<longleftrightarrow> (\<exists>x. v = VStrings x)"
  "same_kind v (VMap m) \<longleftrightarrow> (\<exists>x. v = VMap x)"
  by (cases v; simp)+

lemmas flag_table_simps = flag_table_def flag_defs same_kind_cases

lemma table_App: "flag_table addAppFlags"
  by (auto simp: addAppFlags_def flag_table_simps)

lemma table_Controller: "flag_table addControllerFlags"
  by (auto simp: addControllerFlags_def flag_table_simps)

lemma table_Server: "flag_table addServerFlags"
  by (auto simp: addServerFlags_def flag_table_simps)

lemma table_Istiod: "flag_table istiodcert_AddFlags"
  by (auto simp: istiodcert_AddFlags_def flag_table_simps)

lemma table_TLS: "flag_table (addTLSFlags o')"
  by (auto simp: addTLSFlags_def flag_table_simps)

lemma table_CertManager: "flag_table addCertManagerFlags"
  by (auto simp: addCertManagerFlags_def flag_table_simps)

lemma table_Annotations: "flag_table addAdditionalAnnotationsFlags"
  by (auto simp: addAdditionalAnnotationsFlags_def flag_table_simps)

lemma all_names: "distinct (map fl_name (addFlags o'))"
  by (simp add: addFlags_def flag_groups flag_defs)

lemma cross_App:
  "cross addAppFlags (map (lift_flag ao_CertManager ao_CertManager_update) fs)"
  "cross addAppFlags (map (lift_flag ao_TLS ao_TLS_update) gs)"
  "cross addAppFlags (map (lift_flag ao_Server ao_Server_update) hs)"
  "cross addAppFlags (map (lift_flag ao_Controller ao_Controller_update) cs)"
  "cross addAppFlags (map (lift_flag ao_IstiodCert ao_IstiodCert_update) ds)"
  by (auto simp: cross_def addAppFlags_def flag_defs)

lemma cross_CertManager:
  "cross (map (lift_flag ao_CertManager ao_CertManager_update) addCertManagerFlags)
     (map (lift_flag ao_CertManager ao_CertManager_update) addAdditionalAnnotationsFlags)"
  by (auto simp: cross_def addCertManagerFlags_def addAdditionalAnnotationsFlags_def flag_defs)

lemma table_addFlags: "flag_table (addFlags o')"
proof -
  note names = all_names [of o', unfolded addFlags_def]
  show ?thesis
    unfolding addFlags_def
    by (intro flag_table_append flag_table_lift table_App table_CertManager table_TLS table_Server
        table_Controller table_Annotations table_Istiod)
       (use names in \<open>auto simp: cross_App cross_CertManager intro!: cross_lift\<close>)
qed

interpretation flags: flag_table "addFlags o'" for o'
  by (rule table_addFlags)

lemma command_options_get:
  assumes "f \<in> set (addFlags Options_New)" and "\<And>v. given (fl_name f) = Some v \<Longrightarrow> same_kind v (fl_def f)"
  shows "fl_get f (command_options given) = (case given (fl_name f) of None \<Rightarrow> fl_def f | Some v \<Rightarrow> v)"
proof -
  have "fl_get f default_options = fl_def f"
    using assms(1) flags.bind_get [of f Options_New] by (simp flip: Prepare_default add: Prepare_def)
  then show ?thesis
    using flags.parse_get [OF assms(1), of given default_options] assms(2)
    by (simp add: command_options_def Prepare_default split: option.splits)
qed

lemma command_options_none: "command_options (\<lambda>_. None) = default_options"
proof -
  have "parse_flags (\<lambda>_. None) fs o' = o'" for fs and o' :: AppOptions
    by (induction fs) (auto simp: parse_flags_def)
  then show ?thesis by (simp add: command_options_def Prepare_default)
qed

text \<open>A command line whose values have the types of their flags, and fields read off it.\<close>

definition typed_args :: "(string \<Rightarrow> flag_value option) \<Rightarrow> bool" where
  "typed_args given \<longleftrightarrow>
     (\<forall>f \<in> set (addFlags Options_New). \<forall>v. given (fl_name f) = Some v \<longrightarrow> same_kind v (fl_def f))"

lemma given_field:
  assumes "typed_args given" "f \<in> set (addFlags Options_New)" "given (fl_name f) = Some v"
  shows "fl_get f (command_options given) = v"
proof -
  have "same_kind w (fl_def f)" if "given (fl_name f) = Some w" for w
    using assms(1,2) that by (auto simp: typed_args_def)
  then have "fl_get f (command_options given) = (case given (fl_name f) of None \<Rightarrow> fl_def f | Some v \<Rightarrow> v)"
    by (rule command_options_get [OF assms(2)])
  with assms(3) show ?thesis by simp
qed

lemma given_fields:
  assumes "typed_args given"
  shows "given ''max-concurrent-reconciles'' = Some (VInt n) \<Longrightarrow>
      oc_MaxConcurrentReconciles (ao_Controller (command_options given)) = n"
    and "given ''serving-certificate-dns-names'' = Some (VStrings ns) \<Longrightarrow>
      to_ServingCertificateDNSNames (ao_TLS (command_options given)) = ns"
    and "given ''serving-tls-min-version'' = Some (VString s) \<Longrightarrow>
      to_ServingTLSMinVersion (ao_TLS (command_options given)) = s"
    and "given ''configmap-namespace-selector'' = Some (VString sel) \<Longrightarrow>
      oc_ConfigMapNamespaceSelector (ao_Controller (command_options given)) = sel"
proof -
  have field: "(\<forall>f \<in> set (addFlags Options_New). fl_name f = name \<longrightarrow> fl_get f (command_options given) = v)"
    if "given name = Some v" for name v
    using given_field [OF assms] that by blast
  show "given ''max-concurrent-reconciles'' = Some (VInt n) \<Longrightarrow>
      oc_MaxConcurrentReconciles (ao_Controller (command_options given)) = n"
    "given ''serving-certificate-dns-names'' = Some (VStrings ns) \<Longrightarrow>
      to_ServingCertificateDNSNames (ao_TLS (command_options given)) = ns"
    "given ''serving-tls-min-version'' = Some (VString s) \<Longrightarrow>
      to_ServingTLSMinVersion (ao_TLS (command_options given)) = s"
    "given ''configmap-namespace-selector'' = Some (VString sel) \<Longrightarrow>
      oc_ConfigMapNamespaceSelector (ao_Controller (command_options given)) = sel"
    by (drule field, simp add: addFlags_def flag_groups flag_defs)+
qed

section \<open>The options as a function of the command line\<close>

text \<open>The value a command line gives a flag, by type; what is not given, or not of the type, is the default.\<close>

definition string_arg :: "flag_value option \<Rightarrow> string \<Rightarrow> string" where
  "string_arg v d = (case v of Some (VString x) \<Rightarrow> x | _ \<Rightarrow> d)"

definition bool_arg :: "flag_value option \<Rightarrow> bool \<Rightarrow> bool" where
  "bool_arg v d = (case v of Some (VBool x) \<Rightarrow> x | _ \<Rightarrow> d)"

definition int_arg :: "flag_value option \<Rightarrow> int \<Rightarrow> int" where
  "int_arg v d = (case v of Some (VInt x) \<Rightarrow> x | _ \<Rightarrow> d)"

definition uint32_arg :: "flag_value option \<Rightarrow> 32 word \<Rightarrow> 32 word" where
  "uint32_arg v d = (case v of Some (VUint32 x) \<Rightarrow> x | _ \<Rightarrow> d)"

definition duration_arg :: "flag_value option \<Rightarrow> duration \<Rightarrow> duration" where
  "duration_arg v d = (case v of Some (VDuration x) \<Rightarrow> x | _ \<Rightarrow> d)"

definition strings_arg :: "flag_value option \<Rightarrow> string list \<Rightarrow> string list" where
  "strings_arg v d = (case v of Some (VStrings x) \<Rightarrow> x | _ \<Rightarrow> d)"

definition map_arg :: "flag_value option \<Rightarrow> strmap \<Rightarrow> strmap" where
  "map_arg v d = (case v of Some (VMap x) \<Rightarrow> x | _ \<Rightarrow> d)"

lemmas arg_defs = string_arg_def bool_arg_def int_arg_def uint32_arg_def duration_arg_def strings_arg_def map_arg_def

text \<open>What one flag does to the options.\<close>

definition apply_flag :: "(string \<Rightarrow> flag_value option) \<Rightarrow> 'o flag \<Rightarrow> 'o \<Rightarrow> 'o" where
  "apply_flag given f = (case given (fl_name f) of None \<Rightarrow> (\<lambda>x. x) | Some v \<Rightarrow> fl_set f v)"

lemma parse_flags_apply: "parse_flags given fs = fold (apply_flag given) fs"
  by (simp add: parse_flags_def apply_flag_def [abs_def] fun_eq_iff)

lemma apply_flag_var:
  "upd (\<lambda>x. x) r = r \<Longrightarrow> apply_flag given (StringVarP get upd n sh d) r = upd (\<lambda>old. string_arg (given n) old) r"
  "upd' (\<lambda>x. x) r = r \<Longrightarrow> apply_flag given (BoolVarP get' upd' n sh d') r = upd' (\<lambda>old. bool_arg (given n) old) r"
  "upd2 (\<lambda>x. x) r = r \<Longrightarrow> apply_flag given (IntVarP get2 upd2 n sh d2) r = upd2 (\<lambda>old. int_arg (given n) old) r"
  "upd3 (\<lambda>x. x) r = r \<Longrightarrow> apply_flag given (Uint32VarP get3 upd3 n sh d3) r = upd3 (\<lambda>old. uint32_arg (given n) old) r"
  "upd4 (\<lambda>x. x) r = r \<Longrightarrow> apply_flag given (DurationVarP get4 upd4 n sh d4) r = upd4 (\<lambda>old. duration_arg (given n) old) r"
  "upd5 (\<lambda>x. x) r = r \<Longrightarrow> apply_flag given (StringSliceVar get5 upd5 n d5) r = upd5 (\<lambda>old. strings_arg (given n) old) r"
  "upd6 (\<lambda>x. x) r = r \<Longrightarrow> apply_flag given (StringToStringVar get6 upd6 n d6) r = upd6 (\<lambda>old. map_arg (given n) old) r"
  by (auto simp: apply_flag_def flag_defs arg_defs split: option.splits flag_value.splits)

lemma apply_lifted:
  assumes "\<And>r. upd (\<lambda>x. x) r = r" and "\<And>f g r. upd f (upd g r) = upd (\<lambda>x. f (g x)) r"
  shows "fold (apply_flag given) (map (lift_flag get upd) fs) r = upd (fold (apply_flag given) fs) r"
proof (induction fs arbitrary: r)
  case Nil
  show ?case using assms(1) by (simp add: id_def)
next
  case (Cons f fs)
  have "apply_flag given (lift_flag get upd f) r = upd (apply_flag given f) r"
    using assms(1) by (simp add: apply_flag_def lift_flag_def split: option.splits)
  with Cons assms(2) show ?case by (simp add: comp_def)
qed

lemma apply_parts:
  "fold (apply_flag given) (map (lift_flag ao_CertManager ao_CertManager_update) cs) r =
     ao_CertManager_update (fold (apply_flag given) cs) r"
  "fold (apply_flag given) (map (lift_flag ao_TLS ao_TLS_update) ts) r = ao_TLS_update (fold (apply_flag given) ts) r"
  "fold (apply_flag given) (map (lift_flag ao_Server ao_Server_update) ss) r =
     ao_Server_update (fold (apply_flag given) ss) r"
  "fold (apply_flag given) (map (lift_flag ao_Controller ao_Controller_update) ks) r =
     ao_Controller_update (fold (apply_flag given) ks) r"
  "fold (apply_flag given) (map (lift_flag ao_IstiodCert ao_IstiodCert_update) is') r =
     ao_IstiodCert_update (fold (apply_flag given) is') r"
  by (rule apply_lifted; simp add: comp_def)+

lemma apply_CertManager:
  "fold (apply_flag given) (addCertManagerFlags @ addAdditionalAnnotationsFlags) (ao_CertManager default_options) =
     \<lparr>opt_PreserveCertificateRequests = bool_arg (given ''preserve-certificate-requests'') False,
         opt_Namespace = string_arg (given ''certificate-namespace'') ''istio-system'',
         opt_DefaultIssuerEnabled = bool_arg (given ''issuer-enabled'') True,
         opt_IssuerRef = \<lparr>ir_Name = string_arg (given ''issuer-name'') ''istio-ca'',
           ir_Kind = string_arg (given ''issuer-kind'') ''Issuer'',
           ir_Group = string_arg (given ''issuer-group'') ''cert-manager.io''\<rparr>,
         opt_IssuanceConfigMapName = string_arg (given ''runtime-issuance-config-map-name'') [],
         opt_IssuanceConfigMapNamespace = string_arg (given ''runtime-issuance-config-map-namespace'') [],
         opt_AdditionalAnnotations = map_arg (given ''certificate-request-additional-annotations'') []\<rparr>"
  by (simp add: addCertManagerFlags_def addAdditionalAnnotationsFlags_def default_options_def apply_flag_var)

lemma apply_TLS:
  "fold (apply_flag given) (addTLSFlags (ao_TLS Options_New)) (ao_TLS default_options) =
     \<lparr>to_TrustDomain = string_arg (given ''trust-domain'') ''cluster.local'',
         to_RootCAsCertFile = string_arg (given ''root-ca-file'') [],
         to_ServingCertificateDuration = duration_arg (given ''serving-certificate-duration'') time_Hour,
         to_ServingCertificateDNSNames = strings_arg (given ''serving-certificate-dns-names'')
           [''cert-manager-istio-csr.cert-manager.svc''],
         to_ServingCertificateKeySize = int_arg (given ''serving-certificate-key-size'') 2048,
         to_ServingSignatureAlgorithm = string_arg (given ''serving-signature-algorithm'') ''RSA'',
         to_ServingTLSMinVersion = string_arg (given ''serving-tls-min-version'') [],
         to_ServingTLSCipherSuites = strings_arg (given ''serving-tls-cipher-suites'') [],
         to_ServingTLSCurvePreferences = strings_arg (given ''serving-tls-curve-preferences'') []\<rparr>"
  by (simp add: addTLSFlags_def Options_New_def default_options_def apply_flag_var)

lemma apply_Server:
  "fold (apply_flag given) addServerFlags (ao_Server default_options) =
     \<lparr>so_ClusterID = string_arg (given ''cluster-id'') ''Kubernetes'',
         so_ServingAddress = string_arg (given ''serving-address'') ''0.0.0.0:6443'',
         so_MaximumClientCertificateDuration = duration_arg (given ''max-client-certificate-duration'') time_Hour,
         so_EnableClientCert = bool_arg (given ''enable-client-cert-authenticator'') False,
         so_CATrustedNodeAccounts = strings_arg (given ''ca-trusted-node-accounts'') []\<rparr>"
  by (simp add: addServerFlags_def default_options_def apply_flag_var)

lemma apply_Controller:
  "fold (apply_flag given) addControllerFlags (ao_Controller default_options) =
     \<lparr>oc_LeaderElectionNamespace = string_arg (given ''leader-election-namespace'') ''istio-system'',
         oc_ConfigMapNamespaceSelector = string_arg (given ''configmap-namespace-selector'') [],
         oc_DisableKubernetesClientRateLimiter = bool_arg (given ''disable-kubernetes-client-rate-limiter'') False,
         oc_MaxConcurrentReconciles = int_arg (given ''max-concurrent-reconciles'') 1\<rparr>"
  by (simp add: addControllerFlags_def default_options_def apply_flag_var)

lemma apply_Istiod:
  "fold (apply_flag given) istiodcert_AddFlags (ao_IstiodCert default_options) =
     \<lparr>io_Enabled = bool_arg (given ''istiod-cert-enabled'') False,
         io_CertificateName = string_arg (given ''istiod-cert-name'') ''istiod-dynamic'',
         io_CertificateNamespace = string_arg (given ''istiod-cert-namespace'') ''istio-system'',
         io_Duration = duration_arg (given ''istiod-cert-duration'') time_Hour,
         io_RenewBefore = duration_arg (given ''istiod-cert-renew-before'') (1800 * time_Second),
         io_KeyAlgorithm = string_arg (given ''istiod-cert-key-algorithm'') ''RSA'',
         io_KeySize = int_arg (given ''istiod-cert-key-size'') 2048,
         io_CMKeyAlgorithm = NoKeyAlgorithm,
         io_AdditionalDNSNames = strings_arg (given ''istiod-cert-additional-dns-names'') [],
         io_AdditionalAnnotations = map_arg (given ''istiod-cert-additional-annotations'') [],
         io_IstioRevisions = strings_arg (given ''istiod-cert-istio-revisions'') [],
         io_MaxConcurrentReconciles = 0\<rparr>"
  by (simp add: istiodcert_AddFlags_def minRSAKeySize_def default_options_def apply_flag_var)

lemma apply_App:
  "fold (apply_flag given) addAppFlags r =
     r\<lparr>ao_logLevel := uint32_arg (given ''log-level'') (ao_logLevel r),
       ao_logFormat := string_arg (given ''log-format'') (ao_logFormat r),
       ao_ReadyzPort := int_arg (given ''readiness-probe-port'') (ao_ReadyzPort r),
       ao_ReadyzPath := string_arg (given ''readiness-probe-path'') (ao_ReadyzPath r),
       ao_MetricsPort := int_arg (given ''metrics-port'') (ao_MetricsPort r)\<rparr>"
  by (cases r) (simp add: addAppFlags_def apply_flag_var)

lemma apply_all:
  "fold (apply_flag given) (addFlags o') r =
     ao_IstiodCert_update (fold (apply_flag given) istiodcert_AddFlags)
       (ao_Controller_update (fold (apply_flag given) addControllerFlags)
         (ao_Server_update (fold (apply_flag given) addServerFlags)
           (ao_TLS_update (fold (apply_flag given) (addTLSFlags (ao_TLS o')))
             (ao_CertManager_update (fold (apply_flag given) (addCertManagerFlags @ addAdditionalAnnotationsFlags))
               (fold (apply_flag given) addAppFlags r)))))"
  by (simp add: addFlags_def apply_parts)

section \<open>Properties\<close>

lemma distinct_filter_append:
  "distinct (filter P xs) \<Longrightarrow> distinct (filter P ys) \<Longrightarrow> (\<And>x. x \<in> set xs \<Longrightarrow> x \<in> set ys \<Longrightarrow> \<not> P x) \<Longrightarrow>
   distinct (filter P (xs @ ys))"
  by auto

text \<open>
  The flags that the library for Kubernetes clients declares, as name and shorthand: a list with
  distinct entries out of the documented ones.
\<close>

definition kube_flag_names :: "string list" where
  "kube_flag_names = [''kubeconfig'', ''cache-dir'', ''client-certificate'', ''client-key'', ''token'', ''as'',
     ''as-uid'', ''as-group'', ''as-user-extra'', ''username'', ''password'', ''cluster'', ''user'', ''namespace'',
     ''context'', ''server'', ''tls-server-name'', ''insecure-skip-tls-verify'', ''certificate-authority'',
     ''request-timeout'', ''disable-compression'']"

definition kube_flags_law :: "(string \<times> string) list \<Rightarrow> bool" where
  "kube_flags_law kube \<longleftrightarrow>
     distinct (map fst kube) \<and> set (map fst kube) \<subseteq> set kube_flag_names \<and>
     distinct (filter (\<lambda>s. s \<noteq> []) (map snd kube)) \<and> set (map snd kube) \<subseteq> {[], ''n'', ''s''}"

text \<open>
  Flags do not clash: no two flags of the program, those of the Kubernetes client included, have a
  name or a shorthand in common, so declaring them does not panic and none is lost.
\<close>

lemma flag_names_distinct:
  assumes "kube_flags_law kube"
  shows "distinct (map fl_name (addFlags o') @ map fst kube) \<and>
    distinct (filter (\<lambda>s. s \<noteq> []) (map fl_short (addFlags o') @ map snd kube))"
proof -
  have "set (map fl_name (addFlags o')) \<inter> set kube_flag_names = {}"
    by (simp add: addFlags_def flag_groups flag_defs kube_flag_names_def)
  moreover have kube: "set (map fst kube) \<subseteq> set kube_flag_names" "set (map snd kube) \<subseteq> {[], ''n'', ''s''}"
    using assms by (simp_all add: kube_flags_law_def)
  ultimately have "set (map fl_name (addFlags o')) \<inter> set (map fst kube) = {}" by blast
  moreover have shorts: "set (map fl_short (addFlags o')) \<inter> {''n'', ''s''} = {}"
    by (simp add: addFlags_def flag_groups flag_defs)
  have "distinct (filter (\<lambda>s. s \<noteq> []) (map fl_short (addFlags o')))"
    by (simp add: addFlags_def flag_groups flag_defs)
  then have "distinct (filter (\<lambda>s. s \<noteq> []) (map fl_short (addFlags o') @ map snd kube))"
  proof (rule distinct_filter_append)
    show "distinct (filter (\<lambda>s. s \<noteq> []) (map snd kube))" using assms by (simp add: kube_flags_law_def)
    show "\<not> x \<noteq> []" if "x \<in> set (map fl_short (addFlags o'))" "x \<in> set (map snd kube)" for x
      using that shorts kube(2) by blast
  qed
  moreover have "distinct (map fst kube)" using assms by (simp add: kube_flags_law_def)
  ultimately show ?thesis using all_names [of o'] by (simp only: distinct_append simp_thms)
qed

text \<open>
  C32: The options the program runs with are what the command line says, field by field: which flag
  sets which field, and the default it has when the flag is not given, whatever other flags are given.
\<close>

theorem command_line_exact:
  "command_options given =
     \<lparr>ao_logLevel = uint32_arg (given ''log-level'') 1,
      ao_logFormat = string_arg (given ''log-format'') ''text'',
      ao_ReadyzPort = int_arg (given ''readiness-probe-port'') 6060,
      ao_ReadyzPath = string_arg (given ''readiness-probe-path'') ''/readyz'',
      ao_MetricsPort = int_arg (given ''metrics-port'') 9402,
      ao_RestConfig = None,
      ao_Controller =
        \<lparr>oc_LeaderElectionNamespace = string_arg (given ''leader-election-namespace'') ''istio-system'',
         oc_ConfigMapNamespaceSelector = string_arg (given ''configmap-namespace-selector'') [],
         oc_DisableKubernetesClientRateLimiter = bool_arg (given ''disable-kubernetes-client-rate-limiter'') False,
         oc_MaxConcurrentReconciles = int_arg (given ''max-concurrent-reconciles'') 1\<rparr>,
      ao_CertManager =
        \<lparr>opt_PreserveCertificateRequests = bool_arg (given ''preserve-certificate-requests'') False,
         opt_Namespace = string_arg (given ''certificate-namespace'') ''istio-system'',
         opt_DefaultIssuerEnabled = bool_arg (given ''issuer-enabled'') True,
         opt_IssuerRef = \<lparr>ir_Name = string_arg (given ''issuer-name'') ''istio-ca'',
           ir_Kind = string_arg (given ''issuer-kind'') ''Issuer'',
           ir_Group = string_arg (given ''issuer-group'') ''cert-manager.io''\<rparr>,
         opt_IssuanceConfigMapName = string_arg (given ''runtime-issuance-config-map-name'') [],
         opt_IssuanceConfigMapNamespace = string_arg (given ''runtime-issuance-config-map-namespace'') [],
         opt_AdditionalAnnotations = map_arg (given ''certificate-request-additional-annotations'') []\<rparr>,
      ao_TLS =
        \<lparr>to_TrustDomain = string_arg (given ''trust-domain'') ''cluster.local'',
         to_RootCAsCertFile = string_arg (given ''root-ca-file'') [],
         to_ServingCertificateDuration = duration_arg (given ''serving-certificate-duration'') time_Hour,
         to_ServingCertificateDNSNames = strings_arg (given ''serving-certificate-dns-names'')
           [''cert-manager-istio-csr.cert-manager.svc''],
         to_ServingCertificateKeySize = int_arg (given ''serving-certificate-key-size'') 2048,
         to_ServingSignatureAlgorithm = string_arg (given ''serving-signature-algorithm'') ''RSA'',
         to_ServingTLSMinVersion = string_arg (given ''serving-tls-min-version'') [],
         to_ServingTLSCipherSuites = strings_arg (given ''serving-tls-cipher-suites'') [],
         to_ServingTLSCurvePreferences = strings_arg (given ''serving-tls-curve-preferences'') []\<rparr>,
      ao_Server =
        \<lparr>so_ClusterID = string_arg (given ''cluster-id'') ''Kubernetes'',
         so_ServingAddress = string_arg (given ''serving-address'') ''0.0.0.0:6443'',
         so_MaximumClientCertificateDuration = duration_arg (given ''max-client-certificate-duration'') time_Hour,
         so_EnableClientCert = bool_arg (given ''enable-client-cert-authenticator'') False,
         so_CATrustedNodeAccounts = strings_arg (given ''ca-trusted-node-accounts'') []\<rparr>,
      ao_IstiodCert =
        \<lparr>io_Enabled = bool_arg (given ''istiod-cert-enabled'') False,
         io_CertificateName = string_arg (given ''istiod-cert-name'') ''istiod-dynamic'',
         io_CertificateNamespace = string_arg (given ''istiod-cert-namespace'') ''istio-system'',
         io_Duration = duration_arg (given ''istiod-cert-duration'') time_Hour,
         io_RenewBefore = duration_arg (given ''istiod-cert-renew-before'') (1800 * time_Second),
         io_KeyAlgorithm = string_arg (given ''istiod-cert-key-algorithm'') ''RSA'',
         io_KeySize = int_arg (given ''istiod-cert-key-size'') 2048,
         io_CMKeyAlgorithm = NoKeyAlgorithm,
         io_AdditionalDNSNames = strings_arg (given ''istiod-cert-additional-dns-names'') [],
         io_AdditionalAnnotations = map_arg (given ''istiod-cert-additional-annotations'') [],
         io_IstioRevisions = strings_arg (given ''istiod-cert-istio-revisions'') [],
         io_MaxConcurrentReconciles = 0\<rparr>\<rparr>"
proof -
  note fields = apply_CertManager apply_TLS apply_Server apply_Controller apply_Istiod
  let ?d = default_options
  have "command_options given = fold (apply_flag given) (addFlags Options_New) ?d"
    by (simp only: command_options_def Prepare_default parse_flags_apply)
  also have "\<dots> = fold (apply_flag given) addAppFlags ?d
      \<lparr>ao_CertManager := fold (apply_flag given) (addCertManagerFlags @ addAdditionalAnnotationsFlags) (ao_CertManager ?d),
       ao_TLS := fold (apply_flag given) (addTLSFlags (ao_TLS Options_New)) (ao_TLS ?d),
       ao_Server := fold (apply_flag given) addServerFlags (ao_Server ?d),
       ao_Controller := fold (apply_flag given) addControllerFlags (ao_Controller ?d),
       ao_IstiodCert := fold (apply_flag given) istiodcert_AddFlags (ao_IstiodCert ?d)\<rparr>"
    unfolding apply_all apply_App by (rule AppOptions.equality) simp_all
  finally show ?thesis unfolding fields apply_App by (simp add: default_options_def)
qed

end
