(* ===== verification/Work_Queue.thy ===== *)
theory Work_Queue
  imports Istio_Prelude
begin

text \<open>
  What the two controllers rely on of the work queue that calls their \<open>Reconcile\<close>. The queue is part
  of controller-runtime, not of the repository; \<open>queue_step\<close> is its documented behaviour as a
  relation that leaves every choice open: which request is taken next, when, and what happens in
  between. The contract of a reconciler is the locale \<open>reconciler\<close>: what a call that asks for no
  further one achieves, and what it leaves alone. The lemmas proved in it are about every order of
  events, and both controllers are instances.

  A state holds the requests that wait, the requests in progress (each with what \<open>Reconcile\<close> has read
  of the environment, once it has read it), the environment (informer caches and the fields of the
  controller) and the world (the objects behind the API).
\<close>

section \<open>The queue\<close>

record ('k, 'e, 'w) work_queue =
  wq_queue :: "'k set"
  wq_active :: "'k \<rightharpoonup> 'e option"
  wq_env :: 'e
  wq_world :: 'w

text \<open>
  A reconciler maps what it read of the environment, the world and the request to whether the request
  has to be tried again (an error, or a delay was asked for) and the new world.
\<close>

type_synonym ('k, 'e, 'w) reconcile = "'e \<Rightarrow> 'w \<Rightarrow> 'k \<Rightarrow> bool \<times> 'w"

text \<open>
  The end of a call: the request is queued again when it has to be tried again, and when the call
  wrote (the watch reports the write).
\<close>

definition finish_call ::
  "('k, 'e, 'w) work_queue \<Rightarrow> 'k \<Rightarrow> bool \<Rightarrow> 'w \<Rightarrow> ('k, 'e, 'w) work_queue" where
  "finish_call s k again w =
     s\<lparr>wq_queue := (if again \<or> w \<noteq> wq_world s then insert k (wq_queue s) else wq_queue s),
       wq_active := (wq_active s)(k := None), wq_world := w\<rparr>"

text \<open>
  The steps of the workers. A request is never worked on twice at the same time; one that arrives
  meanwhile waits.
\<close>

inductive work_step ::
  "('k, 'e, 'w) reconcile \<Rightarrow> ('k, 'e, 'w) work_queue \<Rightarrow> ('k, 'e, 'w) work_queue \<Rightarrow> bool"
  for reconcile :: "('k, 'e, 'w) reconcile" where
  Take: "k \<in> wq_queue s \<Longrightarrow> wq_active s k = None \<Longrightarrow>
    work_step reconcile s (s\<lparr>wq_queue := wq_queue s - {k}, wq_active := (wq_active s)(k \<mapsto> None)\<rparr>)"
| Read: "wq_active s k = Some None \<Longrightarrow>
    work_step reconcile s (s\<lparr>wq_active := (wq_active s)(k \<mapsto> Some (wq_env s))\<rparr>)"
| Finish: "wq_active s k = Some (Some e) \<Longrightarrow> reconcile e (wq_world s) k = (again, w) \<Longrightarrow>
    work_step reconcile s (finish_call s k again w)"

text \<open>
  All steps: those of the workers, calls that fail included; a change of the environment and a change
  of the world by someone else, each with the requests it enqueues.
\<close>

inductive queue_step ::
  "('k, 'e, 'w) reconcile \<Rightarrow> ('e \<Rightarrow> 'e \<Rightarrow> 'k set \<Rightarrow> bool) \<Rightarrow> ('w \<Rightarrow> 'w \<Rightarrow> 'k set \<Rightarrow> bool) \<Rightarrow>
   ('k, 'e, 'w) work_queue \<Rightarrow> ('k, 'e, 'w) work_queue \<Rightarrow> bool"
  for reconcile :: "('k, 'e, 'w) reconcile" and notifies touches where
  Work: "work_step reconcile s s' \<Longrightarrow> queue_step reconcile notifies touches s s'"
| Env: "notifies (wq_env s) e K \<Longrightarrow>
    queue_step reconcile notifies touches s (s\<lparr>wq_env := e, wq_queue := wq_queue s \<union> K\<rparr>)"
| World: "touches (wq_world s) w K \<Longrightarrow>
    queue_step reconcile notifies touches s (s\<lparr>wq_world := w, wq_queue := wq_queue s \<union> K\<rparr>)"

lemma finish_call_simps [simp]:
  "wq_queue (finish_call s k again w) =
     (if again \<or> w \<noteq> wq_world s then insert k (wq_queue s) else wq_queue s)"
  "wq_active (finish_call s k again w) = (wq_active s)(k := None)"
  "wq_env (finish_call s k again w) = wq_env s" "wq_world (finish_call s k again w) = w"
  by (simp_all add: finish_call_def)

inductive_cases work_stepE: "work_step reconcile s s'"
inductive_cases queue_stepE: "queue_step reconcile notifies touches s s'"

definition quiescent :: "('k, 'e, 'w) work_queue \<Rightarrow> bool" where
  "quiescent s \<longleftrightarrow> wq_queue s = {} \<and> wq_active s = Map.empty"

definition pending :: "('k, 'e, 'w) work_queue \<Rightarrow> 'k set" where
  "pending s = wq_queue s \<union> dom (wq_active s)"

lemma work_step_pending: "work_step reconcile s s' \<Longrightarrow> pending s' \<subseteq> pending s"
  by (erule work_stepE) (auto simp: pending_def split: if_splits)

lemma work_step_env: "work_step reconcile s s' \<Longrightarrow> wq_env s' = wq_env s"
  by (erule work_stepE) auto

text \<open>A worker can always go on, until nothing is left to do.\<close>

lemma work_step_exists:
  assumes "\<not> quiescent s"
  shows "\<exists>s'. work_step reconcile s s'"
proof (cases "wq_active s = Map.empty")
  case True
  with assms obtain k where "k \<in> wq_queue s" by (auto simp: quiescent_def)
  with True show ?thesis by (metis work_step.Take)
next
  case False
  then obtain k v where "wq_active s k = Some v" by (metis not_Some_eq ext)
  then show ?thesis by (cases v) (metis work_step.Read, metis prod.collapse work_step.Finish)
qed

section \<open>The contract of a reconciler\<close>

text \<open>
  Two environments look the same to a request when neither the call nor its goal tells them apart.
\<close>

definition agrees ::
  "('k, 'e, 'w) reconcile \<Rightarrow> ('e \<Rightarrow> 'w \<Rightarrow> 'k \<Rightarrow> bool) \<Rightarrow> 'e \<Rightarrow> 'e \<Rightarrow> 'k \<Rightarrow> bool" where
  "agrees reconcile good e e' k \<longleftrightarrow>
     (\<forall>w. reconcile e w k = reconcile e' w k \<and> good e w k = good e' w k)"

text \<open>
  In the worlds \<open>up\<close>, which calls do not leave, no call that has read the environment \<open>e\<close> has to be
  repeated.
\<close>

definition smooth :: "('k, 'e, 'w) reconcile \<Rightarrow> ('w \<Rightarrow> bool) \<Rightarrow> 'e \<Rightarrow> bool" where
  "smooth reconcile up e \<longleftrightarrow>
     (\<forall>w k. up w \<longrightarrow> \<not> fst (reconcile e w k)) \<and> (\<forall>e' w k. up w \<longrightarrow> up (snd (reconcile e' w k)))"

lemma smooth_work:
  assumes "smooth reconcile up e" "work_step reconcile s s'" "up (wq_world s)"
  shows "up (wq_world s')"
  using assms(2)
proof (rule work_stepE)
  fix k e again w
  assume "s' = finish_call s k again w" "reconcile e (wq_world s) k = (again, w)"
  moreover from this(2) assms(1,3) have "up w" unfolding smooth_def by (metis snd_conv)
  ultimately show ?thesis by simp
qed (use assms(3) in simp_all)

text \<open>
  \<open>law\<close> is what is assumed of the API; \<open>good e w k\<close> is the goal of request \<open>k\<close>. A call that need not
  be repeated reaches its goal, no call affects another request's goal, one whose goal is reached
  writes nothing, and every change that a request's goal or call could notice enqueues it.
\<close>

locale reconciler =
  fixes law :: bool
    and reconcile :: "('k, 'e, 'w) reconcile"
    and notifies :: "'e \<Rightarrow> 'e \<Rightarrow> 'k set \<Rightarrow> bool"
    and touches :: "'w \<Rightarrow> 'w \<Rightarrow> 'k set \<Rightarrow> bool"
    and good :: "'e \<Rightarrow> 'w \<Rightarrow> 'k \<Rightarrow> bool"
  assumes reaches_goal: "law \<Longrightarrow> reconcile e w k = (False, w') \<Longrightarrow> good e w' k"
    and isolated: "law \<Longrightarrow> reconcile e w k = (again, w') \<Longrightarrow> k' \<noteq> k \<Longrightarrow> good e' w' k' = good e' w k'"
    and idle: "law \<Longrightarrow> good e w k \<Longrightarrow> reconcile e w k = (again, w') \<Longrightarrow> w' = w"
    and notified: "law \<Longrightarrow> notifies e e' K \<Longrightarrow> k \<notin> K \<Longrightarrow> agrees reconcile good e e' k"
    and touched: "law \<Longrightarrow> touches w w' K \<Longrightarrow> k \<notin> K \<Longrightarrow> good e w' k = good e w k"
begin

text \<open>
  The invariant: a request that does not wait is in progress and has read nothing that is out of
  date, or its goal is reached.
\<close>

definition on_track :: "'e \<Rightarrow> 'w \<Rightarrow> 'e option option \<Rightarrow> 'k \<Rightarrow> bool" where
  "on_track e w call k =
     (case call of None \<Rightarrow> good e w k | Some None \<Rightarrow> True | Some (Some e') \<Rightarrow> agrees reconcile good e' e k)"

definition settled :: "('k, 'e, 'w) work_queue \<Rightarrow> bool" where
  "settled s \<longleftrightarrow> (\<forall>k. k \<in> wq_queue s \<or> on_track (wq_env s) (wq_world s) (wq_active s k) k)"

lemma on_track_simps [simp]:
  "on_track e w None k = good e w k" "on_track e w (Some None) k"
  "on_track e w (Some (Some e')) k = agrees reconcile good e' e k"
  by (simp_all add: on_track_def)

lemma on_track_world:
  "good e w' k = good e w k \<Longrightarrow> on_track e w' call k = on_track e w call k"
  by (simp add: on_track_def split: option.splits)

lemma on_track_env:
  "agrees reconcile good e e' k \<Longrightarrow> on_track e' w call k = on_track e w call k"
  by (auto simp: on_track_def agrees_def split: option.splits)

lemma settled_finish:
  assumes law and "settled s" and act: "wq_active s k = Some (Some e)"
    and r: "reconcile e (wq_world s) k = (again, w)"
  shows "settled (finish_call s k again w)"
  unfolding settled_def
proof
  fix k'
  let ?s = "finish_call s k again w"
  show "k' \<in> wq_queue ?s \<or> on_track (wq_env ?s) (wq_world ?s) (wq_active ?s k') k'"
  proof (cases "k' = k")
    case False
    from on_track_world [OF isolated [OF \<open>law\<close> r False]] assms(2) False show ?thesis
      by (auto simp: settled_def)
  next
    case True
    show ?thesis
    proof (cases "k \<in> wq_queue ?s")
      case False
      then have w: "\<not> again" "w = wq_world s" "k \<notin> wq_queue s" by (auto split: if_splits)
      with assms(2) act have "agrees reconcile good e (wq_env s) k" by (auto simp: settled_def)
      with r w(1) have "reconcile (wq_env s) (wq_world s) k = (False, w)" by (simp add: agrees_def)
      with reaches_goal [OF \<open>law\<close>] True show ?thesis by auto
    qed (simp add: True)
  qed
qed

lemma settled_work:
  assumes law and "settled s" and "work_step reconcile s s'"
  shows "settled s'"
  using assms(3)
proof (rule work_stepE)
  fix k e again w
  assume "s' = finish_call s k again w" "wq_active s k = Some (Some e)" "reconcile e (wq_world s) k = (again, w)"
  with settled_finish [OF assms(1,2)] show ?thesis by simp
qed (use assms(2) in \<open>auto simp: settled_def agrees_def\<close>)

lemma settled_step:
  assumes law and "settled s" and "queue_step reconcile notifies touches s s'"
  shows "settled s'"
  using assms(3)
proof (rule queue_stepE)
  assume "work_step reconcile s s'"
  with assms(1,2) show ?thesis by (rule settled_work)
next
  fix e K
  assume s': "s' = s\<lparr>wq_env := e, wq_queue := wq_queue s \<union> K\<rparr>" and n: "notifies (wq_env s) e K"
  from on_track_env [OF notified [OF assms(1) n]] assms(2) show ?thesis by (auto simp: settled_def s')
next
  fix w K
  assume s': "s' = s\<lparr>wq_world := w, wq_queue := wq_queue s \<union> K\<rparr>" and t: "touches (wq_world s) w K"
  from on_track_world [OF touched [OF assms(1) t]] assms(2) show ?thesis by (auto simp: settled_def s')
qed

lemma settled_run:
  "(queue_step reconcile notifies touches)\<^sup>*\<^sup>* s s' \<Longrightarrow> law \<Longrightarrow> settled s \<Longrightarrow> settled s'"
  by (induction rule: rtranclp_induct) (auto intro: settled_step)

lemma settled_quiescent: "settled s \<Longrightarrow> quiescent s \<Longrightarrow> good (wq_env s) (wq_world s) k"
  by (auto simp: settled_def quiescent_def)

text \<open>Nothing is lost: a state at rest is one in which every goal is reached.\<close>

lemma quiescent_good:
  assumes law and "wq_active s0 = Map.empty"
    and "\<And>k. k \<in> wq_queue s0 \<or> good (wq_env s0) (wq_world s0) k"
    and "(queue_step reconcile notifies touches)\<^sup>*\<^sup>* s0 s" and "quiescent s"
  shows "good (wq_env s) (wq_world s) k"
proof -
  have "settled s0" using assms(2,3) by (auto simp: settled_def)
  with settled_run [OF assms(4,1)] have "settled s" .
  then show ?thesis using assms(5) by (rule settled_quiescent)
qed

text \<open>
  What is left to do, as a number: for each pending request the steps it has before it, and four for
  each reason to expect a further write: a goal not reached, a call that read something out of date.
\<close>

definition call_effort :: "'e \<Rightarrow> 'e option option \<Rightarrow> 'k \<Rightarrow> nat" where
  "call_effort e call k =
     (case call of None \<Rightarrow> 0 | Some None \<Rightarrow> 2
      | Some (Some e') \<Rightarrow> if agrees reconcile good e' e k then 1 else 5)"

definition effort :: "('k, 'e, 'w) work_queue \<Rightarrow> 'k \<Rightarrow> nat" where
  "effort s k =
     (if k \<in> wq_queue s then 3 else 0) + call_effort (wq_env s) (wq_active s k) k
     + (if good (wq_env s) (wq_world s) k then 0 else 4)"

lemma call_effort_simps [simp]:
  "call_effort e None k = 0" "call_effort e (Some None) k = 2"
  "call_effort e (Some (Some e')) k = (if agrees reconcile good e' e k then 1 else 5)"
  by (simp_all add: call_effort_def)

lemma effort_finish:
  assumes law and "settled s" and "smooth reconcile up (wq_env s)" and "up (wq_world s)"
    and act: "wq_active s k = Some (Some e)" and r: "reconcile e (wq_world s) k = (again, w)"
  shows "effort (finish_call s k again w) k < effort s k"
proof (cases "agrees reconcile good e (wq_env s) k")
  case True
  with r have r': "reconcile (wq_env s) (wq_world s) k = (again, w)" by (simp add: agrees_def)
  with assms(3,4) have again: "\<not> again" unfolding smooth_def by (metis fst_conv)
  with reaches_goal [OF assms(1)] r' have "good (wq_env s) w k" by simp
  moreover have "w = wq_world s" if "good (wq_env s) (wq_world s) k" using idle [OF assms(1) that r'] .
  ultimately show ?thesis using act True again by (auto simp: effort_def)
next
  case False
  with assms(2) act have "k \<in> wq_queue s" by (fastforce simp: settled_def)
  with False act show ?thesis by (auto simp: effort_def)
qed

lemma effort_other:
  assumes law and "reconcile e (wq_world s) k = (again, w)" and "k' \<noteq> k"
  shows "effort (finish_call s k again w) k' = effort s k'"
  using isolated [OF assms, of "wq_env s"] assms(3) by (auto simp: effort_def)

lemma effort_step:
  assumes law and "settled s" and "smooth reconcile up (wq_env s)" and "up (wq_world s)" and "work_step reconcile s s'"
  shows "\<exists>k \<in> pending s. effort s' k < effort s k \<and> (\<forall>k'. k' \<noteq> k \<longrightarrow> effort s' k' = effort s k')"
  using assms(5)
proof (rule work_stepE)
  fix k
  assume "s' = s\<lparr>wq_queue := wq_queue s - {k}, wq_active := (wq_active s)(k \<mapsto> None)\<rparr>"
    "k \<in> wq_queue s" "wq_active s k = None"
  then show ?thesis by (intro bexI [of _ k]) (auto simp: effort_def pending_def)
next
  fix k
  assume "s' = s\<lparr>wq_active := (wq_active s)(k \<mapsto> Some (wq_env s))\<rparr>" "wq_active s k = Some None"
  then show ?thesis by (intro bexI [of _ k]) (auto simp: effort_def pending_def agrees_def)
next
  fix k e again w
  assume "s' = finish_call s k again w" and act: "wq_active s k = Some (Some e)"
    and r: "reconcile e (wq_world s) k = (again, w)"
  then show ?thesis
    using effort_finish [OF assms(1-4) act] effort_other [OF assms(1) r]
    by (intro bexI [of _ k]) (auto simp: pending_def)
qed

lemma effort_sum:
  assumes law "settled s" "smooth reconcile up (wq_env s)" "up (wq_world s)" "work_step reconcile s s'"
    and "finite A" "pending s \<subseteq> A"
  shows "sum (effort s') A < sum (effort s) A"
proof -
  obtain k where "k \<in> pending s" "effort s' k < effort s k" "\<forall>k'. k' \<noteq> k \<longrightarrow> effort s' k' = effort s k'"
    using effort_step [OF assms(1-5)] by blast
  then have "k \<in> A" "effort s' k < effort s k" "effort s' x \<le> effort s x" for x
    using assms(7) by (blast, blast, cases "x = k") auto
  then show ?thesis using assms(6) by (intro sum_strict_mono_ex1) auto
qed

lemma effort_le: "effort s k \<le> 12"
  by (auto simp: effort_def call_effort_def split: option.splits)

lemma work_bounded_sum:
  "((work_step reconcile) ^^ n) s s' \<Longrightarrow> law \<Longrightarrow> settled s \<Longrightarrow> smooth reconcile up (wq_env s) \<Longrightarrow>
   up (wq_world s) \<Longrightarrow> finite A \<Longrightarrow> pending s \<subseteq> A \<Longrightarrow> n + sum (effort s') A \<le> sum (effort s) A"
proof (induction n arbitrary: s)
  case (Suc n)
  from Suc.prems(1) obtain s1 where s1: "work_step reconcile s s1"
    and rest: "((work_step reconcile) ^^ n) s1 s'"
    by (meson relpowp_Suc_E2)
  have "n + sum (effort s') A \<le> sum (effort s1) A"
    using Suc.IH [OF rest Suc.prems(2) settled_work [OF Suc.prems(2,3) s1] _ smooth_work [OF Suc.prems(4) s1 Suc.prems(5)] Suc.prems(6)]
      work_step_env [OF s1] work_step_pending [OF s1] Suc.prems(4,7) by auto
  with effort_sum [OF Suc.prems(2-5) s1 Suc.prems(6,7)] show ?case by simp
qed simp

text \<open>
  The work ends: while nothing else happens and no call that reads the present environment fails,
  the workers make at most twelve steps for each pending request.
\<close>

lemma work_bounded:
  assumes law "settled s" "smooth reconcile up (wq_env s)" "up (wq_world s)" "finite (pending s)"
    and "((work_step reconcile) ^^ n) s s'"
  shows "n \<le> 12 * card (pending s)"
proof -
  have "n \<le> sum (effort s) (pending s)"
    using work_bounded_sum [OF assms(6,1-5) order_refl] by simp
  also have "\<dots> \<le> of_nat (card (pending s)) * 12" by (rule sum_bounded_above) (rule effort_le)
  finally show ?thesis by simp
qed

lemma work_drains:
  assumes law "settled s" "smooth reconcile up (wq_env s)" "up (wq_world s)" "finite (pending s)"
  shows "\<exists>s'. (work_step reconcile)\<^sup>*\<^sup>* s s' \<and> quiescent s' \<and> wq_env s' = wq_env s"
  using assms(2-5)
proof (induction "sum (effort s) (pending s)" arbitrary: s rule: less_induct)
  case less
  show ?case
  proof (cases "quiescent s")
    case False
    then obtain s1 where s1: "work_step reconcile s s1" using work_step_exists by blast
    have fin: "finite (pending s1)" using work_step_pending [OF s1] less.prems(4) by (rule finite_subset)
    have "sum (effort s1) (pending s1) \<le> sum (effort s1) (pending s)"
      by (rule sum_mono2 [OF less.prems(4) work_step_pending [OF s1]]) simp
    also have "\<dots> < sum (effort s) (pending s)" by (rule effort_sum [OF assms(1) less.prems(1-3) s1 less.prems(4) order_refl])
    finally obtain s' where "(work_step reconcile)\<^sup>*\<^sup>* s1 s'" "quiescent s'" "wq_env s' = wq_env s1"
      using less.hyps [OF _ settled_work [OF assms(1) less.prems(1) s1] _ smooth_work [OF less.prems(2) s1 less.prems(3)]] less.prems(2) fin
      by (auto simp: work_step_env [OF s1])
    with s1 show ?thesis by (metis converse_rtranclp_into_rtranclp work_step_env)
  qed auto
qed

end

end
