(* ===== verification/Configmap_Controller.thy ===== *)
theory Configmap_Controller
  imports Kube_Store Tls_Interface
begin

text \<open>
  \<open>pkg/controller/configmap.go\<close>: the controller that keeps the ConfigMap with the mesh's root
  certificates in every selected namespace. The API client is a \<open>kube_client\<close>, the informer's view
  of namespaces and the label selector are arguments.
\<close>

section \<open>Model\<close>

definition configMapNameIstioRoot :: string where
  "configMapNameIstioRoot = ''istio-ca-root-cert''"

definition configMapLabelKey :: string where
  "configMapLabelKey = ''istio.io/config''"

definition rootCertKey :: string where
  "rootCertKey = ''root-cert.pem''"

datatype NamespacePhase = NamespaceActive | NamespaceTerminating

record Namespace =
  ns_Name :: string
  ns_Labels :: strmap
  ns_Phase :: NamespacePhase

text \<open>A ConfigMap; its maps may be nil.\<close>

record KConfigMap =
  km_Namespace :: string
  km_Name :: string
  km_Labels :: "strmap option"
  km_Data :: "strmap option"

definition km_key :: "KConfigMap \<Rightarrow> string \<times> string" where
  "km_key cm = (km_Namespace cm, km_Name cm)"

record configmap =
  ctl_namespaceSelector :: "strmap \<Rightarrow> bool"
  ctl_rootCAsPEM :: string

record Result =
  res_RequeueAfter :: duration

definition done_Result :: Result where
  "done_Result = \<lparr>res_RequeueAfter = 0\<rparr>"

text \<open>The object \<open>Reconcile\<close> creates.\<close>

definition new_configmap :: "string \<Rightarrow> string \<Rightarrow> KConfigMap" where
  "new_configmap namespace rootCAsPEM =
     \<lparr>km_Namespace = namespace, km_Name = configMapNameIstioRoot,
      km_Labels = Some [(configMapLabelKey, ''true'')], km_Data = Some [(rootCertKey, rootCAsPEM)]\<rparr>"

text \<open>The comparison and repair of an existing one: whether an update is needed, and the object.\<close>

definition fix_configmap :: "string \<Rightarrow> KConfigMap \<Rightarrow> bool \<times> KConfigMap" where
  "fix_configmap rootCAsPEM configMap =
     (let data0 = (case km_Data configMap of None \<Rightarrow> [] | Some d \<Rightarrow> d);
          labels0 = (case km_Labels configMap of None \<Rightarrow> [] | Some l \<Rightarrow> l);
          unexpected = list_ex (\<lambda>(k, _). k \<noteq> rootCertKey) data0;
          data1 = (if unexpected then [] else data0);
          dataWrong = (map_of data1 rootCertKey = None \<or> map_of data1 rootCertKey \<noteq> Some rootCAsPEM);
          data2 = (if dataWrong then AList.update rootCertKey rootCAsPEM data1 else data1);
          labelWrong = (map_of labels0 configMapLabelKey = None
                        \<or> map_of labels0 configMapLabelKey \<noteq> Some ''true'');
          labels2 = (if labelWrong then AList.update configMapLabelKey ''true'' labels0 else labels0) in
      (unexpected \<or> dataWrong \<or> labelWrong,
       configMap\<lparr>km_Data := Some data2, km_Labels := Some labels2\<rparr>))"

definition Configmap_Reconcile ::
  "(string \<Rightarrow> api_error + Namespace) \<Rightarrow> ('w, KConfigMap) kube_client \<Rightarrow> configmap \<Rightarrow>
   ('w, KConfigMap) kube \<Rightarrow> string \<Rightarrow> Result \<times> api_error option \<times> ('w, KConfigMap) kube" where
  "Configmap_Reconcile lister client c k req_ns =
     (case lister req_ns of
        Inl NotFound \<Rightarrow> (done_Result, None, k)
      | Inl err \<Rightarrow> (done_Result, Some err, k)
      | Inr namespace \<Rightarrow>
     if \<not> ctl_namespaceSelector c (ns_Labels namespace) then (done_Result, None, k)
     else if ns_Phase namespace = NamespaceTerminating then (done_Result, None, k)
     else if ctl_rootCAsPEM c = [] then (\<lparr>res_RequeueAfter = 100000000\<rparr>, None, k)
     else
     (case kube_Get client k req_ns configMapNameIstioRoot of
        Inl NotFound \<Rightarrow>
          (case kube_Create client k (new_configmap req_ns (ctl_rootCAsPEM c)) of
             (err, k') \<Rightarrow> (done_Result, err, k'))
      | Inl err \<Rightarrow> (done_Result, Some err, k)
      | Inr configMap \<Rightarrow>
          (case fix_configmap (ctl_rootCAsPEM c) configMap of
             (updateNeeded, fixed) \<Rightarrow>
               if updateNeeded
               then (case kube_Update client k fixed of (err, k') \<Rightarrow> (done_Result, err, k'))
               else (done_Result, None, k))))"

text \<open>
  The function that maps a change of the root certificates to the requests to enqueue: \<open>roots\<close> is
  the value of \<open>c.tls.RootCAs(ctx)\<close>, \<open>namespaceList\<close> that of listing the namespaces; \<open>Exits\<close> is
  \<open>os.Exit(0)\<close>.
\<close>

datatype 'a handler_result = Requests 'a | Exits

definition root_event ::
  "configmap \<Rightarrow> 'c RootCAs option \<Rightarrow> error + Namespace list \<Rightarrow> string list handler_result \<times> configmap" where
  "root_event c roots namespaceList =
     (case roots of
        None \<Rightarrow> (Requests [], c)
      | Some rootCAs \<Rightarrow>
          (let c' = c\<lparr>ctl_rootCAsPEM := rc_PEM rootCAs\<rparr> in
           case namespaceList of
             Inl err \<Rightarrow> (Exits, c')
           | Inr items \<Rightarrow>
               (Requests (map ns_Name (filter (\<lambda>ns. ctl_namespaceSelector c' (ns_Labels ns)) items)), c')))"

text \<open>The predicate and the mapping of the other two watches.\<close>

definition watches_configmap :: "KConfigMap \<Rightarrow> bool" where
  "watches_configmap obj \<longleftrightarrow> km_Name obj = configMapNameIstioRoot"

definition namespace_requests :: "Namespace \<Rightarrow> (string \<times> string) list" where
  "namespace_requests obj = [(ns_Name obj, configMapNameIstioRoot)]"

text \<open>The options of the controller; the controller manager it is registered with is not represented.\<close>

record 'p ConfigMapOptions =
  cmo_TLS :: 'p
  cmo_ConfigMapNamespaceSelector :: string
  cmo_MaxConcurrentReconciles :: int

text \<open>
  \<open>AddConfigMapController\<close>: the errors of building the client and of completing the registration with
  the controller manager, and \<open>labels.Parse\<close>, are arguments, as is the provider's
  \<open>SubscribeRootCAsEvent\<close>. The registration holds the controller, its number of workers and the
  channel its root events arrive on.
\<close>

record registration =
  reg_controller :: configmap
  reg_MaxConcurrentReconciles :: int
  reg_rootCAsEvent :: nat

definition AddConfigMapController ::
  "error option \<Rightarrow> (string \<Rightarrow> error + (strmap \<Rightarrow> bool)) \<Rightarrow> error option \<Rightarrow> ('p \<Rightarrow> nat \<times> 'p) \<Rightarrow>
   'p ConfigMapOptions \<Rightarrow> (error + registration) \<times> 'p" where
  "AddConfigMapController clientErr labels_Parse completeErr subscribe opts =
     (case clientErr of
        Some err \<Rightarrow> (Inl (Wrapf ''failed to build non-cached client for ConfigMaps: %w'' err), cmo_TLS opts)
      | None \<Rightarrow>
     (case labels_Parse (cmo_ConfigMapNamespaceSelector opts) of
        Inl err \<Rightarrow> (Inl (Wrapf ''failed to parse namespace selector: %w'' err), cmo_TLS opts)
      | Inr namespaceSelector \<Rightarrow>
          (case subscribe (cmo_TLS opts) of
             (sub, tls') \<Rightarrow>
               ((case completeErr of
                   Some err \<Rightarrow> Inl err
                 | None \<Rightarrow> Inr \<lparr>reg_controller = \<lparr>ctl_namespaceSelector = namespaceSelector, ctl_rootCAsPEM = []\<rparr>,
                      reg_MaxConcurrentReconciles = cmo_MaxConcurrentReconciles opts, reg_rootCAsEvent = sub\<rparr>), tls'))))"

text \<open>Requests are reconciled one after the other; \<open>None\<close> when one of them reports an error.\<close>

fun reconcile_all ::
  "(string \<Rightarrow> api_error + Namespace) \<Rightarrow> ('w, KConfigMap) kube_client \<Rightarrow> configmap \<Rightarrow>
   string list \<Rightarrow> ('w, KConfigMap) kube \<Rightarrow> ('w, KConfigMap) kube option" where
  "reconcile_all lister client c [] k = Some k"
| "reconcile_all lister client c (ns # nss) k =
     (case Configmap_Reconcile lister client c k ns of
        (_, None, k') \<Rightarrow> reconcile_all lister client c nss k'
      | (_, Some err, k') \<Rightarrow> None)"

section \<open>Specification\<close>

text \<open>A ConfigMap as it should be: its only key holds the roots, and it has the label.\<close>

definition desired :: "string \<Rightarrow> KConfigMap \<Rightarrow> bool" where
  "desired pem cm \<longleftrightarrow>
     (\<exists>d l. km_Data cm = Some d \<and> map_of d = [rootCertKey \<mapsto> pem] \<and>
        km_Labels cm = Some l \<and> map_of l configMapLabelKey = Some ''true'')"

definition up_to_date :: "('w, KConfigMap) kube_client \<Rightarrow> ('w, KConfigMap) kube \<Rightarrow> string \<Rightarrow> string \<Rightarrow> bool" where
  "up_to_date client k pem ns \<longleftrightarrow>
     (\<exists>cm. kube_Get client k ns configMapNameIstioRoot = Inr cm \<and> desired pem cm)"

definition eligible :: "(string \<Rightarrow> api_error + Namespace) \<Rightarrow> configmap \<Rightarrow> string \<Rightarrow> bool" where
  "eligible lister c ns \<longleftrightarrow>
     (\<exists>n. lister ns = Inr n \<and> ctl_namespaceSelector c (ns_Labels n) \<and> ns_Phase n \<noteq> NamespaceTerminating)"

section \<open>Lemmas\<close>

lemma map_of_only_key:
  "\<forall>(k, v) \<in> set d. k = key \<Longrightarrow> map_of d key = Some v \<Longrightarrow> map_of d = [key \<mapsto> v]"
proof
  fix x
  assume a: "\<forall>(k, v) \<in> set d. k = key" "map_of d key = Some v"
  show "map_of d x = [key \<mapsto> v] x"
  proof (cases "x = key")
    case False
    then have "map_of d x = None" using a(1) by (auto simp: map_of_eq_None_iff)
    with False show ?thesis by simp
  qed (use a in simp)
qed

lemma new_configmap_desired: "desired pem (new_configmap ns pem)"
  by (auto simp: desired_def new_configmap_def)

lemma fix_configmap_desired:
  assumes "fix_configmap pem cm = (b, cm')"
  shows "desired pem cm'"
proof -
  define d0 where "d0 = (case km_Data cm of None \<Rightarrow> [] | Some d \<Rightarrow> d)"
  define d1 where "d1 = (if list_ex (\<lambda>(k, _). k \<noteq> rootCertKey) d0 then [] else d0)"
  have only: "\<forall>(k, v) \<in> set d1. k = rootCertKey"
    by (auto simp: d1_def list_ex_iff)
  then have "map_of d1 = [rootCertKey \<mapsto> pem]" if "map_of d1 rootCertKey = Some pem"
    by (rule map_of_only_key [OF _ that])
  moreover have "map_of (AList.update rootCertKey pem d1) = [rootCertKey \<mapsto> pem]"
  proof -
    have "map_of d1 x = None" if "x \<noteq> rootCertKey" for x
      using only that by (auto simp: map_of_eq_None_iff)
    then show ?thesis by (auto simp: update_conv')
  qed
  ultimately show ?thesis
    using assms unfolding fix_configmap_def Let_def d0_def [symmetric] d1_def [symmetric]
    by (auto simp: desired_def update_conv')
qed

lemma fix_configmap_frame:
  "fix_configmap pem cm = (b, cm') \<Longrightarrow> km_key cm' = km_key cm"
  by (auto simp: fix_configmap_def Let_def km_key_def)

lemma fix_configmap_unneeded:
  assumes "desired pem cm"
  shows "\<not> fst (fix_configmap pem cm)"
proof -
  from assms obtain d l where "km_Data cm = Some d" and d: "map_of d = [rootCertKey \<mapsto> pem]"
    and "km_Labels cm = Some l" "map_of l configMapLabelKey = Some ''true''"
    by (auto simp: desired_def)
  moreover have "k = rootCertKey" if "(k, v) \<in> set d" for k v
  proof -
    from weak_map_of_SomeI [OF that] obtain x where "map_of d k = Some x" by blast
    then show ?thesis by (simp add: d split: if_splits)
  qed
  then have "\<not> list_ex (\<lambda>(k, _). k \<noteq> rootCertKey) d" by (auto simp: list_ex_iff)
  ultimately show ?thesis by (simp add: fix_configmap_def Let_def)
qed

lemma fix_configmap_same:
  "fix_configmap pem cm = (False, cm') \<Longrightarrow> km_Data cm \<noteq> None \<and> km_Labels cm \<noteq> None \<Longrightarrow> cm' = cm"
  by (auto simp: fix_configmap_def Let_def split: if_splits)

lemma Reconcile_ineligible:
  "\<not> eligible lister c ns \<Longrightarrow> \<exists>r e. Configmap_Reconcile lister client c k ns = (r, e, k) \<and> r = done_Result"
  by (auto simp: Configmap_Reconcile_def eligible_def split: sum.splits api_error.splits)

lemma Reconcile_eligible:
  assumes "eligible lister c ns" "ctl_rootCAsPEM c \<noteq> []"
  shows "Configmap_Reconcile lister client c k ns =
    (case kube_Get client k ns configMapNameIstioRoot of
        Inl NotFound \<Rightarrow>
          (case kube_Create client k (new_configmap ns (ctl_rootCAsPEM c)) of (err, k') \<Rightarrow> (done_Result, err, k'))
      | Inl err \<Rightarrow> (done_Result, Some err, k)
      | Inr configMap \<Rightarrow>
          (case fix_configmap (ctl_rootCAsPEM c) configMap of
             (updateNeeded, fixed) \<Rightarrow>
               if updateNeeded
               then (case kube_Update client k fixed of (err, k') \<Rightarrow> (done_Result, err, k'))
               else (done_Result, None, k)))"
  using assms by (auto simp: Configmap_Reconcile_def eligible_def)

lemma desired_iff_unneeded: "fst (fix_configmap pem cm) = False \<longleftrightarrow> desired pem cm"
proof
  assume u: "fst (fix_configmap pem cm) = False"
  then have "map_of (case km_Data cm of None \<Rightarrow> [] | Some d \<Rightarrow> d) rootCertKey \<noteq> None"
    "map_of (case km_Labels cm of None \<Rightarrow> [] | Some l \<Rightarrow> l) configMapLabelKey \<noteq> None"
    by (auto simp: fix_configmap_def Let_def split: if_splits)
  then have "km_Data cm \<noteq> None \<and> km_Labels cm \<noteq> None" by (auto split: option.splits)
  with u fix_configmap_same [of pem cm] fix_configmap_desired [of pem cm] show "desired pem cm"
    by (metis prod.collapse)
qed (simp add: fix_configmap_unneeded)

text \<open>What a call that reports no error does to an eligible namespace.\<close>

lemma Reconcile_ok:
  assumes law: "store_law km_key client" and el: "eligible lister c ns" "ctl_rootCAsPEM c \<noteq> []"
    and r: "Configmap_Reconcile lister client c k ns = (r, None, k')"
  shows "up_to_date client k' (ctl_rootCAsPEM c) ns \<and>
    (\<forall>ns' name. (ns', name) \<noteq> (ns, configMapNameIstioRoot) \<longrightarrow>
       kube_Get client k' ns' name = kube_Get client k ns' name)"
proof -
  let ?pem = "ctl_rootCAsPEM c"
  consider (create) "kube_Create client k (new_configmap ns ?pem) = (None, k')"
    | (update) cm fixed where "kube_Get client k ns configMapNameIstioRoot = Inr cm"
        "fix_configmap ?pem cm = (True, fixed)" "kube_Update client k fixed = (None, k')"
    | (same) cm fixed where "kube_Get client k ns configMapNameIstioRoot = Inr cm"
        "fix_configmap ?pem cm = (False, fixed)" "k' = k"
    using r unfolding Reconcile_eligible [OF el]
    by (auto split: sum.splits api_error.splits prod.splits if_splits)
  then show ?thesis
  proof cases
    case create
    have "km_key (new_configmap ns ?pem) = (ns, configMapNameIstioRoot)"
      by (simp add: km_key_def new_configmap_def)
    with store_law_create [OF law create] new_configmap_desired [of ?pem ns] show ?thesis
      by (auto simp: up_to_date_def)
  next
    case update
    have "km_key fixed = (ns, configMapNameIstioRoot)"
      using fix_configmap_frame [OF update(2)] store_law_get [OF law update(1)] by simp
    with store_law_update [OF law update(3)] fix_configmap_desired [OF update(2)] show ?thesis
      by (auto simp: up_to_date_def)
  next
    case same
    then show ?thesis using desired_iff_unneeded [of ?pem cm] by (auto simp: up_to_date_def)
  qed
qed

lemma Reconcile_keeps_up_to_date:
  assumes law: "store_law km_key client" and pem: "ctl_rootCAsPEM c \<noteq> []"
    and r: "Configmap_Reconcile lister client c k ns = (r, None, k')"
    and up: "up_to_date client k (ctl_rootCAsPEM c) ns'"
  shows "up_to_date client k' (ctl_rootCAsPEM c) ns'"
proof (cases "eligible lister c ns")
  case True
  from Reconcile_ok [OF law True pem r] up show ?thesis
    by (cases "ns' = ns") (auto simp: up_to_date_def)
next
  case False
  from Reconcile_ineligible [OF this, of client k] r up show ?thesis by auto
qed

lemma reconcile_all_ok:
  assumes law: "store_law km_key client" and pem: "ctl_rootCAsPEM c \<noteq> []"
  shows "reconcile_all lister client c nss k = Some k' \<Longrightarrow>
    (\<forall>ns. (ns \<in> set nss \<and> eligible lister c ns) \<or> up_to_date client k (ctl_rootCAsPEM c) ns \<longrightarrow>
       up_to_date client k' (ctl_rootCAsPEM c) ns)"
proof (induction nss arbitrary: k)
  case (Cons ns nss)
  then obtain r k1 where r: "Configmap_Reconcile lister client c k ns = (r, None, k1)"
    and rest: "reconcile_all lister client c nss k1 = Some k'"
    by (auto split: prod.splits option.splits)
  from Cons.IH [OF rest] Reconcile_ok [OF law _ pem r] Reconcile_keeps_up_to_date [OF law pem r]
  show ?case by auto
qed auto

section \<open>Properties\<close>

text \<open>Two namespaces and their controller, for the witnesses.\<close>

definition demo_namespaces :: "Namespace list" where
  "demo_namespaces = [\<lparr>ns_Name = ''a'', ns_Labels = [], ns_Phase = NamespaceActive\<rparr>,
     \<lparr>ns_Name = ''b'', ns_Labels = [(''mesh'', ''off'')], ns_Phase = NamespaceActive\<rparr>]"

definition demo_lister :: "string \<Rightarrow> api_error + Namespace" where
  "demo_lister n = (case find (\<lambda>ns. ns_Name ns = n) demo_namespaces of None \<Rightarrow> Inl NotFound | Some ns \<Rightarrow> Inr ns)"

definition demo_ctl :: configmap where
  "demo_ctl = \<lparr>ctl_namespaceSelector = (\<lambda>l. map_of l ''mesh'' \<noteq> Some ''off''), ctl_rootCAsPEM = ''root''\<rparr>"

definition demo_kube :: "(KConfigMap list, KConfigMap) kube" where
  "demo_kube = \<lparr>k_api = [\<lparr>km_Namespace = ''a'', km_Name = configMapNameIstioRoot, km_Labels = None,
     km_Data = Some [(''other'', ''x''), (rootCertKey, ''root'')]\<rparr>], k_writes = []\<rparr>"

lemmas ctl_demo_defs = demo_namespaces_def demo_lister_def demo_ctl_def demo_kube_def

lemma demo_eligible: "eligible demo_lister demo_ctl ''a''" "\<not> eligible demo_lister demo_ctl ''b''"
  by (simp_all add: eligible_def ctl_demo_defs)

text \<open>
  When \<open>Reconcile\<close> reports no error for a namespace that exists, is selected and is not
  terminating, and the roots are known, then its ConfigMap holds the roots under its only key and
  carries the label, whatever it was before, and nothing else in the cluster was changed.
\<close>

lemma reconcile_desired:
  assumes "store_law km_key client" and "eligible lister c ns" and "ctl_rootCAsPEM c \<noteq> []"
    and "Configmap_Reconcile lister client c k ns = (r, None, k')"
  shows "up_to_date client k' (ctl_rootCAsPEM c) ns \<and>
    (\<forall>ns' name. (ns', name) \<noteq> (ns, configMapNameIstioRoot) \<longrightarrow>
       kube_Get client k' ns' name = kube_Get client k ns' name)"
  by (rule Reconcile_ok [OF assms])

text \<open>
  C30: A call writes at most once, and then to the ConfigMap of that name in the requested namespace,
  which is selected, not terminating and lacks the desired state; a ConfigMap in the desired state is
  never written. It asks to be called again exactly when such a namespace meets empty roots.
\<close>

theorem reconcile_minimal_writes:
  assumes "store_law km_key client"
    and "Configmap_Reconcile lister client c k ns = (r, e, k')"
  shows "(k' = k \<or> (\<exists>cm. (k_writes k' = k_writes k @ [Created cm] \<or> k_writes k' = k_writes k @ [Updated cm]) \<and>
        km_key cm = (ns, configMapNameIstioRoot) \<and> desired (ctl_rootCAsPEM c) cm \<and>
        eligible lister c ns \<and> ctl_rootCAsPEM c \<noteq> [] \<and> \<not> up_to_date client k (ctl_rootCAsPEM c) ns)) \<and>
    (res_RequeueAfter r \<noteq> 0 \<longleftrightarrow> eligible lister c ns \<and> ctl_rootCAsPEM c = [])"
proof (cases "eligible lister c ns \<and> ctl_rootCAsPEM c \<noteq> []")
  case True
  let ?pem = "ctl_rootCAsPEM c"
  note el = conjunct1 [OF True] conjunct2 [OF True]
  have key: "km_key (new_configmap ns ?pem) = (ns, configMapNameIstioRoot)"
    by (simp add: km_key_def new_configmap_def)
  have fixed: "km_key cm' = (ns, configMapNameIstioRoot) \<and> desired ?pem cm' \<and> \<not> desired ?pem cm"
    if "kube_Get client k ns configMapNameIstioRoot = Inr cm" "fix_configmap ?pem cm = (True, cm')" for cm cm'
    using store_law_get [OF assms(1) that(1)] fix_configmap_frame [OF that(2)]
      fix_configmap_desired [OF that(2)] desired_iff_unneeded [of ?pem cm] that(2) by simp
  show ?thesis
    using assms(2) el fixed key new_configmap_desired [of ?pem ns] unfolding Reconcile_eligible [OF el]
    by (auto simp: up_to_date_def done_Result_def dest: kube_writes
        split: sum.splits api_error.splits prod.splits if_splits)
next
  case False
  then show ?thesis
    using assms(2) Reconcile_ineligible [of lister c ns client k]
    by (cases "eligible lister c ns")
       (auto simp: Configmap_Reconcile_def eligible_def done_Result_def)
qed

theorem reconcile_minimal_writes_witness:
  "\<exists>r e k'. Configmap_Reconcile demo_lister (list_client km_key) demo_ctl demo_kube ''b'' = (r, e, k') \<and>
     k' = demo_kube \<and> res_RequeueAfter r = 0"
proof -
  obtain r e k' where r: "Configmap_Reconcile demo_lister (list_client km_key) demo_ctl demo_kube ''b'' = (r, e, k')"
    by (metis prod.exhaust)
  from reconcile_minimal_writes [OF store_law_list_client r] r show ?thesis
    using demo_eligible(2) by auto
qed

text \<open>
  New roots reach the whole mesh: when the handler of a root event has enqueued its requests and
  all of them are reconciled without an error, every namespace of the list that is selected and not
  terminating has the roots the TLS provider returned in its ConfigMap.
\<close>

lemma root_event_rollout:
  assumes "Provider_RootCAs polls = Return (Some roots)"
    and "root_event c (Some roots) (Inr items) = (Requests nss, c')"
    and "\<forall>n \<in> set items. lister (ns_Name n) = Inr n"
    and "store_law km_key client" and "reconcile_all lister client c' nss k = Some k'"
    and "n \<in> set items" "ctl_namespaceSelector c (ns_Labels n)" "ns_Phase n \<noteq> NamespaceTerminating"
  shows "up_to_date client k' (rc_PEM roots) (ns_Name n)"
proof -
  have c': "c' = c\<lparr>ctl_rootCAsPEM := rc_PEM roots\<rparr>"
    and nss: "nss = map ns_Name (filter (\<lambda>ns. ctl_namespaceSelector c (ns_Labels ns)) items)"
    using assms(2) by (auto simp: root_event_def Let_def)
  have "ctl_rootCAsPEM c' \<noteq> []"
    using prov.rootCAs_populated [OF assms(1)] by (simp add: c' populated_def)
  moreover have "ns_Name n \<in> set nss" "eligible lister c' (ns_Name n)"
    using assms(3,6-8) by (auto simp: nss eligible_def c')
  ultimately show ?thesis
    using reconcile_all_ok [OF assms(4) _ assms(5)] by (simp add: c')
qed

end
