(* ===== verification/Configmap_Queue.thy ===== *)
theory Configmap_Queue
  imports Work_Queue Configmap_Controller
begin

text \<open>
  The ConfigMap controller under its work queue: the watches that \<open>AddConfigMapController\<close> registers,
  as the changes that enqueue requests, and \<open>Reconcile\<close> as a \<open>reconciler\<close>. A request is the namespace
  of a ConfigMap; the environment is the informer's view of the namespaces and the controller, the
  world the objects behind the API.
\<close>

section \<open>Model\<close>

type_synonym configmap_env = "(string \<Rightarrow> api_error + Namespace) \<times> configmap"

definition cm_reconcile ::
  "('w, KConfigMap) kube_client \<Rightarrow> (string, configmap_env, ('w, KConfigMap) kube) reconcile" where
  "cm_reconcile client e k ns =
     (case Configmap_Reconcile (fst e) client (snd e) k ns of
        (r, err, k') \<Rightarrow> (err \<noteq> None \<or> res_RequeueAfter r \<noteq> 0, k'))"

text \<open>
  The watch on namespaces (one is added or changed, or deleted), and the one on the channel of root
  events, where \<open>items\<close> is what listing the informer's namespaces gives.
\<close>

definition coherent :: "(string \<Rightarrow> api_error + Namespace) \<Rightarrow> Namespace list \<Rightarrow> bool" where
  "coherent lister items \<longleftrightarrow> (\<forall>ns n. lister ns = Inr n \<longrightarrow> n \<in> set items \<and> ns_Name n = ns)"

inductive namespace_notifies :: "configmap_env \<Rightarrow> configmap_env \<Rightarrow> string set \<Rightarrow> bool" where
  "v = Inr obj \<or> v = Inl NotFound \<Longrightarrow>
   namespace_notifies (lister, c) (lister(ns_Name obj := v), c) (fst ` set (namespace_requests obj))"

inductive roots_notify :: "'c RootCAs option \<Rightarrow> configmap_env \<Rightarrow> configmap_env \<Rightarrow> string set \<Rightarrow> bool" for roots where
  "coherent lister items \<Longrightarrow> root_event c roots (Inr items) = (Requests nss, c') \<Longrightarrow>
   roots_notify roots (lister, c) (lister, c') (set nss)"

definition cm_notifies :: "'c RootCAs option \<Rightarrow> configmap_env \<Rightarrow> configmap_env \<Rightarrow> string set \<Rightarrow> bool" where
  "cm_notifies roots e e' K \<longleftrightarrow> namespace_notifies e e' K \<or> roots_notify roots e e' K"

text \<open>The watch on ConfigMaps: a change of one that passes the predicate enqueues its namespace.\<close>

definition cm_touches ::
  "('w, KConfigMap) kube_client \<Rightarrow> ('w, KConfigMap) kube \<Rightarrow> ('w, KConfigMap) kube \<Rightarrow> string set \<Rightarrow> bool" where
  "cm_touches client k k' K \<longleftrightarrow>
     finite K \<and>
     (\<forall>ns name obj. kube_Get client k ns name \<noteq> kube_Get client k' ns name \<and>
        (kube_Get client k ns name = Inr obj \<or> kube_Get client k' ns name = Inr obj) \<and>
        watches_configmap obj \<longrightarrow> km_Namespace obj \<in> K)"

section \<open>Specification\<close>

text \<open>What the API promises, and the goal: an eligible namespace has the roots the controller holds.\<close>

definition cm_law :: "('w, KConfigMap) kube_client \<Rightarrow> bool" where
  "cm_law client \<longleftrightarrow> store_law km_key client \<and> isolated_writes km_key client"

definition cm_good :: "('w, KConfigMap) kube_client \<Rightarrow> configmap_env \<Rightarrow> ('w, KConfigMap) kube \<Rightarrow> string \<Rightarrow> bool" where
  "cm_good client e k ns \<longleftrightarrow>
     (eligible (fst e) (snd e) ns \<longrightarrow>
        ctl_rootCAsPEM (snd e) \<noteq> [] \<and> up_to_date client k (ctl_rootCAsPEM (snd e)) ns)"

section \<open>Lemmas\<close>

lemma Reconcile_idle:
  assumes "eligible lister c ns" "ctl_rootCAsPEM c \<noteq> []" "up_to_date client k (ctl_rootCAsPEM c) ns"
  shows "Configmap_Reconcile lister client c k ns = (done_Result, None, k)"
proof -
  from assms(3) obtain cm where "kube_Get client k ns configMapNameIstioRoot = Inr cm"
    "\<not> fst (fix_configmap (ctl_rootCAsPEM c) cm)"
    by (auto simp: up_to_date_def fix_configmap_unneeded)
  then show ?thesis unfolding Reconcile_eligible [OF assms(1,2)] by (simp add: case_prod_beta)
qed

lemma Reconcile_waits:
  "eligible lister c ns \<Longrightarrow> ctl_rootCAsPEM c = [] \<Longrightarrow>
   Configmap_Reconcile lister client c k ns = (\<lparr>res_RequeueAfter = 100000000\<rparr>, None, k)"
  by (auto simp: Configmap_Reconcile_def eligible_def)

lemma Reconcile_frame:
  assumes "cm_law client" and r: "Configmap_Reconcile lister client c k ns = (r, e, k')" and "ns' \<noteq> ns"
  shows "kube_Get client k' ns' name = kube_Get client k ns' name"
proof (cases "eligible lister c ns \<and> ctl_rootCAsPEM c \<noteq> []")
  case True
  let ?pem = "ctl_rootCAsPEM c"
  have law: "store_law km_key client" "isolated_writes km_key client" using assms(1) by (simp_all add: cm_law_def)
  have new: "(ns', name) \<noteq> km_key (new_configmap ns ?pem)"
    using assms(3) by (simp add: km_key_def new_configmap_def)
  have "(ns', name) \<noteq> km_key fixed"
    if "kube_Get client k ns configMapNameIstioRoot = Inr cm" "fix_configmap ?pem cm = (b, fixed)" for cm b fixed
    using fix_configmap_frame [OF that(2)] store_law_get [OF law(1) that(1)] assms(3) by simp
  then show ?thesis
    using r new isolated_create [OF law(2)] isolated_update [OF law(2)]
    unfolding Reconcile_eligible [OF conjunct1 [OF True] conjunct2 [OF True]]
    by (auto split: sum.splits api_error.splits prod.splits if_splits)
next
  case False
  then show ?thesis
    using r Reconcile_ineligible [of lister c ns client k] Reconcile_waits [of lister c ns client k] by auto
qed

lemma cm_reaches_goal:
  assumes "cm_law client" "cm_reconcile client e k ns = (False, k')"
  shows "cm_good client e k' ns"
  unfolding cm_good_def
proof
  assume el: "eligible (fst e) (snd e) ns"
  have "ctl_rootCAsPEM (snd e) \<noteq> []"
  proof
    assume "ctl_rootCAsPEM (snd e) = []"
    with assms(2) show False by (simp add: cm_reconcile_def Reconcile_waits [OF el])
  qed
  moreover from assms(2) obtain r where "Configmap_Reconcile (fst e) client (snd e) k ns = (r, None, k')"
    by (auto simp: cm_reconcile_def split: prod.splits)
  ultimately show "ctl_rootCAsPEM (snd e) \<noteq> [] \<and> up_to_date client k' (ctl_rootCAsPEM (snd e)) ns"
    using conjunct1 [OF Reconcile_ok [OF _ el]] assms(1) unfolding cm_law_def by blast
qed

lemma cm_isolated:
  assumes "cm_law client" "cm_reconcile client e k ns = (again, k')" "ns' \<noteq> ns"
  shows "cm_good client e' k' ns' = cm_good client e' k ns'"
proof -
  from assms(2) obtain r err where "Configmap_Reconcile (fst e) client (snd e) k ns = (r, err, k')"
    by (auto simp: cm_reconcile_def split: prod.splits)
  from Reconcile_frame [OF assms(1) this assms(3)] show ?thesis by (simp add: cm_good_def up_to_date_def)
qed

lemma cm_idle:
  assumes "cm_good client e k ns" "cm_reconcile client e k ns = (again, k')"
  shows "k' = k"
proof (cases "eligible (fst e) (snd e) ns")
  case True
  with assms(1) have "Configmap_Reconcile (fst e) client (snd e) k ns = (done_Result, None, k)"
    by (simp add: cm_good_def Reconcile_idle)
  with assms(2) show ?thesis by (simp add: cm_reconcile_def)
next
  case False
  with assms(2) Reconcile_ineligible [OF False, of client k] show ?thesis by (auto simp: cm_reconcile_def)
qed

lemma eligible_cong:
  "lister ns = lister' ns \<Longrightarrow> ctl_namespaceSelector c = ctl_namespaceSelector c' \<Longrightarrow>
   eligible lister c ns = eligible lister' c' ns"
  by (simp add: eligible_def)

lemma Configmap_Reconcile_cong:
  "lister ns = lister' ns \<Longrightarrow> Configmap_Reconcile lister client c k ns = Configmap_Reconcile lister' client c k ns"
  by (simp add: Configmap_Reconcile_def)

lemma Reconcile_pem_irrelevant:
  "\<not> eligible lister c ns \<Longrightarrow>
   Configmap_Reconcile lister client (c\<lparr>ctl_rootCAsPEM := pem\<rparr>) k ns = Configmap_Reconcile lister client c k ns"
  by (auto simp: Configmap_Reconcile_def eligible_def split: sum.splits)

lemma cm_namespace_notified:
  assumes "namespace_notifies e e' K" "ns \<notin> K"
  shows "agrees (cm_reconcile client) (cm_good client) e e' ns"
  using assms
proof cases
  case (1 v obj lister c)
  let ?lister = "lister(ns_Name obj := v)"
  from 1 assms(2) have "lister ns = ?lister ns" by (auto simp: namespace_requests_def)
  then have "eligible lister c ns = eligible ?lister c ns"
    "Configmap_Reconcile lister client c k ns = Configmap_Reconcile ?lister client c k ns" for k
    by (rule eligible_cong, simp) (rule Configmap_Reconcile_cong, fact)
  with 1 show ?thesis by (simp add: agrees_def cm_reconcile_def cm_good_def)
qed

lemma cm_roots_notified:
  assumes "roots_notify roots e e' K" "ns \<notin> K"
  shows "agrees (cm_reconcile client) (cm_good client) e e' ns"
  using assms
proof cases
  case (1 lister items c nss c')
  show ?thesis
  proof (cases roots)
    case None
    with 1 show ?thesis by (simp add: root_event_def agrees_def)
  next
    case (Some r)
    with 1 have c': "c' = c\<lparr>ctl_rootCAsPEM := rc_PEM r\<rparr>"
      and nss: "nss = map ns_Name (filter (\<lambda>ns. ctl_namespaceSelector c (ns_Labels ns)) items)"
      by (auto simp: root_event_def Let_def)
    have "\<not> eligible lister c ns"
    proof
      assume "eligible lister c ns"
      then obtain n where "lister ns = Inr n" "ctl_namespaceSelector c (ns_Labels n)" by (auto simp: eligible_def)
      with \<open>coherent lister items\<close> have "n \<in> set items" "ns_Name n = ns" by (auto simp: coherent_def)
      with \<open>ctl_namespaceSelector c (ns_Labels n)\<close> have "ns \<in> set nss" by (auto simp: nss)
      with 1 assms(2) show False by simp
    qed
    moreover from this have "\<not> eligible lister c' ns" by (simp add: c' eligible_def)
    ultimately show ?thesis
      using 1 Reconcile_pem_irrelevant [of lister c ns client "rc_PEM r"]
      by (simp add: agrees_def cm_reconcile_def cm_good_def c')
  qed
qed

lemma cm_touched:
  assumes "cm_law client" "cm_touches client k k' K" "ns \<notin> K"
  shows "cm_good client e k' ns = cm_good client e k ns"
proof -
  have sees: "\<forall>ns name obj. kube_Get client k ns name \<noteq> kube_Get client k' ns name \<and>
      (kube_Get client k ns name = Inr obj \<or> kube_Get client k' ns name = Inr obj) \<and>
      watches_configmap obj \<longrightarrow> km_Namespace obj \<in> K"
    using assms(2) unfolding cm_touches_def by (rule conjunct2)
  have "kube_Get client k ns configMapNameIstioRoot = Inr obj \<longleftrightarrow>
      kube_Get client k' ns configMapNameIstioRoot = Inr obj" for obj
  proof -
    have "km_key obj = (ns, configMapNameIstioRoot)" if "kube_Get client k0 ns configMapNameIstioRoot = Inr obj" for k0
      using store_law_get [OF _ that] assms(1) by (simp add: cm_law_def)
    then have "watches_configmap obj" "km_Namespace obj = ns" if "kube_Get client k0 ns configMapNameIstioRoot = Inr obj" for k0
      using that by (auto simp: km_key_def watches_configmap_def)
    with sees assms(3) show ?thesis by metis
  qed
  then show ?thesis by (simp add: cm_good_def up_to_date_def)
qed

text \<open>The controller meets the contract.\<close>

interpretation cmq: reconciler "cm_law client" "cm_reconcile client" "cm_notifies roots" "cm_touches client" "cm_good client"
  for client :: "('w, KConfigMap) kube_client" and roots :: "'c RootCAs option"
proof unfold_locales
  fix e k ns and k' :: "('w, KConfigMap) kube" and again ns' e' K
  assume law: "cm_law client"
  show "cm_reconcile client e k ns = (False, k') \<Longrightarrow> cm_good client e k' ns"
    by (rule cm_reaches_goal [OF law])
  show "cm_reconcile client e k ns = (again, k') \<Longrightarrow> ns' \<noteq> ns \<Longrightarrow> cm_good client e' k' ns' = cm_good client e' k ns'"
    by (rule cm_isolated [OF law])
  show "cm_good client e k ns \<Longrightarrow> cm_reconcile client e k ns = (again, k') \<Longrightarrow> k' = k"
    by (rule cm_idle)
  show "cm_notifies roots e e' K \<Longrightarrow> ns \<notin> K \<Longrightarrow> agrees (cm_reconcile client) (cm_good client) e e' ns"
    unfolding cm_notifies_def by (blast intro: cm_namespace_notified cm_roots_notified)
  show "cm_touches client k k' K \<Longrightarrow> ns \<notin> K \<Longrightarrow> cm_good client e k' ns = cm_good client e k ns"
    by (rule cm_touched [OF law])
qed

text \<open>An informer that was only ever told of namespaces: finitely many, each under its name, no errors.\<close>

definition tidy :: "(string \<Rightarrow> api_error + Namespace) \<Rightarrow> bool" where
  "tidy lister \<longleftrightarrow>
     finite {ns. \<exists>n. lister ns = Inr n} \<and> (\<forall>ns n. lister ns = Inr n \<longrightarrow> ns_Name n = ns) \<and>
     (\<forall>ns err. lister ns \<noteq> Inl (APIError err))"

lemma tidy_notified: "namespace_notifies e e' K \<Longrightarrow> tidy (fst e) \<Longrightarrow> tidy (fst e')"
proof (erule namespace_notifies.cases)
  fix v obj lister c
  assume e: "e = (lister, c)" "e' = (lister(ns_Name obj := v), c)" and v: "v = Inr obj \<or> v = Inl NotFound"
    and t: "tidy (fst e)"
  have "{ns. \<exists>n. (lister(ns_Name obj := v)) ns = Inr n} \<subseteq> insert (ns_Name obj) {ns. \<exists>n. lister ns = Inr n}"
    by auto
  moreover have "finite {ns. \<exists>n. lister ns = Inr n}" using t by (simp add: tidy_def e)
  ultimately have "finite {ns. \<exists>n. (lister(ns_Name obj := v)) ns = Inr n}"
    by (meson finite_insert finite_subset)
  then show "tidy (fst e')" using v t by (auto simp: tidy_def e)
qed

lemma roots_notify_lister: "roots_notify roots e e' K \<Longrightarrow> fst e' = fst e"
  by (erule roots_notify.cases) simp

lemma tidy_coherent:
  assumes "tidy lister"
  shows "\<exists>items. coherent lister items"
proof -
  let ?N = "{ns. \<exists>n. lister ns = Inr n}"
  have fin: "finite ?N" using assms by (simp add: tidy_def)
  have names: "\<forall>ns n. lister ns = Inr n \<longrightarrow> ns_Name n = ns" using assms unfolding tidy_def by blast
  obtain nss where nss: "set nss = ?N" using finite_list [OF fin] by blast
  have "n \<in> set (map (\<lambda>ns. projr (lister ns)) nss)" if "lister ns = Inr n" for ns n
  proof -
    have "ns \<in> set nss" "projr (lister ns) = n" using that nss by auto
    then show ?thesis by force
  qed
  with names have "coherent lister (map (\<lambda>ns. projr (lister ns)) nss)" unfolding coherent_def by blast
  then show ?thesis ..
qed

text \<open>While the API serves, and accepts objects in the namespaces that are to have the roots, no call fails.\<close>

lemma cm_keeps_up:
  assumes "serves km_key client accepts up" "up (k_api k)"
  shows "up (k_api (snd (cm_reconcile client e k ns)))"
  using assms(2) serves_create(1) [OF assms] serves_update(1) [OF assms]
  by (auto simp: cm_reconcile_def Configmap_Reconcile_def split: sum.splits api_error.splits prod.splits)

lemma Reconcile_served:
  assumes law: "cm_law client" and up: "serves km_key client accepts up" "up (k_api k)" and "accepts ns"
    and el: "eligible lister c ns" "ctl_rootCAsPEM c \<noteq> []"
    and r: "Configmap_Reconcile lister client c k ns = (r, err, k')"
  shows "err = None \<and> r = done_Result"
proof -
  let ?pem = "ctl_rootCAsPEM c"
  have "km_key (new_configmap ns ?pem) = (ns, configMapNameIstioRoot)" by (simp add: km_key_def new_configmap_def)
  note create = serves_create(2) [OF up _ this \<open>accepts ns\<close>]
  have update: "e = None" if "kube_Get client k ns configMapNameIstioRoot = Inr cm" "fix_configmap ?pem cm = (b, fixed)"
    "kube_Update client k fixed = (e, k1)" for cm b fixed e k1
  proof -
    have "km_key fixed = (ns, configMapNameIstioRoot)"
      using fix_configmap_frame [OF that(2)] store_law_get [OF _ that(1)] law by (simp add: cm_law_def)
    from serves_update(2) [OF up that(3) this \<open>accepts ns\<close> that(1)] show ?thesis .
  qed
  from r create update serves_get [OF up] show ?thesis
    unfolding Reconcile_eligible [OF el] by (auto split: sum.splits api_error.splits prod.splits if_splits)
qed

lemma cm_smooth:
  fixes client :: "('a, KConfigMap) kube_client"
  assumes "cm_law client" "serves km_key client accepts up" "tidy (fst e)" "ctl_rootCAsPEM (snd e) \<noteq> []"
    and "\<forall>ns. eligible (fst e) (snd e) ns \<longrightarrow> accepts ns"
  shows "smooth (cm_reconcile client) (\<lambda>k. up (k_api k)) e"
  unfolding smooth_def
proof (intro conjI allI impI)
  fix k :: "('a, KConfigMap) kube" and ns
  assume up: "up (k_api k)"
  have "err = None \<and> r = done_Result" if "Configmap_Reconcile (fst e) client (snd e) k ns = (r, err, k')" for r err k'
  proof (cases "eligible (fst e) (snd e) ns")
    case True
    with assms(5) have "accepts ns" by blast
    from Reconcile_served [OF assms(1,2) up this True assms(4) that] show ?thesis .
  next
    case False
    with that assms(3) show ?thesis
      by (auto simp: Configmap_Reconcile_def eligible_def tidy_def split: sum.splits api_error.splits if_splits)
  qed
  then show "\<not> fst (cm_reconcile client e k ns)"
    by (auto simp: cm_reconcile_def done_Result_def split: prod.splits)
qed (rule cm_keeps_up [OF assms(2)])

lemma cm_notifies_finite: "cm_notifies roots e e' K \<Longrightarrow> finite K"
  by (auto simp: cm_notifies_def elim: namespace_notifies.cases roots_notify.cases)

lemma cm_pending_finite:
  assumes "queue_step (cm_reconcile client) (cm_notifies roots) (cm_touches client) q q'" "finite (pending q)"
  shows "finite (pending q')"
  using assms(1)
proof (rule queue_stepE)
  assume "work_step (cm_reconcile client) q q'"
  from work_step_pending [OF this] assms(2) show ?thesis by (rule finite_subset)
next
  fix e K
  assume "q' = q\<lparr>wq_env := e, wq_queue := wq_queue q \<union> K\<rparr>" "cm_notifies roots (wq_env q) e K"
  with cm_notifies_finite [OF this(2)] assms(2) show ?thesis by (simp add: pending_def)
qed (use assms(2) in \<open>simp add: pending_def cm_touches_def\<close>)

end
