(* ===== verification/Root_Rollout.thy ===== *)
theory Root_Rollout
  imports Configmap_Queue Tls_Provider
begin

text \<open>
  The TLS provider, the channel on which it announces new root certificates, the handler of these
  announcements and the ConfigMap controller's queue together: how a change of the roots gets to
  every namespace while namespaces come and go, others edit the ConfigMaps and calls fail.
\<close>

section \<open>Model\<close>

text \<open>
  \<open>ro_handling\<close> is the handler of root events: idle, waiting in \<open>c.tls.RootCAs\<close>, or with the roots that
  call returned and not yet stored.
\<close>

record ('c, 'kp, 'v, 's, 'w) rollout =
  ro_provider :: "('c, 'kp, 'v, 's) provider_state"
  ro_handling :: "'c RootCAs option option"
  ro_controller :: "(string, configmap_env, ('w, KConfigMap) kube) work_queue"

definition provider_of :: "('c, 'kp, 'v, 's, 'w) rollout \<Rightarrow> ('c, 'kp, 'v) Provider" where
  "provider_of s = fst (snd (ro_provider s))"

definition set_provider :: "('c, 'kp, 'v) Provider \<Rightarrow> ('c, 'kp, 'v, 's, 'w) rollout \<Rightarrow> ('c, 'kp, 'v, 's, 'w) rollout" where
  "set_provider p s = s\<lparr>ro_provider := (case ro_provider s of (ph, _, st) \<Rightarrow> (ph, p, st))\<rparr>"

text \<open>
  The delivery of an announcement: a sending goroutine and the handler meet on the channel \<open>sub\<close>, the
  handler asks for the roots, and stores them and enqueues the requests.
\<close>

inductive deliver_step ::
  "nat \<Rightarrow> ('c, 'kp, 'v, 's, 'w) rollout \<Rightarrow> ('c, 'kp, 'v, 's, 'w) rollout \<Rightarrow> bool" for sub where
  Receive: "prv_sends (provider_of s) = xs @ sub # ys \<Longrightarrow> ro_handling s = None \<Longrightarrow>
    deliver_step sub s ((set_provider ((provider_of s)\<lparr>prv_sends := xs @ ys\<rparr>) s)\<lparr>ro_handling := Some None\<rparr>)"
| Load: "ro_handling s = Some None \<Longrightarrow>
    Provider_RootCAs [PollTick (prv_rootCAs (provider_of s))] = Return (Some r) \<Longrightarrow>
    deliver_step sub s (s\<lparr>ro_handling := Some (Some r)\<rparr>)"
| Store: "ro_handling s = Some (Some r) \<Longrightarrow> roots_notify (Some r) (wq_env (ro_controller s)) e K \<Longrightarrow>
    deliver_step sub s (s\<lparr>ro_handling := None, ro_controller := (ro_controller s)
      \<lparr>wq_env := e, wq_queue := wq_queue (ro_controller s) \<union> K\<rparr>\<rparr>)"

text \<open>All steps: the provider's, deliveries, and the controller's queue with its other watches.\<close>

inductive rollout_step ::
  "('c, 'k, 'kp, 'v) tls_env \<Rightarrow>
   ('s \<Rightarrow> string \<Rightarrow> string \<Rightarrow> duration \<Rightarrow> KeyUsage list \<Rightarrow> (error + Bundle) go \<times> 's) \<Rightarrow>
   ('w, KConfigMap) kube_client \<Rightarrow> nat \<Rightarrow>
   ('c, 'kp, 'v, 's, 'w) rollout \<Rightarrow> ('c, 'kp, 'v, 's, 'w) rollout \<Rightarrow> bool"
  for env sign client sub where
  ProviderStep: "rollout_step env sign client sub s (s\<lparr>ro_provider := provider_step env sign (ro_provider s) i\<rparr>)"
| Deliver: "deliver_step sub s s' \<Longrightarrow> rollout_step env sign client sub s s'"
| Queue: "queue_step (cm_reconcile client) namespace_notifies (cm_touches client) (ro_controller s) q \<Longrightarrow>
    rollout_step env sign client sub s (s\<lparr>ro_controller := q\<rparr>)"

inductive_cases deliver_stepE: "deliver_step sub s s'"
inductive_cases rollout_stepE: "rollout_step env sign client sub s s'"

text \<open>
  The start: a new provider to which the controller has subscribed, informers that have listed
  nothing yet, an empty queue.
\<close>

definition no_namespaces :: "string \<Rightarrow> api_error + Namespace" where
  "no_namespaces _ = Inl NotFound"

definition rollout_init ::
  "('c, 'kp, 'v) Provider \<Rightarrow> registration \<Rightarrow> 's \<Rightarrow> ('w, KConfigMap) kube \<Rightarrow> ('c, 'kp, 'v, 's, 'w) rollout" where
  "rollout_init p reg st k =
     \<lparr>ro_provider = (AtBackoff, p, st), ro_handling = None,
      ro_controller = \<lparr>wq_queue = {}, wq_active = Map.empty,
        wq_env = (no_namespaces, reg_controller reg), wq_world = k\<rparr>\<rparr>"

section \<open>Specification\<close>

text \<open>Nothing is under way: no announcement to the controller, no event being handled, no request.\<close>

definition at_rest :: "nat \<Rightarrow> ('c, 'kp, 'v, 's, 'w) rollout \<Rightarrow> bool" where
  "at_rest sub s \<longleftrightarrow>
     sub \<notin> set (prv_sends (provider_of s)) \<and> ro_handling s = None \<and> quiescent (ro_controller s)"

text \<open>Every eligible namespace has the provider's roots.\<close>

definition rolled_out ::
  "('w, KConfigMap) kube_client \<Rightarrow> ('c, 'kp, 'v, 's, 'w) rollout \<Rightarrow> bool" where
  "rolled_out client s \<longleftrightarrow>
     (\<forall>ns. eligible (fst (wq_env (ro_controller s))) (snd (wq_env (ro_controller s))) ns \<longrightarrow>
        rc_PEM (prv_rootCAs (provider_of s)) \<noteq> [] \<and>
        up_to_date client (wq_world (ro_controller s)) (rc_PEM (prv_rootCAs (provider_of s))) ns)"

text \<open>The invariant of the announcements: the newest roots are announced, being handled or stored.\<close>

definition announced :: "nat \<Rightarrow> ('c, 'kp, 'v, 's, 'w) rollout \<Rightarrow> bool" where
  "announced sub s \<longleftrightarrow>
     sub < length (prv_subscriptions (provider_of s)) \<and>
     (sub \<in> set (prv_sends (provider_of s)) \<or> ro_handling s = Some None \<or>
      rc_PEM (prv_rootCAs (provider_of s)) =
        (case ro_handling s of Some (Some r) \<Rightarrow> rc_PEM r | _ \<Rightarrow> ctl_rootCAsPEM (snd (wq_env (ro_controller s)))))"

text \<open>
  The API serves the controller from this state on: it is \<open>up\<close>, and the namespaces that are to have
  the roots accept objects.
\<close>

definition served ::
  "('w, KConfigMap) kube_client \<Rightarrow> ('w \<Rightarrow> bool) \<Rightarrow> (string, configmap_env, ('w, KConfigMap) kube) work_queue \<Rightarrow> bool" where
  "served client up q \<longleftrightarrow> up (k_api (wq_world q)) \<and>
     serves km_key client (\<lambda>ns. eligible (fst (wq_env q)) (snd (wq_env q)) ns) up"

section \<open>Lemmas\<close>

lemma set_provider_simps [simp]:
  "provider_of (set_provider p s) = p" "ro_handling (set_provider p s) = ro_handling s"
  "ro_controller (set_provider p s) = ro_controller s"
  "provider_of (s\<lparr>ro_handling := h\<rparr>) = provider_of s"
  "provider_of (s\<lparr>ro_controller := q\<rparr>) = provider_of s"
  "provider_of (s\<lparr>ro_provider := x\<rparr>) = fst (snd x)"
  by (simp_all add: provider_of_def set_provider_def split: prod.splits)

text \<open>What the provider does to its roots it announces to every subscription.\<close>

definition announces :: "('c, 'kp, 'v) Provider \<Rightarrow> ('c, 'kp, 'v) Provider \<Rightarrow> bool" where
  "announces p p' \<longleftrightarrow>
     length (prv_subscriptions p) \<le> length (prv_subscriptions p') \<and> set (prv_sends p) \<subseteq> set (prv_sends p') \<and>
     (rc_PEM (prv_rootCAs p') = rc_PEM (prv_rootCAs p) \<or>
      (\<forall>i < length (prv_subscriptions p). i \<in> set (prv_sends p')))"

lemma announces_refl [simp]: "announces p p"
  by (simp add: announces_def)

lemma announces_count [simp]: "announces p (count_request l p') = announces p p'"
  by (simp add: announces_def count_request_def)

lemma announces_config [simp]: "announces p (p'\<lparr>prv_tlsConfig := c\<rparr>) = announces p p'"
  by (simp add: announces_def)

lemma announces_broadcast [simp]: "announces p (broadcast (p\<lparr>prv_rootCAs := r\<rparr>))"
  by (auto simp: announces_def broadcast_def)

lemma announces_subscribe: "announces p (snd (SubscribeRootCAsEvent p))"
  by (simp add: announces_def SubscribeRootCAsEvent_def Let_def)

lemma loadCAsRoot_announces: "loadCAsRoot env p pem = (e, p') \<Longrightarrow> announces p p'"
  by (auto simp: loadCAsRoot_def split: if_splits sum.splits)

lemma install_config_announces: "install_config env p1 b pk = (x, p') \<Longrightarrow> announces p p' = announces p p1"
  by (auto simp: install_config_def split: if_splits sum.splits)

lemma fetch_announces:
  assumes "fetchCertificate env sign p st = (x, p', st')"
  shows "announces p p'"
proof -
  have "announces p p1" if "(if to_RootCAsCertFile (prv_opts p) = [] then loadCAsRoot env p ca else (None, p)) = (e, p1)" for ca e p1
    using that loadCAsRoot_announces by (auto split: if_splits)
  then show ?thesis
    using assms
    by (auto simp: fetchCertificate_def install_config_announces
        split: sum.splits prod.splits go.splits option.splits)
qed

lemma provider_step_announces:
  "announces p (fst (snd (provider_step env sign (ph, p, st) i)))"
proof -
  have "announces p (fst (snd (fetchCertificate env sign p st)))"
    by (cases "fetchCertificate env sign p st") (auto intro: fetch_announces)
  then show ?thesis
    by (cases "(env, sign, (ph, p, st), i)" rule: provider_step.cases)
       (auto simp: root_file_update_def announces_subscribe)
qed

lemma announced_provider:
  assumes "announced sub s"
  shows "announced sub (s\<lparr>ro_provider := provider_step env sign (ro_provider s) i\<rparr>)"
proof -
  obtain ph p st where s: "ro_provider s = (ph, p, st)" by (metis prod.exhaust)
  have "provider_of s = p" by (simp add: provider_of_def s)
  with provider_step_announces [of p env sign ph st i] assms show ?thesis
    by (auto simp: announced_def announces_def s split: option.splits)
qed

lemma roots_notify_pem: "roots_notify (Some r) e e' K \<Longrightarrow> ctl_rootCAsPEM (snd e') = rc_PEM r"
  by (erule roots_notify.cases) (auto simp: root_event_def Let_def)

lemma announced_deliver: "deliver_step sub s s' \<Longrightarrow> announced sub s \<Longrightarrow> announced sub s'"
  by (erule deliver_stepE)
     (auto simp: announced_def dest: roots_notify_pem split: option.splits if_splits)

lemma queue_step_pem:
  assumes "queue_step (cm_reconcile client) namespace_notifies (cm_touches client) q q'"
  shows "ctl_rootCAsPEM (snd (wq_env q')) = ctl_rootCAsPEM (snd (wq_env q))"
  using assms by (rule queue_stepE) (auto dest: work_step_env elim: namespace_notifies.cases)

lemma announced_step:
  assumes "rollout_step env sign client sub s s'" "announced sub s"
  shows "announced sub s'"
  using assms(1)
proof (rule rollout_stepE)
  fix q
  assume "s' = s\<lparr>ro_controller := q\<rparr>"
    "queue_step (cm_reconcile client) namespace_notifies (cm_touches client) (ro_controller s) q"
  with queue_step_pem [of client] assms(2) show ?thesis by (simp add: announced_def split: option.splits)
qed (use assms(2) in \<open>auto intro: announced_provider announced_deliver\<close>)

text \<open>Seen from the controller, every step is one of its queue or none.\<close>

lemma queue_step_namespace:
  "queue_step (cm_reconcile client) namespace_notifies (cm_touches client) q q' \<Longrightarrow>
   queue_step (cm_reconcile client) (cm_notifies roots) (cm_touches client) q q'"
  by (erule queue_stepE) (auto intro: queue_step.intros simp: cm_notifies_def)

lemma rollout_refines:
  fixes s :: "('c, 'kp, 'v, 's, 'w) rollout"
  assumes "rollout_step env sign client sub s s'"
  shows "ro_controller s' = ro_controller s \<or>
    (\<exists>roots :: 'c RootCAs option.
       queue_step (cm_reconcile client) (cm_notifies roots) (cm_touches client) (ro_controller s) (ro_controller s') \<and>
       (tidy (fst (wq_env (ro_controller s))) \<longrightarrow> tidy (fst (wq_env (ro_controller s')))))"
  using assms
proof (rule rollout_stepE)
  assume "deliver_step sub s s'"
  then show ?thesis
  proof (rule deliver_stepE)
    fix r :: "'c RootCAs" and e K
    assume s': "s' = s\<lparr>ro_handling := None, ro_controller := (ro_controller s)
        \<lparr>wq_env := e, wq_queue := wq_queue (ro_controller s) \<union> K\<rparr>\<rparr>"
      and n: "roots_notify (Some r) (wq_env (ro_controller s)) e K"
    then have "cm_notifies (Some r) (wq_env (ro_controller s)) e K" by (simp add: cm_notifies_def)
    then have "queue_step (cm_reconcile client) (cm_notifies (Some r)) (cm_touches client)
        (ro_controller s) (ro_controller s')"
      unfolding s' by (simp add: queue_step.Env)
    moreover have "fst (wq_env (ro_controller s')) = fst (wq_env (ro_controller s))"
      using roots_notify_lister [OF n] by (simp add: s')
    ultimately show ?thesis by (intro disjI2 exI [of _ "Some r"]) simp
  qed simp_all
next
  fix q
  assume s': "s' = s\<lparr>ro_controller := q\<rparr>"
    and q: "queue_step (cm_reconcile client) namespace_notifies (cm_touches client) (ro_controller s) q"
  have "tidy (fst (wq_env q))" if "tidy (fst (wq_env (ro_controller s)))"
    using q by (rule queue_stepE) (use that in \<open>auto dest: work_step_env tidy_notified\<close>)
  with queue_step_namespace [OF q] show ?thesis by (auto simp: s')
qed simp

definition rollout_inv ::
  "('w, KConfigMap) kube_client \<Rightarrow> nat \<Rightarrow> ('c, 'kp, 'v, 's, 'w) rollout \<Rightarrow> bool" where
  "rollout_inv client sub s \<longleftrightarrow>
     announced sub s \<and> cmq.settled client (ro_controller s) \<and>
     tidy (fst (wq_env (ro_controller s))) \<and> finite (pending (ro_controller s))"

lemma rollout_inv_step:
  fixes s :: "('c, 'kp, 'v, 's, 'w) rollout"
  assumes "cm_law client" "rollout_step env sign client sub s s'" "rollout_inv client sub s"
  shows "rollout_inv client sub s'"
  using rollout_refines [OF assms(2)]
proof
  assume "ro_controller s' = ro_controller s"
  with assms(3) announced_step [OF assms(2)] show ?thesis by (simp add: rollout_inv_def)
next
  assume "\<exists>roots :: 'c RootCAs option. queue_step (cm_reconcile client) (cm_notifies roots) (cm_touches client) (ro_controller s) (ro_controller s') \<and>
       (tidy (fst (wq_env (ro_controller s))) \<longrightarrow> tidy (fst (wq_env (ro_controller s'))))"
  then obtain roots :: "'c RootCAs option" where
    q: "queue_step (cm_reconcile client) (cm_notifies roots) (cm_touches client) (ro_controller s) (ro_controller s')"
    and "tidy (fst (wq_env (ro_controller s))) \<longrightarrow> tidy (fst (wq_env (ro_controller s')))" by blast
  with assms(3) announced_step [OF assms(2)] cmq.settled_step [OF assms(1) _ q] cm_pending_finite [OF q]
  show ?thesis by (simp add: rollout_inv_def)
qed

lemma rollout_inv_run:
  "(rollout_step env sign client sub)\<^sup>*\<^sup>* s s' \<Longrightarrow> cm_law client \<Longrightarrow> rollout_inv client sub s \<Longrightarrow>
   rollout_inv client sub s'"
  by (induction rule: rtranclp_induct) (auto intro: rollout_inv_step)

lemma rollout_inv_init:
  assumes "NewProvider TLSVersion TLSCipherSuites Nd opts = Inr tls"
    and "AddConfigMapController clientErr labels_Parse completeErr SubscribeRootCAsEvent
      \<lparr>cmo_TLS = tls, cmo_ConfigMapNamespaceSelector = selector, cmo_MaxConcurrentReconciles = n\<rparr> = (Inr reg, p)"
  shows "rollout_inv client (reg_rootCAsEvent reg) (rollout_init p reg st k)"
proof -
  have tls: "rc_PEM (prv_rootCAs tls) = []" using assms(1) by (auto simp: NewProvider_def split: sum.splits if_splits)
  then have "announced (reg_rootCAsEvent reg) (rollout_init p reg st k)"
    using assms(2)
    by (auto simp: AddConfigMapController_def SubscribeRootCAsEvent_def Let_def announced_def rollout_init_def
        provider_of_def split: option.splits sum.splits)
  then show ?thesis
    by (simp add: rollout_inv_def rollout_init_def cmq.settled_def cm_good_def eligible_def no_namespaces_def
        tidy_def pending_def)
qed

lemma rest_rolled_out:
  assumes "rollout_inv client sub s" "at_rest sub s"
  shows "rolled_out client s"
proof -
  have "cm_good client (wq_env (ro_controller s)) (wq_world (ro_controller s)) ns" for ns
    using assms by (intro cmq.settled_quiescent) (simp_all add: rollout_inv_def at_rest_def)
  moreover have "rc_PEM (prv_rootCAs (provider_of s)) = ctl_rootCAsPEM (snd (wq_env (ro_controller s)))"
    using assms by (simp add: rollout_inv_def at_rest_def announced_def)
  ultimately show ?thesis by (simp add: rolled_out_def cm_good_def)
qed

text \<open>
  The steps that only finish what is under way: deliveries of announcements and work on the queue.
\<close>

inductive settle_step ::
  "('w, KConfigMap) kube_client \<Rightarrow> nat \<Rightarrow> ('c, 'kp, 'v, 's, 'w) rollout \<Rightarrow> ('c, 'kp, 'v, 's, 'w) rollout \<Rightarrow> bool"
  for client sub where
  Delivery: "deliver_step sub s s' \<Longrightarrow> settle_step client sub s s'"
| Worker: "work_step (cm_reconcile client) (ro_controller s) q \<Longrightarrow>
    settle_step client sub s (s\<lparr>ro_controller := q\<rparr>)"

lemma settle_rollout: "settle_step client sub s s' \<Longrightarrow> rollout_step env sign client sub s s'"
  by (erule settle_step.cases) (auto intro: rollout_step.intros queue_step.intros)

lemma settle_run: "(settle_step client sub)\<^sup>*\<^sup>* s s' \<Longrightarrow> (rollout_step env sign client sub)\<^sup>*\<^sup>* s s'"
  by (rule mono_rtranclp [rule_format]) (rule settle_rollout)

lemma worker_run:
  "(work_step (cm_reconcile client))\<^sup>*\<^sup>* (ro_controller s) q \<Longrightarrow>
   (settle_step client sub)\<^sup>*\<^sup>* s (s\<lparr>ro_controller := q\<rparr>)"
proof (induction rule: rtranclp_induct)
  case (step q q')
  from settle_step.Worker [of client "s\<lparr>ro_controller := q\<rparr>" q'] step show ?case
    by (simp add: rtranclp.rtrancl_into_rtrancl)
qed simp

text \<open>These steps keep the provider's roots and the namespaces that are to have them.\<close>

definition same_goal :: "('c, 'kp, 'v, 's, 'w) rollout \<Rightarrow> ('c, 'kp, 'v, 's, 'w) rollout \<Rightarrow> bool" where
  "same_goal s s' \<longleftrightarrow>
     prv_rootCAs (provider_of s') = prv_rootCAs (provider_of s) \<and>
     (\<forall>ns. eligible (fst (wq_env (ro_controller s'))) (snd (wq_env (ro_controller s'))) ns =
        eligible (fst (wq_env (ro_controller s))) (snd (wq_env (ro_controller s))) ns)"

lemma roots_notify_eligible:
  "roots_notify roots e e' K \<Longrightarrow> eligible (fst e') (snd e') ns = eligible (fst e) (snd e) ns"
  by (erule roots_notify.cases) (auto simp: root_event_def eligible_def Let_def split: option.splits)

lemma same_goal_trans: "same_goal s s1 \<Longrightarrow> same_goal s1 s' \<Longrightarrow> same_goal s s'"
  by (simp add: same_goal_def)

text \<open>Deliveries leave the API alone, and with it what it serves.\<close>

lemma served_smooth:
  assumes "cm_law client" "served client up q" "tidy (fst (wq_env q))" "ctl_rootCAsPEM (snd (wq_env q)) \<noteq> []"
  shows "smooth (cm_reconcile client) (\<lambda>k. up (k_api k)) (wq_env q)" "up (k_api (wq_world q))"
  using assms cm_smooth [OF assms(1) _ assms(3,4)] by (auto simp: served_def)

lemma deliver_served:
  assumes "deliver_step sub s s'" "served client up (ro_controller s)"
  shows "served client up (ro_controller s')"
  using assms(1) by (rule deliver_stepE) (use assms(2) in \<open>simp_all add: served_def roots_notify_eligible\<close>)

lemma settle_step_goal: "settle_step client sub s s' \<Longrightarrow> same_goal s s'"
proof (induction rule: settle_step.induct)
  case (Delivery s s')
  then show ?case
    by (rule deliver_stepE) (simp_all add: same_goal_def roots_notify_eligible)
next
  case (Worker s q)
  from work_step_env [OF this] show ?case by (simp add: same_goal_def)
qed

lemma settle_run_goal: "(settle_step client sub)\<^sup>*\<^sup>* s s' \<Longrightarrow> same_goal s s'"
proof (induction rule: rtranclp_induct)
  case (step s1 s2)
  from same_goal_trans [OF step.IH settle_step_goal [OF step.hyps(2)]] show ?case .
qed (simp add: same_goal_def)

text \<open>Deliveries end.\<close>

definition undelivered :: "nat \<Rightarrow> ('c, 'kp, 'v, 's, 'w) rollout \<Rightarrow> nat" where
  "undelivered sub s =
     3 * count_list (prv_sends (provider_of s)) sub
     + (case ro_handling s of None \<Rightarrow> 0 | Some None \<Rightarrow> 2 | Some (Some r) \<Rightarrow> 1)"

lemma deliver_step_decreases:
  "deliver_step sub s s' \<Longrightarrow>
   undelivered sub s' < undelivered sub s \<and> prv_rootCAs (provider_of s') = prv_rootCAs (provider_of s)"
  by (erule deliver_stepE) (auto simp: undelivered_def)

lemma deliver_step_exists:
  assumes "populated (prv_rootCAs (provider_of s))" "tidy (fst (wq_env (ro_controller s)))"
    and "\<not> (sub \<notin> set (prv_sends (provider_of s)) \<and> ro_handling s = None)"
  shows "\<exists>s'. deliver_step sub s s'"
proof (cases "ro_handling s")
  case None
  with assms(3) obtain xs ys where "prv_sends (provider_of s) = xs @ sub # ys" by (auto dest: split_list)
  from deliver_step.Receive [OF this None] show ?thesis by blast
next
  case (Some h)
  show ?thesis
  proof (cases h)
    case None
    with Some assms(1) have "deliver_step sub s (s\<lparr>ro_handling := Some (Some (prv_rootCAs (provider_of s)))\<rparr>)"
      by (intro deliver_step.Load) simp_all
    then show ?thesis by blast
  next
    case (Some r)
    obtain lister c where e: "wq_env (ro_controller s) = (lister, c)" by fastforce
    with assms(2) obtain items where items: "coherent lister items" using tidy_coherent by auto
    obtain nss c' where "root_event c (Some r) (Inr items) = (Requests nss, c')"
      by (simp add: root_event_def Let_def)
    from roots_notify.intros [OF items this] e have "roots_notify (Some r) (wq_env (ro_controller s)) (lister, c') (set nss)"
      by simp
    from deliver_step.Store [OF \<open>ro_handling s = Some h\<close> [unfolded Some] this] show ?thesis by blast
  qed
qed

lemma deliveries_end:
  assumes "cm_law client" "rollout_inv client sub s" "populated (prv_rootCAs (provider_of s))"
    and "served client up (ro_controller s)"
  shows "\<exists>s'. (settle_step client sub)\<^sup>*\<^sup>* s s' \<and> rollout_inv client sub s' \<and> served client up (ro_controller s') \<and>
    sub \<notin> set (prv_sends (provider_of s')) \<and> ro_handling s' = None \<and>
    prv_rootCAs (provider_of s') = prv_rootCAs (provider_of s)"
  using assms(2-4)
proof (induction "undelivered sub s" arbitrary: s rule: less_induct)
  case less
  show ?case
  proof (cases "sub \<notin> set (prv_sends (provider_of s)) \<and> ro_handling s = None")
    case False
    with less.prems deliver_step_exists obtain s1 where s1: "deliver_step sub s s1"
      by (auto simp: rollout_inv_def)
    have "rollout_inv client sub s1"
      using rollout_inv_step [OF assms(1) rollout_step.Deliver [OF s1] less.prems(1)] .
    with less.hyps [of s1] deliver_step_decreases [OF s1] less.prems(2) deliver_served [OF s1 less.prems(3)] obtain s' where
      "(settle_step client sub)\<^sup>*\<^sup>* s1 s'" "rollout_inv client sub s'" "served client up (ro_controller s')" "sub \<notin> set (prv_sends (provider_of s'))"
      "ro_handling s' = None" "prv_rootCAs (provider_of s') = prv_rootCAs (provider_of s)"
      by auto
    moreover have "settle_step client sub s s1" using s1 by (rule settle_step.Delivery)
    ultimately show ?thesis by (meson converse_rtranclp_into_rtranclp)
  qed (use less.prems in auto)
qed

lemma rollout_settles:
  assumes "cm_law client" "served client up (ro_controller s)" "rollout_inv client sub s"
    and "populated (prv_rootCAs (provider_of s))"
  shows "\<exists>s'. (settle_step client sub)\<^sup>*\<^sup>* s s' \<and> at_rest sub s' \<and> rolled_out client s' \<and> same_goal s s'"
proof -
  obtain s1 where s1: "(settle_step client sub)\<^sup>*\<^sup>* s s1" "rollout_inv client sub s1" "served client up (ro_controller s1)"
    "sub \<notin> set (prv_sends (provider_of s1))" "ro_handling s1 = None"
    "prv_rootCAs (provider_of s1) = prv_rootCAs (provider_of s)"
    using deliveries_end [OF assms(1,3,4,2)] by blast
  then have "ctl_rootCAsPEM (snd (wq_env (ro_controller s1))) \<noteq> []"
    using assms(4) by (auto simp: rollout_inv_def announced_def populated_def)
  moreover have "tidy (fst (wq_env (ro_controller s1)))" using s1(2) by (simp add: rollout_inv_def)
  ultimately have "smooth (cm_reconcile client) (\<lambda>k. up (k_api k)) (wq_env (ro_controller s1))"
    "up (k_api (wq_world (ro_controller s1)))"
    using served_smooth [OF assms(1) s1(3)] by blast+
  then obtain q where q: "(work_step (cm_reconcile client))\<^sup>*\<^sup>* (ro_controller s1) q" "quiescent q"
    using cmq.work_drains [OF assms(1)] s1(2) unfolding rollout_inv_def by blast
  let ?s = "s1\<lparr>ro_controller := q\<rparr>"
  have run: "(settle_step client sub)\<^sup>*\<^sup>* s1 ?s" by (rule worker_run [OF q(1)])
  then have inv: "rollout_inv client sub ?s" using rollout_inv_run [OF settle_run assms(1) s1(2)] by blast
  have rest: "at_rest sub ?s" using s1(4,5) q(2) by (simp add: at_rest_def)
  have "(settle_step client sub)\<^sup>*\<^sup>* s ?s" using s1(1) run by (rule rtranclp_trans)
  with rest rest_rolled_out [OF inv rest] settle_run_goal show ?thesis by blast
qed

section \<open>Properties\<close>

text \<open>
  A provider that reads its roots from a file, a controller subscribed to it and one namespace, for
  the witnesses: the provider has read the file, and the namespace was added.
\<close>

definition demo_file_opts :: TlsOptions where
  "demo_file_opts = demo_tls_opts\<lparr>to_RootCAsCertFile := ''ca.pem''\<rparr>"

definition demo_file_provider :: "(string, string, string) Provider" where
  "demo_file_provider = demo_provider\<lparr>prv_opts := demo_file_opts\<rparr>"

definition demo_registration :: registration where
  "demo_registration = \<lparr>reg_controller = \<lparr>ctl_namespaceSelector = (\<lambda>_. True), ctl_rootCAsPEM = []\<rparr>,
     reg_MaxConcurrentReconciles = 1, reg_rootCAsEvent = 0\<rparr>"

definition demo_subscribed :: "(string, string, string) Provider" where
  "demo_subscribed = demo_file_provider\<lparr>prv_subscriptions := [0]\<rparr>"

definition demo_namespace :: Namespace where
  "demo_namespace = \<lparr>ns_Name = ''a'', ns_Labels = [], ns_Phase = NamespaceActive\<rparr>"

definition demo_roots :: "string RootCAs" where
  "demo_roots = \<lparr>rc_PEM = ''root'', rc_CertPool = Some [''root'']\<rparr>"

definition demo_rollout0 :: "(string, string, string, unit cluster, KConfigMap list) rollout" where
  "demo_rollout0 = rollout_init demo_subscribed demo_registration demo_cluster demo_kube"

definition demo_rollout :: "(string, string, string, unit cluster, KConfigMap list) rollout" where
  "demo_rollout = demo_rollout0
     \<lparr>ro_provider := (AtBackoff, demo_subscribed\<lparr>prv_rootCAs := demo_roots, prv_sends := [0]\<rparr>, demo_cluster),
      ro_controller := (ro_controller demo_rollout0)
        \<lparr>wq_env := (no_namespaces(''a'' := Inr demo_namespace), reg_controller demo_registration),
         wq_queue := {''a''}\<rparr>\<rparr>"

lemmas rollout_demo_defs = demo_rollout_def demo_rollout0_def rollout_init_def demo_subscribed_def
  demo_file_provider_def demo_file_opts_def demo_registration_def demo_namespace_def demo_roots_def

lemma demo_new: "NewProvider (\<lambda>_. Inr 0x0303) (\<lambda>_. Inr []) (\<lambda>_. False) demo_file_opts = Inr demo_file_provider"
  by (simp add: NewProvider_def demo_tls_opts_def demo_provider_def ParseCurvePreferences_def
      VersionTLS12_def demo_file_opts_def demo_file_provider_def)

lemma demo_add:
  "AddConfigMapController None (\<lambda>_. Inr (\<lambda>_. True)) None SubscribeRootCAsEvent
     \<lparr>cmo_TLS = demo_file_provider, cmo_ConfigMapNamespaceSelector = [], cmo_MaxConcurrentReconciles = 1\<rparr> =
     (Inr demo_registration, demo_subscribed)"
  by (simp add: AddConfigMapController_def SubscribeRootCAsEvent_def demo_registration_def demo_subscribed_def
      demo_file_provider_def demo_provider_def)

lemma demo_law: "cm_law (list_client km_key)"
  by (simp add: cm_law_def store_law_list_client isolated_list_client)

lemma demo_reached:
  "(rollout_step demo_tls_env (Sign demo_env demo_manager) (list_client km_key) 0)\<^sup>*\<^sup>* demo_rollout0 demo_rollout"
proof -
  let ?step = "rollout_step demo_tls_env (Sign demo_env demo_manager) (list_client km_key) 0"
  let ?s = "demo_rollout0\<lparr>ro_provider := provider_step demo_tls_env (Sign demo_env demo_manager)
     (ro_provider demo_rollout0) (RootFile demo_roots)\<rparr>"
  have "namespace_notifies (no_namespaces, reg_controller demo_registration)
      (no_namespaces(ns_Name demo_namespace := Inr demo_namespace), reg_controller demo_registration)
      (fst ` set (namespace_requests demo_namespace))"
    by (rule namespace_notifies.intros) simp
  then have "namespace_notifies (wq_env (ro_controller ?s))
      (no_namespaces(''a'' := Inr demo_namespace), reg_controller demo_registration) {''a''}"
    by (simp add: namespace_requests_def demo_namespace_def demo_rollout0_def rollout_init_def)
  from rollout_step.Queue [OF queue_step.Env, OF this] have "?step ?s demo_rollout"
    by (simp add: rollout_demo_defs root_file_update_def broadcast_def demo_provider_def)
  moreover have "?step demo_rollout0 ?s" by (rule rollout_step.ProviderStep)
  ultimately show ?thesis by (meson converse_rtranclp_into_rtranclp r_into_rtranclp)
qed

lemma demo_goal:
  "populated (prv_rootCAs (provider_of demo_rollout))" "prv_rootCAs (provider_of demo_rollout) = demo_roots"
  "eligible (fst (wq_env (ro_controller demo_rollout))) (snd (wq_env (ro_controller demo_rollout))) ''a''"
  by (simp_all add: rollout_demo_defs provider_of_def populated_def eligible_def)

lemma demo_served: "served (list_client km_key) (\<lambda>w. True) q"
  by (simp add: served_def serves_list_client)

text \<open>
  The same scenario for every program that reads its roots from a file and selects all namespaces.
\<close>

lemma rollout_scenario:
  fixes st :: 's
  assumes new: "NewProvider TLSVersion TLSCipherSuites Nd opts = Inr tls" and file_set: "to_RootCAsCertFile opts \<noteq> []"
    and add: "AddConfigMapController clientErr labels_Parse completeErr SubscribeRootCAsEvent
      \<lparr>cmo_TLS = tls, cmo_ConfigMapNamespaceSelector = selector, cmo_MaxConcurrentReconciles = n\<rparr> = (Inr reg, p)"
    and all: "ctl_namespaceSelector (reg_controller reg) = (\<lambda>_. True)"
    and law: "cm_law client" "serves km_key client (\<lambda>_. True) up" "up (k_api k)"
  shows "\<exists>s. (rollout_step env sign client (reg_rootCAsEvent reg))\<^sup>*\<^sup>* (rollout_init p reg st k) s \<and>
    at_rest (reg_rootCAsEvent reg) s \<and> prv_rootCAs (provider_of s) = demo_roots \<and>
    eligible (fst (wq_env (ro_controller s))) (snd (wq_env (ro_controller s))) ''a''"
proof -
  let ?step = "rollout_step env sign client (reg_rootCAsEvent reg)" let ?s0 = "rollout_init p reg st k"
  let ?s1 = "?s0\<lparr>ro_provider := provider_step env sign (ro_provider ?s0) (RootFile demo_roots)\<rparr>"
  let ?e = "(no_namespaces(ns_Name demo_namespace := Inr demo_namespace), reg_controller reg)"
  let ?q = "(ro_controller ?s1)\<lparr>wq_env := ?e, wq_queue := wq_queue (ro_controller ?s1) \<union>
      fst ` set (namespace_requests demo_namespace)\<rparr>"
  have opts: "prv_opts p = opts"
    using new add by (auto simp: AddConfigMapController_def SubscribeRootCAsEvent_def Let_def NewProvider_def
        split: option.splits sum.splits if_splits)
  have "namespace_notifies (wq_env (ro_controller ?s1)) ?e (fst ` set (namespace_requests demo_namespace))"
    by (simp add: rollout_init_def namespace_notifies.intros)
  then have "?step ?s1 (?s1\<lparr>ro_controller := ?q\<rparr>)" by (intro rollout_step.Queue queue_step.Env)
  with rollout_step.ProviderStep [of env sign client "reg_rootCAsEvent reg" ?s0 "RootFile demo_roots"]
  have run: "?step\<^sup>*\<^sup>* ?s0 (?s1\<lparr>ro_controller := ?q\<rparr>)" by (meson converse_rtranclp_into_rtranclp r_into_rtranclp)
  have roots: "prv_rootCAs (provider_of (?s1\<lparr>ro_controller := ?q\<rparr>)) = demo_roots"
    using file_set opts by (simp add: rollout_init_def root_file_update_def provider_of_def)
  then have "populated (prv_rootCAs (provider_of (?s1\<lparr>ro_controller := ?q\<rparr>)))"
    by (simp only: roots) (simp add: demo_roots_def populated_def)
  moreover have "served client up (ro_controller (?s1\<lparr>ro_controller := ?q\<rparr>))"
    using law(2,3) by (simp add: served_def serves_def rollout_init_def)
  ultimately have "\<exists>s'. (settle_step client (reg_rootCAsEvent reg))\<^sup>*\<^sup>* (?s1\<lparr>ro_controller := ?q\<rparr>) s' \<and>
      at_rest (reg_rootCAsEvent reg) s' \<and> rolled_out client s' \<and> same_goal (?s1\<lparr>ro_controller := ?q\<rparr>) s'"
    using rollout_settles [OF law(1) _ rollout_inv_run [OF run law(1) rollout_inv_init [OF new add]]] by blast
  then obtain s where s: "(settle_step client (reg_rootCAsEvent reg))\<^sup>*\<^sup>* (?s1\<lparr>ro_controller := ?q\<rparr>) s"
    "at_rest (reg_rootCAsEvent reg) s" "same_goal (?s1\<lparr>ro_controller := ?q\<rparr>) s"
    by blast
  have "eligible (no_namespaces(ns_Name demo_namespace := Inr demo_namespace)) (reg_controller reg) ''a''"
    by (simp add: eligible_def demo_namespace_def all)
  with s(3) roots have "prv_rootCAs (provider_of s) = demo_roots"
    "eligible (fst (wq_env (ro_controller s))) (snd (wq_env (ro_controller s))) ''a''"
    by (simp_all add: same_goal_def)
  with rtranclp_trans [OF run settle_run [OF s(1)]] s(2) show ?thesis by blast
qed

text \<open>
  C13: And it gets there: from every state that can be reached, whatever failed before, in which the
  provider holds roots and from which on the API serves the controller (an object that does not exist
  can be created, one that exists can be updated, in the namespaces that are to have the roots),
  deliveries and workers alone lead to a state in which nothing is under way and every namespace that
  was to have the roots has them.
\<close>

theorem rollout_completes:
  assumes "NewProvider TLSVersion TLSCipherSuites Nd opts = Inr tls"
    and "AddConfigMapController clientErr labels_Parse completeErr SubscribeRootCAsEvent
      \<lparr>cmo_TLS = tls, cmo_ConfigMapNamespaceSelector = selector, cmo_MaxConcurrentReconciles = n\<rparr> = (Inr reg, p)"
    and "cm_law client"
    and "(rollout_step env sign client (reg_rootCAsEvent reg))\<^sup>*\<^sup>* (rollout_init p reg st k) s"
    and "populated (prv_rootCAs (provider_of s))" and "served client up (ro_controller s)"
  shows "\<exists>s'. (settle_step client (reg_rootCAsEvent reg))\<^sup>*\<^sup>* s s' \<and> at_rest (reg_rootCAsEvent reg) s' \<and>
    (\<forall>ns. eligible (fst (wq_env (ro_controller s))) (snd (wq_env (ro_controller s))) ns \<longrightarrow>
       up_to_date client (wq_world (ro_controller s')) (rc_PEM (prv_rootCAs (provider_of s))) ns)"
  using rollout_settles [OF assms(3,6) rollout_inv_run [OF assms(4,3) rollout_inv_init [OF assms(1,2)]] assms(5)]
  by (auto simp: rolled_out_def same_goal_def)

theorem rollout_completes_witness:
  "\<exists>s'. (settle_step (list_client km_key) 0)\<^sup>*\<^sup>* demo_rollout s' \<and>
     up_to_date (list_client km_key) (wq_world (ro_controller s')) ''root'' ''a''"
proof -
  have "(rollout_step demo_tls_env (Sign demo_env demo_manager) (list_client km_key) (reg_rootCAsEvent demo_registration))\<^sup>*\<^sup>*
      (rollout_init demo_subscribed demo_registration demo_cluster demo_kube) demo_rollout"
    using demo_reached by (simp add: demo_rollout0_def demo_registration_def)
  from rollout_completes [OF demo_new demo_add demo_law this demo_goal(1) demo_served] demo_goal(2,3)
  show ?thesis by (auto simp: demo_registration_def demo_roots_def)
qed

text \<open>
  C14: The workers finish: in every state that can be reached in which the controller knows the roots and
  from which on the API serves it, they make at most twelve steps for each request that waits or is in
  progress, whatever the order, although their own writes enqueue requests again, and stop only when
  no request is left.
\<close>

theorem workers_finish:
  assumes "NewProvider TLSVersion TLSCipherSuites Nd opts = Inr tls"
    and "AddConfigMapController clientErr labels_Parse completeErr SubscribeRootCAsEvent
      \<lparr>cmo_TLS = tls, cmo_ConfigMapNamespaceSelector = selector, cmo_MaxConcurrentReconciles = n\<rparr> = (Inr reg, p)"
    and "cm_law client"
    and "(rollout_step env sign client (reg_rootCAsEvent reg))\<^sup>*\<^sup>* (rollout_init p reg st k) s"
    and "served client up (ro_controller s)" and "ctl_rootCAsPEM (snd (wq_env (ro_controller s))) \<noteq> []"
    and "((work_step (cm_reconcile client)) ^^ steps) (ro_controller s) q"
  shows "steps \<le> 12 * card (pending (ro_controller s)) \<and>
    ((\<nexists>q'. work_step (cm_reconcile client) q q') \<longrightarrow> quiescent q)"
proof -
  have inv: "rollout_inv client (reg_rootCAsEvent reg) s"
    by (rule rollout_inv_run [OF assms(4,3) rollout_inv_init [OF assms(1,2)]])
  then have "smooth (cm_reconcile client) (\<lambda>k. up (k_api k)) (wq_env (ro_controller s))"
    "up (k_api (wq_world (ro_controller s)))"
    using served_smooth [OF assms(3,5) _ assms(6)] by (simp_all add: rollout_inv_def)
  with inv cmq.work_bounded [OF assms(3) _ _ _ _ assms(7)] have "steps \<le> 12 * card (pending (ro_controller s))"
    by (simp add: rollout_inv_def)
  with work_step_exists [of q] show ?thesis by blast
qed

text \<open>The same program after the announcement was handled.\<close>

definition demo_delivered :: "(string, string, string, unit cluster, KConfigMap list) rollout" where
  "demo_delivered = demo_rollout
     \<lparr>ro_provider := (AtBackoff, demo_subscribed\<lparr>prv_rootCAs := demo_roots\<rparr>, demo_cluster),
      ro_controller := (ro_controller demo_rollout)\<lparr>wq_env := (no_namespaces(''a'' := Inr demo_namespace),
        (reg_controller demo_registration)\<lparr>ctl_rootCAsPEM := ''root''\<rparr>)\<rparr>\<rparr>"

lemma demo_delivered_reached: "(deliver_step 0)\<^sup>*\<^sup>* demo_rollout demo_delivered"
proof -
  let ?s1 = "(set_provider ((provider_of demo_rollout)\<lparr>prv_sends := [] @ []\<rparr>) demo_rollout)\<lparr>ro_handling := Some None\<rparr>"
  let ?s2 = "?s1\<lparr>ro_handling := Some (Some demo_roots)\<rparr>"
  have "deliver_step 0 demo_rollout ?s1"
    by (rule deliver_step.Receive) (simp_all add: rollout_demo_defs provider_of_def)
  moreover have "deliver_step 0 ?s1 ?s2"
    by (rule deliver_step.Load) (use demo_goal(1,2) in simp_all)
  moreover have "roots_notify (Some demo_roots) (wq_env (ro_controller ?s2))
      (no_namespaces(''a'' := Inr demo_namespace), (reg_controller demo_registration)\<lparr>ctl_rootCAsPEM := ''root''\<rparr>)
      (set [''a''])"
    using roots_notify.intros [of "no_namespaces(''a'' := Inr demo_namespace)" "[demo_namespace]"
        "reg_controller demo_registration" "Some demo_roots" "[''a'']"]
    by (simp add: coherent_def no_namespaces_def root_event_def rollout_demo_defs)
  from deliver_step.Store [of ?s2, OF _ this] have "deliver_step 0 ?s2 demo_delivered"
    by (simp add: demo_delivered_def demo_rollout_def set_provider_def provider_of_def demo_rollout0_def
        rollout_init_def demo_subscribed_def demo_file_provider_def demo_provider_def)
  ultimately show ?thesis by (meson converse_rtranclp_into_rtranclp rtranclp.rtrancl_refl)
qed

theorem workers_finish_witness:
  "\<exists>q. ((work_step (cm_reconcile (list_client km_key))) ^^ 1) (ro_controller demo_delivered) q \<and>
     1 \<le> 12 * card (pending (ro_controller demo_delivered))"
proof -
  let ?c = "list_client km_key"
  have "(rollout_step demo_tls_env (Sign demo_env demo_manager) ?c 0)\<^sup>*\<^sup>* demo_rollout demo_delivered"
    using demo_delivered_reached by (rule mono_rtranclp [rule_format, rotated]) (rule rollout_step.Deliver)
  from rtranclp_trans [OF demo_reached this]
  have run: "(rollout_step demo_tls_env (Sign demo_env demo_manager) ?c (reg_rootCAsEvent demo_registration))\<^sup>*\<^sup>*
      (rollout_init demo_subscribed demo_registration demo_cluster demo_kube) demo_delivered"
    by (simp add: demo_rollout0_def demo_registration_def)
  have "''a'' \<in> wq_queue (ro_controller demo_delivered)" "wq_active (ro_controller demo_delivered) ''a'' = None"
    by (simp_all add: demo_delivered_def rollout_demo_defs)
  then obtain q where "work_step (cm_reconcile ?c) (ro_controller demo_delivered) q"
    using work_step.Take [of "''a''" "ro_controller demo_delivered" "cm_reconcile ?c"] that by blast
  then have q: "((work_step (cm_reconcile ?c)) ^^ 1) (ro_controller demo_delivered) q" by (auto simp: relcompp_apply)
  have "ctl_rootCAsPEM (snd (wq_env (ro_controller demo_delivered))) \<noteq> []" by (simp add: demo_delivered_def)
  from workers_finish [OF demo_new demo_add demo_law run demo_served this q] q show ?thesis by blast
qed

end
