(* ===== verification/Istiod_Queue.thy ===== *)
theory Istiod_Queue
  imports Work_Queue Istiod_Cert
begin

text \<open>
  The controller of the istiod certificate under its work queue. Its watches, registered by
  \<open>AddControllersToManager\<close>, only ever enqueue one request, for the configured certificate, so the
  type of requests is \<^typ>\<open>unit\<close>. The environment is the issuer that the provisioner holds, the
  world the state of the API; the fields of the provisioner that never change are those of \<open>d\<close>.
\<close>

section \<open>Model\<close>

definition istiod_reconcile ::
  "('w, Certificate) kube_client \<Rightarrow> DynamicIstiodCertProvisioner \<Rightarrow>
   (unit, IssuerReference option, 'w) reconcile" where
  "istiod_reconcile client d issuerRef w u =
     (case Istiod_Reconcile client (d\<lparr>dicp_issuerRef := issuerRef\<rparr>) \<lparr>k_api = w, k_writes = []\<rparr>
             (io_CertificateNamespace (dicp_opts d)) (io_CertificateName (dicp_opts d)) of
        (err, k) \<Rightarrow> (err \<noteq> None, k_api k))"

text \<open>
  A notification of an issuer, other than the withdrawal that makes \<open>handleNewIssuer\<close> return early;
  the request is enqueued when an event was sent on the channel.
\<close>

inductive istiod_notifies ::
  "DynamicIstiodCertProvisioner \<Rightarrow> IssuerReference option \<Rightarrow> IssuerReference option \<Rightarrow> unit set \<Rightarrow> bool"
  for d where
  "newIssuer \<noteq> None \<or> dicp_initialIssuerRef d = None \<Longrightarrow>
   d' = handleNewIssuer (d\<lparr>dicp_issuerRef := issuerRef\<rparr>) newIssuer \<Longrightarrow>
   istiod_notifies d issuerRef (dicp_issuerRef d') {u. dicp_events d' \<noteq> dicp_events d}"

text \<open>The watch on Certificates, with its predicate.\<close>

definition istiod_touches ::
  "('w, Certificate) kube_client \<Rightarrow> DynamicIstiodCertProvisioner \<Rightarrow> 'w \<Rightarrow> 'w \<Rightarrow> unit set \<Rightarrow> bool" where
  "istiod_touches client d w w' K \<longleftrightarrow>
     (\<forall>ns name obj. kc_Get client w ns name \<noteq> kc_Get client w' ns name \<and>
        (kc_Get client w ns name = Inr obj \<or> kc_Get client w' ns name = Inr obj) \<and>
        watches_certificate d obj \<longrightarrow> () \<in> K)"

text \<open>The queue when \<open>Start\<close> has handled the issuer known at start-up.\<close>

definition istiod_init :: "DynamicIstiodCertProvisioner \<Rightarrow> 'w \<Rightarrow> (unit, IssuerReference option, 'w) work_queue" where
  "istiod_init d w =
     \<lparr>wq_queue = {u. dicp_events (Istiod_Start d []) \<noteq> []}, wq_active = Map.empty,
      wq_env = dicp_issuerRef (Istiod_Start d []), wq_world = w\<rparr>"

section \<open>Specification\<close>

definition istiod_law :: "('w, Certificate) kube_client \<Rightarrow> bool" where
  "istiod_law client \<longleftrightarrow> store_law cert_key client \<and> noop_updates cert_key client"

text \<open>The goal: with an issuer, the Certificate has the desired specification for it.\<close>

definition istiod_good ::
  "('w, Certificate) kube_client \<Rightarrow> DynamicIstiodCertProvisioner \<Rightarrow> IssuerReference option \<Rightarrow> 'w \<Rightarrow> unit \<Rightarrow> bool" where
  "istiod_good client d issuerRef w u \<longleftrightarrow>
     (\<forall>ref. issuerRef = Some ref \<longrightarrow>
        (\<exists>c. kc_Get client w (io_CertificateNamespace (dicp_opts d)) (io_CertificateName (dicp_opts d)) = Inr c \<and>
           cert_Spec c = desiredSpec d ref (io_CertificateNamespace (dicp_opts d))))"

section \<open>Lemmas\<close>

lemma desiredSpec_ref [simp]: "desiredSpec (d\<lparr>dicp_issuerRef := r\<rparr>) = desiredSpec d"
  by (intro ext) (simp add: desiredSpec_def case_prod_beta)

lemma istiod_reaches_goal:
  assumes "istiod_law client" "istiod_reconcile client d issuerRef w u = (False, w')"
  shows "istiod_good client d issuerRef w' u"
  unfolding istiod_good_def
proof (intro allI impI)
  fix ref
  assume Some: "issuerRef = Some ref"
  let ?ns = "io_CertificateNamespace (dicp_opts d)" let ?name = "io_CertificateName (dicp_opts d)"
  let ?k = "\<lparr>k_api = w, k_writes = []\<rparr>"
  have law: "store_law cert_key client" using assms(1) by (simp add: istiod_law_def)
  from assms(2) obtain k' where r: "Istiod_Reconcile client (d\<lparr>dicp_issuerRef := issuerRef\<rparr>) ?k ?ns ?name = (None, k')"
    and w': "w' = k_api k'"
    by (auto simp: istiod_reconcile_def split: prod.splits)
  have "\<exists>c. kube_Get client k' ?ns ?name = Inr c \<and> cert_Spec c = desiredSpec d ref ?ns"
  proof (cases "kube_Get client ?k ?ns ?name")
    case (Inl e)
    with r Some show ?thesis
      using store_law_create [OF law, of ?k _ k' ?ns ?name]
      by (cases e) (auto simp: Istiod_Reconcile_def cert_key_def)
  next
    case (Inr c)
    with r Some store_law_get [OF law Inr] show ?thesis
      using store_law_update [OF law, of ?k _ k' ?ns ?name]
      by (auto simp: Istiod_Reconcile_def cert_key_def)
  qed
  then show "\<exists>c. kc_Get client w' ?ns ?name = Inr c \<and> cert_Spec c = desiredSpec d ref ?ns"
    by (simp add: w' kube_Get_def)
qed

lemma istiod_idle:
  assumes "istiod_law client" "istiod_good client d issuerRef w u"
    "istiod_reconcile client d issuerRef w u = (again, w')"
  shows "w' = w"
proof (cases issuerRef)
  case None
  with assms(3) show ?thesis by (simp add: istiod_reconcile_def Istiod_Reconcile_def)
next
  case (Some ref)
  let ?ns = "io_CertificateNamespace (dicp_opts d)" let ?name = "io_CertificateName (dicp_opts d)"
  from assms(2) Some obtain c where c: "kc_Get client w ?ns ?name = Inr c"
    and spec: "cert_Spec c = desiredSpec d ref ?ns" by (auto simp: istiod_good_def)
  have "cert_key c = (?ns, ?name)" using assms(1) c by (simp add: istiod_law_def store_law_def)
  with assms(1) c have "snd (kc_Update client w c) = w" by (auto simp: istiod_law_def noop_updates_def)
  moreover have "c\<lparr>cert_Spec := desiredSpec d ref ?ns\<rparr> = c" by (simp flip: spec)
  ultimately show ?thesis
    using assms(3) Some c
    by (auto simp: istiod_reconcile_def Istiod_Reconcile_def kube_Get_def kube_Update_def split: prod.splits)
qed

lemma istiod_notified:
  assumes "istiod_notifies d r r' K" "u \<notin> K"
  shows False
  using assms by cases (auto simp: handleNewIssuer_def)

lemma istiod_touched:
  assumes "istiod_law client" "istiod_touches client d w w' K" "u \<notin> K"
  shows "istiod_good client d r w' u = istiod_good client d r w u"
proof -
  let ?ns = "io_CertificateNamespace (dicp_opts d)" let ?name = "io_CertificateName (dicp_opts d)"
  have "watches_certificate d obj" if "kc_Get client w0 ?ns ?name = Inr obj" for obj w0
  proof -
    have "cert_key obj = (?ns, ?name)" using assms(1) that by (simp add: istiod_law_def store_law_def)
    then show ?thesis by (simp add: watches_certificate_def cert_key_def)
  qed
  moreover have "() \<notin> K" using assms(3) by (metis unit_eq)
  ultimately have "kc_Get client w ?ns ?name = Inr obj \<longleftrightarrow> kc_Get client w' ?ns ?name = Inr obj" for obj
    using assms(2) unfolding istiod_touches_def by metis
  then show ?thesis by (simp add: istiod_good_def)
qed

interpretation isq: reconciler "istiod_law client" "istiod_reconcile client d" "istiod_notifies d"
  "istiod_touches client d" "istiod_good client d"
  for client :: "('w, Certificate) kube_client" and d
proof unfold_locales
  fix e w k w' again k' e' K
  assume law: "istiod_law client"
  show "istiod_reconcile client d e w k = (False, w') \<Longrightarrow> istiod_good client d e w' k"
    by (rule istiod_reaches_goal [OF law])
  show "k' \<noteq> k \<Longrightarrow> istiod_good client d e' w' k' = istiod_good client d e' w k'" by simp
  show "istiod_good client d e w k \<Longrightarrow> istiod_reconcile client d e w k = (again, w') \<Longrightarrow> w' = w"
    by (rule istiod_idle [OF law])
  show "istiod_notifies d e e' K \<Longrightarrow> k \<notin> K \<Longrightarrow> agrees (istiod_reconcile client d) (istiod_good client d) e e' k"
    using istiod_notified by blast
  show "istiod_touches client d w w' K \<Longrightarrow> k \<notin> K \<Longrightarrow> istiod_good client d e w' k = istiod_good client d e w k"
    by (rule istiod_touched [OF law])
qed

lemma istiod_init_good:
  assumes "Istiod_New clientErr opts m td = (Inr d, m')"
  shows "u \<in> wq_queue (istiod_init d w) \<or>
    istiod_good client d (wq_env (istiod_init d w)) (wq_world (istiod_init d w)) u"
  using assms
  by (auto simp: Istiod_New_def istiod_init_def Istiod_Start_def istiod_good_def handleNewIssuer_def
      split: option.splits prod.splits)

section \<open>Properties\<close>

text \<open>
  Once the queue is at rest, and no withdrawal of the run-time configuration was received beside
  an issuer given at start-up, the istiod Certificate has the desired specification for the issuer
  the provisioner holds, whatever the order of notifications, changes of the Certificate by others,
  and failed calls.
\<close>

lemma istiod_rest_desired:
  assumes "Istiod_New clientErr opts m td = (Inr d, m')" and "istiod_law client"
    and "(queue_step (istiod_reconcile client d) (istiod_notifies d) (istiod_touches client d))\<^sup>*\<^sup>* (istiod_init d w) s"
    and "quiescent s" and "wq_env s = Some ref"
  shows "\<exists>c. kc_Get client (wq_world s) (io_CertificateNamespace opts) (io_CertificateName opts) = Inr c \<and>
    cert_Spec c = desiredSpec d ref (io_CertificateNamespace opts)"
proof -
  have "istiod_good client d (wq_env s) (wq_world s) ()"
    by (rule isq.quiescent_good [OF assms(2) _ istiod_init_good [OF assms(1)] assms(3,4)]) (simp add: istiod_init_def)
  moreover have "dicp_opts d = opts" using assms(1) by (auto simp: Istiod_New_def split: option.splits prod.splits)
  ultimately show ?thesis using assms(5) by (simp add: istiod_good_def)
qed

lemma demo_istiod_law: "istiod_law (map_client cert_key)"
  by (simp add: istiod_law_def map_client_laws map_client_noop)

text \<open>While the API serves, and accepts objects in the namespace of the Certificate, no call fails.\<close>

lemma istiod_keeps_up:
  assumes "serves cert_key client accepts up" "up w"
  shows "up (snd (istiod_reconcile client d ref w u))"
  using assms(2) serves_create(1) [OF assms(1), of "\<lparr>k_api = w, k_writes = []\<rparr>"]
    serves_update(1) [OF assms(1), of "\<lparr>k_api = w, k_writes = []\<rparr>"]
  by (auto simp: istiod_reconcile_def Istiod_Reconcile_def split: option.splits sum.splits api_error.splits prod.splits)

lemma istiod_served:
  assumes "istiod_law client" "serves cert_key client accepts up" "up w"
    and "accepts (io_CertificateNamespace (dicp_opts d))"
  shows "\<not> fst (istiod_reconcile client d issuerRef w u)"
proof (cases issuerRef)
  case None
  then show ?thesis by (simp add: istiod_reconcile_def Istiod_Reconcile_def)
next
  case (Some ref)
  let ?ns = "io_CertificateNamespace (dicp_opts d)" let ?name = "io_CertificateName (dicp_opts d)"
  let ?k = "\<lparr>k_api = w, k_writes = []\<rparr>"
  have "store_law cert_key client" using assms(1) by (simp add: istiod_law_def)
  note get = store_law_get [OF this, of ?k]
  have create: "kube_Get client ?k ?ns ?name = Inl NotFound \<Longrightarrow> cert_key obj = (?ns, ?name) \<Longrightarrow>
      fst (kube_Create client ?k obj) = None"
    and update: "kube_Get client ?k ?ns ?name = Inr stored \<Longrightarrow> cert_key obj = (?ns, ?name) \<Longrightarrow>
      fst (kube_Update client ?k obj) = None" for obj stored
    using serves_create(2) [OF assms(2), of ?k obj] serves_update(2) [OF assms(2), of ?k obj] assms(3,4)
    by (metis kube.select_convs(1) prod.collapse)+
  show ?thesis
  proof (cases "kube_Get client ?k ?ns ?name")
    case (Inl e)
    with serves_get [OF assms(2), of ?k] assms(3) have "e = NotFound" by (cases e) auto
    with Some Inl create show ?thesis
      by (simp add: istiod_reconcile_def Istiod_Reconcile_def cert_key_def split_beta)
  next
    case (Inr c)
    with Some update [OF Inr] get [OF Inr] show ?thesis
      by (simp add: istiod_reconcile_def Istiod_Reconcile_def cert_key_def split_beta)
  qed
qed

lemma istiod_smooth:
  assumes "istiod_law client" "serves cert_key client accepts up" "accepts (io_CertificateNamespace (dicp_opts d))"
  shows "smooth (istiod_reconcile client d) up ref"
  using istiod_keeps_up [OF assms(2)] istiod_served [OF assms(1,2) _ assms(3)] by (simp add: smooth_def)

end
