(* ===== verification/App.thy ===== *)
theory App
  imports Flags Root_Rollout Istiod_Queue
begin

text \<open>
  \<open>cmd/app\<close> and \<open>cmd/main.go\<close>: the completion of the options, the start-up function that builds the
  components and registers them with the controller manager, and the exit code of the program.
  The results of calls outside the repository (logging set-up, Kubernetes clients, the controller
  manager) are the fields of \<open>run_env\<close>.
\<close>

section \<open>Completing the options\<close>

text \<open>\<open>strings.ToLower\<close>: byte-wise on ASCII text, the parameter \<open>L\<close> on other text.\<close>

definition ascii_lower :: "char \<Rightarrow> char" where
  "ascii_lower c =
     (let n = of_char c :: nat in if 65 \<le> n \<and> n \<le> 90 then char_of (n + 32) else c)"

definition strings_ToLower :: "(string \<Rightarrow> string) \<Rightarrow> string \<Rightarrow> string" where
  "strings_ToLower L s = (if list_all (\<lambda>c. (of_char c :: nat) < 128) s then map ascii_lower s else L s)"

text \<open>What \<open>Complete\<close> hands to the logging library: format and verbosity.\<close>

record LoggingConfiguration =
  lc_Format :: string
  lc_Verbosity :: "32 word"

record complete_env =
  ce_ToLower :: "string \<Rightarrow> string"
  ce_ToUpper :: "string \<Rightarrow> string"
  ce_IsDNS1123Subdomain :: "string \<Rightarrow> string list"
  ce_ValidateAndApply :: "LoggingConfiguration \<Rightarrow> error option"
  ce_istiolog_Configure :: "bool \<Rightarrow> error option"
  ce_ToRESTConfig :: "error + rest_Config"

definition Complete :: "complete_env \<Rightarrow> AppOptions \<Rightarrow> error option \<times> AppOptions" where
  "Complete env o' =
     (let o1 = (if ao_logFormat o' = [] then o'\<lparr>ao_logFormat := ''text''\<rparr> else o');
          o2 = o1\<lparr>ao_logFormat := strings_ToLower (ce_ToLower env) (ao_logFormat o1)\<rparr> in
      if ao_logFormat o2 \<noteq> ''json'' \<and> ao_logFormat o2 \<noteq> ''text''
      then (Some (Errorf ''invalid log-format; must be either \"text\" or \"json\"''), o2)
      else case ce_ValidateAndApply env \<lparr>lc_Format = ao_logFormat o2, lc_Verbosity = ao_logLevel o2\<rparr> of
        Some err \<Rightarrow> (Some (Wrapf ''failed to set log config: %w'' err), o2)
      | None \<Rightarrow>
     (case ce_istiolog_Configure env (ao_logFormat o2 = ''json'') of
        Some err \<Rightarrow> (Some (Wrapf ''failed to configure istio logging: %w'' err), o2)
      | None \<Rightarrow>
     if to_ServingCertificateDNSNames (ao_TLS o2) = []
     then (Some (Errorf ''the list of DNS names to add to the serving certificate is empty''), o2)
     else case ce_ToRESTConfig env of
        Inl err \<Rightarrow> (Some (Wrapf ''failed to build kubernetes rest config: %s'' err), o2)
      | Inr cfg \<Rightarrow>
     (let o3 = o2\<lparr>ao_RestConfig := Some
            (if oc_DisableKubernetesClientRateLimiter (ao_Controller o2)
             then cfg\<lparr>rest_QPS := -1, rest_Burst := -1\<rparr> else cfg)\<rparr> in
      if oc_MaxConcurrentReconciles (ao_Controller o3) < 1
      then (Some (Errorf ''max-concurrent-reconciles must be at least 1, got %d''), o3)
      else case Validate (ce_ToUpper env) (ce_IsDNS1123Subdomain env)
                  ((ao_IstiodCert o3)\<lparr>io_MaxConcurrentReconciles := oc_MaxConcurrentReconciles (ao_Controller o3)\<rparr>) of
             (err, istiod) \<Rightarrow> (err, o3\<lparr>ao_IstiodCert := istiod\<rparr>))))"

section \<open>Start-up\<close>

text \<open>What is registered with the controller manager, in this order.\<close>

datatype runnable = IstiodCertController | IssuanceWatcher | TLSProviderRunnable | GRPCServerRunnable | ConfigMapRunnable

datatype readyz = TLSProviderCheck | GRPCServerCheck

text \<open>The options \<open>RunE\<close> creates the controller manager with; \<open>%d\<close> of an integer.\<close>

definition fmt_d :: "int \<Rightarrow> string" where
  "fmt_d i = (if i < 0 then CHR ''-'' # decimal (nat (- i)) else decimal (nat i))"

record ManagerOptions =
  mo_LeaderElection :: bool
  mo_LeaderElectionNamespace :: string
  mo_LeaderElectionID :: string
  mo_LeaderElectionReleaseOnCancel :: bool
  mo_ReadinessEndpointName :: string
  mo_HealthProbeBindAddress :: string
  mo_MetricsBindAddress :: string

definition manager_options :: "AppOptions \<Rightarrow> ManagerOptions" where
  "manager_options opts =
     \<lparr>mo_LeaderElection = True, mo_LeaderElectionNamespace = oc_LeaderElectionNamespace (ao_Controller opts),
      mo_LeaderElectionID = ''istio-csr'', mo_LeaderElectionReleaseOnCancel = True,
      mo_ReadinessEndpointName = ao_ReadyzPath opts,
      mo_HealthProbeBindAddress = ''0.0.0.0:'' @ fmt_d (ao_ReadyzPort opts),
      mo_MetricsBindAddress = ''0.0.0.0:'' @ fmt_d (ao_MetricsPort opts)\<rparr>"

record ('c, 'kp, 'v, 'ctx) app =
  app_cm :: manager
  app_manager :: ManagerOptions
  app_eventNamespace :: string
  app_istiod :: "(DynamicIstiodCertProvisioner \<times> istiod_registration) option"
  app_tls :: "('c, 'kp, 'v) Provider"
  app_server :: "'ctx Server"
  app_configmap :: registration
  app_runnables :: "runnable list"
  app_checks :: "readyz list"

text \<open>Errors (nil or not) of the calls into libraries, in the order they are made, and the library functions.\<close>

record 'ctx run_env =
  re_complete :: complete_env
  re_ValidateAnnotations :: "strmap \<Rightarrow> error option"
  re_cmK8s :: "error option"
  re_cmClient :: "error option"
  re_scheme :: "error option"
  re_cmScheme :: "error option"
  re_kubeClient :: "error option"
  re_NewManager :: "ManagerOptions \<Rightarrow> error option"
  re_istiodClient :: "error option"
  re_istiodComplete :: "error option"
  re_istiodAdd :: "error option"
  re_AddRuntimeWatcher :: "error option"
  re_TLSVersion :: "string \<Rightarrow> error + 16 word"
  re_TLSCipherSuites :: "string list \<Rightarrow> error + 16 word list"
  re_Nd :: "nat \<Rightarrow> bool"
  re_AddTLSCheck :: "error option"
  re_AddTLS :: "error option"
  re_serverClient :: "error option"
  re_clientCertAuthenticator :: "'ctx Authenticator"
  re_kubeJWTAuthenticator :: "'ctx Authenticator"
  re_newAuthorizer :: "NamespacedName set \<Rightarrow> ClusterNodeAuthorizer"
  re_AddServerCheck :: "error option"
  re_AddServer :: "error option"
  re_configmapClient :: "error option"
  re_labels_Parse :: "string \<Rightarrow> error + (strmap \<Rightarrow> bool)"
  re_configmapComplete :: "error option"

definition wrap_check :: "string \<Rightarrow> error option \<Rightarrow> error + unit" where
  "wrap_check msg e = (case e of None \<Rightarrow> Inr () | Some err \<Rightarrow> Inl (Wrapf msg err))"

text \<open>Sequencing of calls that may fail: the first error is returned.\<close>

definition seq :: "error + 'a \<Rightarrow> ('a \<Rightarrow> error + 'b) \<Rightarrow> error + 'b" where
  "seq r f = (case r of Inl err \<Rightarrow> Inl err | Inr x \<Rightarrow> f x)"

text \<open>The part that provisions the istiod certificate, when it is enabled.\<close>

definition start_istiod ::
  "'ctx run_env \<Rightarrow> AppOptions \<Rightarrow> manager
   \<Rightarrow> error + (DynamicIstiodCertProvisioner \<times> istiod_registration) option \<times> manager" where
  "start_istiod env opts cm =
     (if io_Enabled (ao_IstiodCert opts)
      then (case Istiod_New (re_istiodClient env) (ao_IstiodCert opts) cm (to_TrustDomain (ao_TLS opts)) of
              (Inl err, cm') \<Rightarrow> Inl (Wrapf ''failed to create dynamic istiod certificate provisioner: %s'' err)
            | (Inr d, cm') \<Rightarrow>
                (case AddControllersToManager (re_istiodComplete env) (re_istiodAdd env) d of
                   Inl err \<Rightarrow> Inl (Wrapf ''failed to add dynamic istiod cert controllers: %w'' err)
                 | Inr reg \<Rightarrow> Inr (Some (d, reg), cm')))
      else Inr (None, cm))"

text \<open>
  \<open>mgr.Add\<close> and \<open>mgr.AddReadyzCheck\<close>: what is registered is kept in the order of the calls. The controller of
  the istiod certificate is registered when it is completed.
\<close>

definition register :: "string \<Rightarrow> error option \<Rightarrow> 'r \<Rightarrow> 'r list \<Rightarrow> error + 'r list" where
  "register msg e r rs = (case e of None \<Rightarrow> Inr (rs @ [r]) | Some err \<Rightarrow> Inl (Wrapf msg err))"

definition istiod_runnables :: "'d option \<Rightarrow> runnable list" where
  "istiod_runnables istiod = (case istiod of None \<Rightarrow> [] | Some _ \<Rightarrow> [IstiodCertController])"

abbreviation configmap_options :: "AppOptions \<Rightarrow> 'p \<Rightarrow> 'p ConfigMapOptions" where
  "configmap_options opts tls \<equiv>
     \<lparr>cmo_TLS = tls, cmo_ConfigMapNamespaceSelector = oc_ConfigMapNamespaceSelector (ao_Controller opts),
      cmo_MaxConcurrentReconciles = oc_MaxConcurrentReconciles (ao_Controller opts)\<rparr>"

text \<open>\<open>RunE\<close> up to \<open>mgr.Start\<close>.\<close>

definition RunE :: "'ctx run_env \<Rightarrow> AppOptions \<Rightarrow> error + ('c, 'kp, 'v, 'ctx) app" where
  "RunE env opts0 =
     (case Complete (re_complete env) opts0 of
        (Some err, _) \<Rightarrow> Inl err
      | (None, opts) \<Rightarrow>
     (case re_ValidateAnnotations env (opt_AdditionalAnnotations (ao_CertManager opts)) of
        Some err \<Rightarrow> Inl err
      | None \<Rightarrow>
     (case New (re_cmK8s env) (re_cmClient env) (ao_CertManager opts) of
        Inl err \<Rightarrow> Inl (Wrapf ''failed to initialise cert-manager manager: %w'' err)
      | Inr cm \<Rightarrow>
     seq (wrap_check ''failed to add kubernetes scheme: %s'' (re_scheme env)) (\<lambda>_.
     seq (wrap_check ''failed to add cert-manager scheme: %s'' (re_cmScheme env)) (\<lambda>_.
     seq (wrap_check ''error creating kubernetes client: %s'' (re_kubeClient env)) (\<lambda>_.
     seq (wrap_check ''failed to create manager: %w'' (re_NewManager env (manager_options opts))) (\<lambda>_.
     seq (start_istiod env opts cm) (\<lambda>(istiod, cm1).
     seq (if HasRuntimeConfiguration (ao_CertManager opts)
          then register ''failed to add runtime configuration watcher as runnable: %w'' (re_AddRuntimeWatcher env)
                 IssuanceWatcher (istiod_runnables istiod)
          else Inr (istiod_runnables istiod)) (\<lambda>rs1.
     (case NewProvider (re_TLSVersion env) (re_TLSCipherSuites env) (re_Nd env) (ao_TLS opts) of
        Inl err \<Rightarrow> Inl (Wrapf ''failed to create tls provider: %w'' err)
      | Inr tls \<Rightarrow>
     seq (register ''failed to add tls provider readiness check: %w'' (re_AddTLSCheck env) TLSProviderCheck []) (\<lambda>cs1.
     seq (register ''failed to add tls provider as runnable: %w'' (re_AddTLS env) TLSProviderRunnable rs1) (\<lambda>rs2.
     (case Server_New (re_serverClient env) (re_clientCertAuthenticator env) (re_kubeJWTAuthenticator env)
             (re_newAuthorizer env) (ao_Server opts) of
        Inl err \<Rightarrow> Inl (Wrapf ''failed to create grpc server: %w'' err)
      | Inr server \<Rightarrow>
     seq (register ''failed to add grpc server readiness check: %w'' (re_AddServerCheck env) GRPCServerCheck cs1) (\<lambda>cs2.
     seq (register ''failed to add grpc server as runnable: %w'' (re_AddServer env) GRPCServerRunnable rs2) (\<lambda>rs3.
     (case AddConfigMapController (re_configmapClient env) (re_labels_Parse env) (re_configmapComplete env)
             SubscribeRootCAsEvent (configmap_options opts tls) of
        (Inl err, _) \<Rightarrow> Inl (Wrapf ''failed to add CA root controller: %w'' err)
      | (Inr reg, tls') \<Rightarrow>
       Inr \<lparr>app_cm = cm1, app_manager = manager_options opts,
            app_eventNamespace = opt_Namespace (ao_CertManager opts), app_istiod = istiod, app_tls = tls',
            app_server = server, app_configmap = reg, app_runnables = rs3 @ [ConfigMapRunnable], app_checks = cs2\<rparr>))))))))))))))))"

text \<open>The readiness checks, each deferred until there is an issuer.\<close>

definition deferCheckUntilIssuerConfig :: "manager \<Rightarrow> error option \<Rightarrow> error option" where
  "deferCheckUntilIssuerConfig cm check = (if HasIssuerConfig cm then check else None)"

definition app_check :: "('c, 'kp, 'v, 'ctx) app \<Rightarrow> readyz \<Rightarrow> error option" where
  "app_check a c =
     (case c of
        TLSProviderCheck \<Rightarrow> deferCheckUntilIssuerConfig (app_cm a) (Provider_Check (app_tls a))
      | GRPCServerCheck \<Rightarrow> deferCheckUntilIssuerConfig (app_cm a) (Server_Check (app_server a)))"

definition app_ready :: "('c, 'kp, 'v, 'ctx) app \<Rightarrow> bool" where
  "app_ready a \<longleftrightarrow> list_all (\<lambda>c. app_check a c = None) (app_checks a)"

text \<open>
  Which runnables wait until the process is the leader. A controller does, unless it says otherwise.
\<close>

definition needs_leader_election :: "runnable \<Rightarrow> bool" where
  "needs_leader_election r =
     (case r of
        IstiodCertController \<Rightarrow> Istiod_NeedLeaderElection
      | IssuanceWatcher \<Rightarrow> RuntimeConfigurationWatcher_NeedLeaderElection
      | TLSProviderRunnable \<Rightarrow> Provider_NeedLeaderElection
      | GRPCServerRunnable \<Rightarrow> Server_NeedLeaderElection
      | ConfigMapRunnable \<Rightarrow> True)"

section \<open>The command\<close>

text \<open>
  The sections of the usage text, each with its flags; those of the Kubernetes client are \<open>kube\<close>.
  \<open>PrintSections\<close> is the library function that prints them.
\<close>

definition flag_sections :: "string list \<Rightarrow> AppOptions \<Rightarrow> (string \<times> string list) list" where
  "flag_sections kube o' =
     [(''App'', map fl_name addAppFlags),
      (''cert-manager'', map fl_name addCertManagerFlags),
      (''Kubernetes'', kube),
      (''TLS'', map fl_name (addTLSFlags (ao_TLS o'))),
      (''Server'', map fl_name addServerFlags),
      (''controller'', map fl_name addControllerFlags),
      (''additional-annotations'', map fl_name addAdditionalAnnotationsFlags),
      (''istiod-cert'', map fl_name istiodcert_AddFlags)]"

definition newline :: string where
  "newline = [CHR 0x0A]"

definition usage_text :: "((string \<times> string list) list \<Rightarrow> string) \<Rightarrow> string list \<Rightarrow> AppOptions \<Rightarrow> string \<Rightarrow> string" where
  "usage_text PrintSections kube o' useLine =
     ''Usage:'' @ newline @ ''  '' @ useLine @ newline @ PrintSections (flag_sections kube o')"

definition helpOutput :: string where
  "helpOutput = ''cert-manager istio agent for signing istio agent certificate signing requests through cert-manager''"

record Command =
  cmd_Use :: string
  cmd_Short :: string
  cmd_Long :: string

definition NewCommand :: Command where
  "NewCommand = \<lparr>cmd_Use = ''cert-manager-istio-csr'', cmd_Short = helpOutput, cmd_Long = helpOutput\<rparr>"

definition help_text :: "((string \<times> string list) list \<Rightarrow> string) \<Rightarrow> string list \<Rightarrow> AppOptions \<Rightarrow> string \<Rightarrow> string" where
  "help_text PrintSections kube o' useLine = cmd_Long NewCommand @ newline @ newline @ usage_text PrintSections kube o' useLine"

text \<open>
  The command and \<open>main\<close>. The library's reading of the command line fails, finds a request for help, or
  gives the flags on it; \<open>mgr_Start\<close> is the error the controller manager ends with. The exit code is 1
  on an error.
\<close>

datatype command_line = BadFlags error | HelpFlag | Args "string \<Rightarrow> flag_value option"

definition Execute ::
  "command_line \<Rightarrow> 'ctx run_env \<Rightarrow> (('c, 'kp, 'v, 'ctx) app \<Rightarrow> error option) \<Rightarrow> error option" where
  "Execute line env mgr_Start =
     (case line of
        BadFlags err \<Rightarrow> Some err
      | HelpFlag \<Rightarrow> None
      | Args given \<Rightarrow>
     (case RunE env (command_options given) of
        Inl err \<Rightarrow> Some err
      | Inr a \<Rightarrow> mgr_Start a))"

definition main_exit ::
  "command_line \<Rightarrow> 'ctx run_env \<Rightarrow> (('c, 'kp, 'v, 'ctx) app \<Rightarrow> error option) \<Rightarrow> int" where
  "main_exit line env mgr_Start = (case Execute line env mgr_Start of Some err \<Rightarrow> 1 | None \<Rightarrow> 0)"

section \<open>Lemmas\<close>

text \<open>What is registered in the end, as a function of the options.\<close>

definition runnables_of :: "AppOptions \<Rightarrow> runnable list" where
  "runnables_of opts =
     (if io_Enabled (ao_IstiodCert opts) then [IstiodCertController] else [])
     @ (if HasRuntimeConfiguration (ao_CertManager opts) then [IssuanceWatcher] else [])
     @ [TLSProviderRunnable, GRPCServerRunnable, ConfigMapRunnable]"

lemma register_Inr: "register msg e r rs = Inr rs' \<longleftrightarrow> e = None \<and> rs' = rs @ [r]"
  by (auto simp: register_def split: option.splits)

lemma istiod_runnables_enabled:
  "start_istiod env opts cm = Inr (istiod, cm1) \<Longrightarrow>
   istiod_runnables istiod = (if io_Enabled (ao_IstiodCert opts) then [IstiodCertController] else [])"
  by (auto simp: start_istiod_def istiod_runnables_def split: if_splits sum.splits prod.splits)

lemma seq_Inr: "seq r f = Inr y \<longleftrightarrow> (\<exists>x. r = Inr x \<and> f x = Inr y)"
  by (auto simp: seq_def split: sum.splits)

lemma Validate_workers:
  "Validate U V o' = (e, o2) \<Longrightarrow> io_MaxConcurrentReconciles o2 = io_MaxConcurrentReconciles o'"
  using Validate_snd [of o' U V] by (cases "io_Enabled o'") (auto simp: Validate_def [of U V o'])

lemma Complete_None:
  assumes "Complete env o' = (None, o2)"
  shows "to_ServingCertificateDNSNames (ao_TLS o2) \<noteq> []" "1 \<le> oc_MaxConcurrentReconciles (ao_Controller o2)"
    "ao_logFormat o2 \<in> {''json'', ''text''}" "ao_RestConfig o2 \<noteq> None"
    "ao_CertManager o2 = ao_CertManager o'" "ao_Server o2 = ao_Server o'" "ao_TLS o2 = ao_TLS o'"
    "Validate (ce_ToUpper env) (ce_IsDNS1123Subdomain env) ((ao_IstiodCert o')
       \<lparr>io_MaxConcurrentReconciles := oc_MaxConcurrentReconciles (ao_Controller o')\<rparr>) = (None, ao_IstiodCert o2)"
    "ao_Controller o2 = ao_Controller o'"
    "io_MaxConcurrentReconciles (ao_IstiodCert o2) = oc_MaxConcurrentReconciles (ao_Controller o2)"
    "manager_options o2 = manager_options o'"
    "ce_ValidateAndApply env \<lparr>lc_Format = ao_logFormat o2, lc_Verbosity = ao_logLevel o'\<rparr> = None"
    "ce_istiolog_Configure env (ao_logFormat o2 = ''json'') = None"
  using assms Validate_workers
  by (auto simp: Complete_def Let_def manager_options_def split: if_splits option.splits sum.splits prod.splits)

lemma RunE_Inr:
  fixes a :: "('c, 'kp, 'v, 'ctx) app"
  assumes "RunE env opts0 = Inr a"
  obtains opts cm and tls :: "('c, 'kp, 'v) Provider" where
    "Complete (re_complete env) opts0 = (None, opts)"
    "New (re_cmK8s env) (re_cmClient env) (ao_CertManager opts) = Inr cm"
    "start_istiod env opts cm = Inr (app_istiod a, app_cm a)"
    "NewProvider (re_TLSVersion env) (re_TLSCipherSuites env) (re_Nd env) (ao_TLS opts) = Inr tls"
    "Server_New (re_serverClient env) (re_clientCertAuthenticator env) (re_kubeJWTAuthenticator env)
       (re_newAuthorizer env) (ao_Server opts) = Inr (app_server a)"
    "AddConfigMapController (re_configmapClient env) (re_labels_Parse env) (re_configmapComplete env)
       SubscribeRootCAsEvent (configmap_options opts tls) = (Inr (app_configmap a), app_tls a)"
    "app_runnables a = runnables_of opts" "app_checks a = [TLSProviderCheck, GRPCServerCheck]"
    "app_manager a = manager_options opts" "app_eventNamespace a = opt_Namespace (ao_CertManager opts)"
proof -
  from assms obtain opts where c: "Complete (re_complete env) opts0 = (None, opts)"
    by (auto simp: RunE_def split: prod.splits option.splits)
  from assms c obtain cm where n: "New (re_cmK8s env) (re_cmClient env) (ao_CertManager opts) = Inr cm"
    by (auto simp: RunE_def split: option.splits sum.splits)
  from assms c n obtain istiod cm1 where i: "start_istiod env opts cm = Inr (istiod, cm1)"
    by (auto simp: RunE_def seq_Inr split: option.splits)
  from assms c n i obtain tls :: "('c, 'kp, 'v) Provider"
    where t: "NewProvider (re_TLSVersion env) (re_TLSCipherSuites env) (re_Nd env) (ao_TLS opts) = Inr tls"
    by (cases "NewProvider (re_TLSVersion env) (re_TLSCipherSuites env) (re_Nd env) (ao_TLS opts) ::
          error + ('c, 'kp, 'v) Provider")
       (auto simp: RunE_def seq_Inr split: option.splits)
  from assms c n i t obtain server where sv: "Server_New (re_serverClient env) (re_clientCertAuthenticator env)
      (re_kubeJWTAuthenticator env) (re_newAuthorizer env) (ao_Server opts) = Inr server"
    by (cases "Server_New (re_serverClient env) (re_clientCertAuthenticator env) (re_kubeJWTAuthenticator env)
          (re_newAuthorizer env) (ao_Server opts)")
       (auto simp: RunE_def seq_Inr split: option.splits)
  obtain r tls' where r: "AddConfigMapController (re_configmapClient env) (re_labels_Parse env) (re_configmapComplete env)
      SubscribeRootCAsEvent (configmap_options opts tls) = (r, tls')" by fastforce
  from assms c n i t sv r obtain reg where k: "AddConfigMapController (re_configmapClient env) (re_labels_Parse env)
      (re_configmapComplete env) SubscribeRootCAsEvent (configmap_options opts tls) = (Inr reg, tls')"
    by (cases r) (auto simp: RunE_def seq_Inr split: option.splits)
  from assms c n i t sv k istiod_runnables_enabled [OF i] have "a = \<lparr>app_cm = cm1, app_manager = manager_options opts,
      app_eventNamespace = opt_Namespace (ao_CertManager opts), app_istiod = istiod, app_tls = tls', app_server = server,
      app_configmap = reg, app_runnables = runnables_of opts, app_checks = [TLSProviderCheck, GRPCServerCheck]\<rparr>"
    by (auto simp: RunE_def seq_Inr register_Inr runnables_of_def split: option.splits if_splits)
  with c n i t sv k show thesis by (intro that [OF c n _ t]) simp_all
qed

lemma start_istiod_Inr:
  assumes "start_istiod env opts cm = Inr (istiod, cm1)"
  shows "mgr_activeIssuerRef cm1 = mgr_activeIssuerRef cm"
    and "istiod = None \<longleftrightarrow> \<not> io_Enabled (ao_IstiodCert opts)"
    and "istiod = Some (d, reg) \<Longrightarrow> dicp_opts d = ao_IstiodCert opts"
    and "istiod = Some (d, reg) \<Longrightarrow> dicp_subscription d = mgr_nextSub cm"
    and "istiod = Some (d, reg) \<Longrightarrow>
      ireg_MaxConcurrentReconciles reg = io_MaxConcurrentReconciles (ao_IstiodCert opts)"
  using assms
  by (auto simp: start_istiod_def Istiod_New_def SubscribeIssuerChange_def AddControllersToManager_def
      split: if_splits option.splits prod.splits sum.splits)

lemma AddConfigMapController_Inr:
  assumes "AddConfigMapController clientErr labels_Parse completeErr SubscribeRootCAsEvent
      \<lparr>cmo_TLS = tls, cmo_ConfigMapNamespaceSelector = selector, cmo_MaxConcurrentReconciles = n\<rparr> = (Inr reg, p)"
  shows "labels_Parse selector = Inr (ctl_namespaceSelector (reg_controller reg))"
    "ctl_rootCAsPEM (reg_controller reg) = []" "reg_MaxConcurrentReconciles reg = n"
    "reg_rootCAsEvent reg = length (prv_subscriptions tls)" "p = snd (SubscribeRootCAsEvent tls)"
  using assms
  by (auto simp: AddConfigMapController_def SubscribeRootCAsEvent_def Let_def split: option.splits sum.splits)

lemma NewProvider_Inr:
  "NewProvider TLSVersion TLSCipherSuites Nd opts = Inr p \<Longrightarrow>
   VersionTLS12 \<le> prv_servingMinVersion p \<and> prv_tlsConfig p = None \<and> prv_subscriptions p = []"
  by (auto simp: NewProvider_def not_less split: sum.splits if_splits)

lemma New_runtime:
  "New k8sErr cmErr opts = Inr m \<Longrightarrow> mgr_activeIssuerRef m = None \<Longrightarrow> HasRuntimeConfiguration opts"
  by (auto simp: New_def Let_def split: option.splits sum.splits if_splits)

lemma New_nextSub: "New k8sErr cmErr opts = Inr m \<Longrightarrow> mgr_nextSub m = 0"
  by (auto simp: New_def Let_def split: option.splits sum.splits if_splits)

section \<open>Properties\<close>

text \<open>An environment in which nothing fails, for the witnesses.\<close>

definition demo_run :: "unit run_env" where
  "demo_run = \<lparr>re_complete = \<lparr>ce_ToLower = (\<lambda>s. s), ce_ToUpper = (\<lambda>s. s), ce_IsDNS1123Subdomain = (\<lambda>_. []),
       ce_ValidateAndApply = (\<lambda>_. None), ce_istiolog_Configure = (\<lambda>_. None),
       ce_ToRESTConfig = Inr \<lparr>rest_QPS = 20, rest_Burst = 30\<rparr>\<rparr>,
     re_ValidateAnnotations = (\<lambda>_. None), re_cmK8s = None, re_cmClient = None, re_scheme = None,
     re_cmScheme = None, re_kubeClient = None, re_NewManager = (\<lambda>_. None), re_istiodClient = None,
     re_istiodComplete = None, re_istiodAdd = None, re_AddRuntimeWatcher = None, re_TLSVersion = (\<lambda>_. Inr 0x0303),
     re_TLSCipherSuites = (\<lambda>_. Inr []), re_Nd = (\<lambda>_. False), re_AddTLSCheck = None, re_AddTLS = None,
     re_serverClient = None, re_clientCertAuthenticator = (\<lambda>_. (None, None)),
     re_kubeJWTAuthenticator = (\<lambda>_. (None, None)),
     re_newAuthorizer = NewClusterNodeAuthorizer (informer_get []) (informer_index []),
     re_AddServerCheck = None, re_AddServer = None, re_configmapClient = None, re_labels_Parse = (\<lambda>_. Inr (\<lambda>_. True)),
     re_configmapComplete = None\<rparr>"

lemma ToLower_text [simp]: "strings_ToLower L ''text'' = ''text''"
  by (simp add: strings_ToLower_def ascii_lower_def)

lemma demo_complete:
  "\<exists>o2. Complete (re_complete demo_run) default_options = (None, o2)"
  by (simp add: Complete_def demo_run_def default_options_def Validate_def)

lemma demo_runs: "\<exists>a. RunE demo_run default_options = Inr (a :: (string, string, string, unit) app)"
proof -
  obtain o2 where o2: "Complete (re_complete demo_run) default_options = (None, o2)" using demo_complete by blast
  have "snd (None :: error option, ao_IstiodCert o2) = snd (Validate (ce_ToUpper (re_complete demo_run))
      (ce_IsDNS1123Subdomain (re_complete demo_run)) ((ao_IstiodCert default_options)
      \<lparr>io_MaxConcurrentReconciles := oc_MaxConcurrentReconciles (ao_Controller default_options)\<rparr>))"
    unfolding Complete_None(8) [OF o2] ..
  then have "\<not> io_Enabled (ao_IstiodCert o2)"
    by (simp add: default_options_def Validate_def)
  then show ?thesis
    using o2 Complete_None(5-7) [OF o2]
    by (simp add: RunE_def demo_run_def default_options_def New_def
        handleOriginalIssuerRef_def seq_def wrap_check_def register_def start_istiod_def NewProvider_def
        ParseCurvePreferences_def VersionTLS12_def Server_New_def HasRuntimeConfiguration_def
        AddConfigMapController_def SubscribeRootCAsEvent_def)
qed

text \<open>
  C34: A start-up that succeeds leaves a program that can work: the manager has an issuer or the
  watcher for one is registered; the TLS provider does not go below TLS 1.2 and has the ConfigMap
  controller as its subscriber, which has at least one worker and the parsed selector; the server,
  the provider and the controller are registered, in this order; and an enabled istiod provisioner is
  subscribed first and has at least one worker and a key algorithm and size that cert-manager accepts.
  The manager elects a leader, in the namespace of the options, and gives the lease back at the end;
  it probes and reports on the ports of the options; logging has the format and level of the options.
\<close>

theorem startup_wiring:
  fixes a :: "('c, 'kp, 'v, 'ctx) app"
  assumes "RunE env opts = Inr a"
  shows "(HasIssuerConfig (app_cm a) \<or> IssuanceWatcher \<in> set (app_runnables a)) \<and>
    VersionTLS12 \<le> prv_servingMinVersion (app_tls a) \<and>
    prv_subscriptions (app_tls a) = [reg_rootCAsEvent (app_configmap a)] \<and>
    1 \<le> reg_MaxConcurrentReconciles (app_configmap a) \<and>
    re_labels_Parse env (oc_ConfigMapNamespaceSelector (ao_Controller opts)) =
      Inr (ctl_namespaceSelector (reg_controller (app_configmap a))) \<and>
    (\<exists>early. app_runnables a = early @ [TLSProviderRunnable, GRPCServerRunnable, ConfigMapRunnable]) \<and>
    app_manager a = \<lparr>mo_LeaderElection = True,
      mo_LeaderElectionNamespace = oc_LeaderElectionNamespace (ao_Controller opts), mo_LeaderElectionID = ''istio-csr'',
      mo_LeaderElectionReleaseOnCancel = True, mo_ReadinessEndpointName = ao_ReadyzPath opts,
      mo_HealthProbeBindAddress = ''0.0.0.0:'' @ fmt_d (ao_ReadyzPort opts),
      mo_MetricsBindAddress = ''0.0.0.0:'' @ fmt_d (ao_MetricsPort opts)\<rparr> \<and>
    (\<exists>format \<in> {''json'', ''text''}. ce_ValidateAndApply (re_complete env)
        \<lparr>lc_Format = format, lc_Verbosity = ao_logLevel opts\<rparr> = None \<and>
      ce_istiolog_Configure (re_complete env) (format = ''json'') = None) \<and>
    (\<forall>d reg. app_istiod a = Some (d, reg) \<longrightarrow>
       dicp_subscription d = 0 \<and> 1 \<le> ireg_MaxConcurrentReconciles reg \<and>
       (io_CMKeyAlgorithm (dicp_opts d) = RSAKeyAlgorithm \<and> 2048 \<le> io_KeySize (dicp_opts d) \<or>
        io_CMKeyAlgorithm (dicp_opts d) = ECDSAKeyAlgorithm \<and> io_KeySize (dicp_opts d) \<in> {256, 384}))"
proof -
  obtain o2 cm and tls :: "('c, 'kp, 'v) Provider" where
    c: "Complete (re_complete env) opts = (None, o2)" and
    n: "New (re_cmK8s env) (re_cmClient env) (ao_CertManager o2) = Inr cm" and
    i: "start_istiod env o2 cm = Inr (app_istiod a, app_cm a)" and
    t: "NewProvider (re_TLSVersion env) (re_TLSCipherSuites env) (re_Nd env) (ao_TLS o2) = Inr tls" and
    k: "AddConfigMapController (re_configmapClient env) (re_labels_Parse env) (re_configmapComplete env)
       SubscribeRootCAsEvent (configmap_options o2 tls) = (Inr (app_configmap a), app_tls a)" and
    r: "app_runnables a = runnables_of o2" and mo: "app_manager a = manager_options o2"
    by (rule RunE_Inr [OF assms]) blast
  note mo' = mo [unfolded Complete_None(11) [OF c], unfolded manager_options_def]
  have log: "\<exists>format \<in> {''json'', ''text''}. ce_ValidateAndApply (re_complete env)
        \<lparr>lc_Format = format, lc_Verbosity = ao_logLevel opts\<rparr> = None \<and>
      ce_istiolog_Configure (re_complete env) (format = ''json'') = None"
    by (rule bexI [OF _ Complete_None(3) [OF c]]) (rule conjI [OF Complete_None(12,13) [OF c]])
  have "HasIssuerConfig (app_cm a) \<or> IssuanceWatcher \<in> set (app_runnables a)"
    using New_runtime [OF n] start_istiod_Inr(1) [OF i] by (auto simp: HasIssuerConfig_def r runnables_of_def)
  moreover have "VersionTLS12 \<le> prv_servingMinVersion (app_tls a)"
    "prv_subscriptions (app_tls a) = [reg_rootCAsEvent (app_configmap a)]"
    using NewProvider_Inr [OF t] AddConfigMapController_Inr [OF k] by (auto simp: SubscribeRootCAsEvent_def Let_def)
  moreover have "1 \<le> reg_MaxConcurrentReconciles (app_configmap a)"
    "re_labels_Parse env (oc_ConfigMapNamespaceSelector (ao_Controller opts)) =
      Inr (ctl_namespaceSelector (reg_controller (app_configmap a)))"
    using AddConfigMapController_Inr(1,3) [OF k] Complete_None(2,9) [OF c] by simp_all
  moreover have "\<exists>early. app_runnables a = early @ [TLSProviderRunnable, GRPCServerRunnable, ConfigMapRunnable]"
    unfolding r runnables_of_def by (metis append_assoc)
  moreover have "dicp_subscription d = 0 \<and> 1 \<le> ireg_MaxConcurrentReconciles reg \<and>
       (io_CMKeyAlgorithm (dicp_opts d) = RSAKeyAlgorithm \<and> 2048 \<le> io_KeySize (dicp_opts d) \<or>
        io_CMKeyAlgorithm (dicp_opts d) = ECDSAKeyAlgorithm \<and> io_KeySize (dicp_opts d) \<in> {256, 384})"
    if some: "app_istiod a = Some (d, reg)" for d reg
  proof -
    have "io_Enabled (ao_IstiodCert o2)" using start_istiod_Inr(2) [OF i] some by simp
    from Validate_key_ok [OF Complete_None(8) [OF c] this] Complete_None(2,10) [OF c] New_nextSub [OF n]
    show ?thesis unfolding start_istiod_Inr(3-5) [OF i some] by simp
  qed
  ultimately show ?thesis using mo' log by blast
qed

theorem startup_wiring_witness:
  "\<exists>a :: (string, string, string, unit) app. RunE demo_run default_options = Inr a \<and>
     VersionTLS12 \<le> prv_servingMinVersion (app_tls a)"
proof -
  obtain a :: "(string, string, string, unit) app" where r: "RunE demo_run default_options = Inr a"
    using demo_runs by blast
  from startup_wiring [OF r] r show ?thesis by blast
qed

text \<open>The usage text has every flag of the program exactly once, those of the Kubernetes client included.\<close>

lemma usage_lists_flags:
  assumes "kube_flags_law kube"
  shows "distinct (concat (map snd (flag_sections (map fst kube) o'))) \<and>
    set (concat (map snd (flag_sections (map fst kube) o'))) = set (map fl_name (addFlags o')) \<union> set (map fst kube)"
proof -
  let ?u = "concat (map snd (flag_sections (map fst kube) o'))"
  have m: "mset ?u = mset (map fl_name (addFlags o') @ map fst kube)"
    by (simp add: flag_sections_def addFlags_def lift_flag_def comp_def ac_simps)
  have "distinct ?u" using flag_names_distinct [OF assms, of o'] mset_eq_imp_distinct_iff [OF m] by blast
  with mset_eq_setD [OF m] show ?thesis by simp
qed

text \<open>
  Readiness: with an issuer configured the program reports ready exactly when the TLS provider
  has a configuration and the server is serving, so not right after start-up; without an issuer it
  reports ready regardless.
\<close>

lemma readiness_exact:
  fixes a :: "('c, 'kp, 'v, 'ctx) app"
  assumes "RunE env opts = Inr a"
  shows "(app_ready a \<longleftrightarrow> \<not> HasIssuerConfig (app_cm a)) \<and>
    (\<forall>cm tls srv. app_ready (a\<lparr>app_cm := cm, app_tls := tls, app_server := srv\<rparr>) \<longleftrightarrow>
       (HasIssuerConfig cm \<longrightarrow> prv_tlsConfig tls \<noteq> None \<and> srv_ready srv))"
proof -
  obtain o2 :: AppOptions and tls :: "('c, 'kp, 'v) Provider" where
    t: "NewProvider (re_TLSVersion env) (re_TLSCipherSuites env) (re_Nd env) (ao_TLS o2) = Inr tls" and
    sv: "Server_New (re_serverClient env) (re_clientCertAuthenticator env) (re_kubeJWTAuthenticator env)
       (re_newAuthorizer env) (ao_Server o2) = Inr (app_server a)" and
    k: "AddConfigMapController (re_configmapClient env) (re_labels_Parse env) (re_configmapComplete env)
       SubscribeRootCAsEvent (configmap_options o2 tls) = (Inr (app_configmap a), app_tls a)" and
    checks: "app_checks a = [TLSProviderCheck, GRPCServerCheck]"
    by (rule RunE_Inr [OF assms]) blast
  have "prv_tlsConfig (app_tls a) = None"
    using NewProvider_Inr [OF t] AddConfigMapController_Inr(5) [OF k]
    by (simp add: SubscribeRootCAsEvent_def Let_def)
  with Server_New_Inr(4) [OF sv] show ?thesis
    by (auto simp: checks app_ready_def app_check_def deferCheckUntilIssuerConfig_def Provider_Check_def
        Server_Check_def)
qed

text \<open>
  Every replica serves, only the leader writes: a process that is not the leader runs the issuer
  watcher, when there is one, the TLS provider and the server; the two controllers, which write to
  the API, wait for leadership.
\<close>

lemma followers_serve:
  fixes a :: "('c, 'kp, 'v, 'ctx) app"
  assumes "RunE env opts = Inr a"
  shows "filter (\<lambda>r. \<not> needs_leader_election r) (app_runnables a) =
    (if IssuanceWatcher \<in> set (app_runnables a) then [IssuanceWatcher] else []) @ [TLSProviderRunnable, GRPCServerRunnable]"
proof -
  obtain o2 where r: "app_runnables a = runnables_of o2"
    by (rule RunE_Inr [OF assms]) blast
  show ?thesis
    unfolding r
    by (simp add: runnables_of_def needs_leader_election_def Istiod_NeedLeaderElection_def
        RuntimeConfigurationWatcher_NeedLeaderElection_def Provider_NeedLeaderElection_def
        Server_NeedLeaderElection_def)
qed

text \<open>
  C31: A command line the program cannot honour ends it with exit code 1 before the manager is
  started: no workers for the controllers, no DNS name for the serving certificate, a floor below
  TLS 1.2, a namespace selector that does not parse.
\<close>

theorem misconfiguration_exits:
  fixes env :: "'ctx run_env" and mgr_Start :: "('c, 'kp, 'v, 'ctx) app \<Rightarrow> error option"
  assumes "typed_args given"
    and "(\<exists>n < 1. given ''max-concurrent-reconciles'' = Some (VInt n)) \<or>
      given ''serving-certificate-dns-names'' = Some (VStrings []) \<or>
      (\<exists>s v. given ''serving-tls-min-version'' = Some (VString s) \<and> re_TLSVersion env s = Inr v \<and> v < VersionTLS12) \<or>
      (\<exists>sel err. given ''configmap-namespace-selector'' = Some (VString sel) \<and> re_labels_Parse env sel = Inl err)"
  shows "main_exit (Args given) env mgr_Start = 1"
proof (cases "RunE env (command_options given) :: error + ('c, 'kp, 'v, 'ctx) app")
  case (Inl err)
  then show ?thesis by (simp add: main_exit_def Execute_def)
next
  case (Inr a)
  obtain o2 and tls :: "('c, 'kp, 'v) Provider" where
    c: "Complete (re_complete env) (command_options given) = (None, o2)" and
    t: "NewProvider (re_TLSVersion env) (re_TLSCipherSuites env) (re_Nd env) (ao_TLS o2) = Inr tls" and
    k: "AddConfigMapController (re_configmapClient env) (re_labels_Parse env) (re_configmapComplete env)
       SubscribeRootCAsEvent (configmap_options o2 tls) = (Inr (app_configmap a), app_tls a)"
    by (rule RunE_Inr [OF Inr]) blast
  have "1 \<le> oc_MaxConcurrentReconciles (ao_Controller (command_options given))"
    "to_ServingCertificateDNSNames (ao_TLS (command_options given)) \<noteq> []"
    using Complete_None(1,2) [OF c] unfolding Complete_None(7,9) [OF c] by simp_all
  moreover have "re_TLSVersion env (to_ServingTLSMinVersion (ao_TLS (command_options given))) = Inr v \<Longrightarrow> \<not> v < VersionTLS12" for v
    using t unfolding Complete_None(7) [OF c] by (auto simp: NewProvider_def)
  moreover have "re_labels_Parse env (oc_ConfigMapNamespaceSelector (ao_Controller (command_options given))) \<noteq> Inl err" for err
    using AddConfigMapController_Inr(1) [OF k] unfolding Complete_None(9) [OF c] by simp
  ultimately have False using assms(2) given_fields [OF assms(1)] by fastforce
  then show ?thesis ..
qed

theorem misconfiguration_exits_witness:
  "main_exit (Args [''max-concurrent-reconciles'' \<mapsto> VInt 0]) demo_run
     (\<lambda>a :: (string, string, string, unit) app. None) = 1"
proof -
  have "typed_args [''max-concurrent-reconciles'' \<mapsto> VInt 0]"
    by (simp add: typed_args_def addFlags_def flag_groups flag_defs)
  from misconfiguration_exits [OF this, of demo_run "\<lambda>a :: (string, string, string, unit) app. None"]
  show ?thesis by simp
qed

end
