(* ===== verification/Sign_Lock.thy ===== *)
theory Sign_Lock
  imports Issuer_Notify
begin

text \<open>
  The lock \<open>activeIssuerRefMutex\<close> of \<open>pkg/certmanager/certmanager.go\<close>, a \<open>sync.RWMutex\<close>. \<open>Sign\<close>
  holds it for reading until it returns, that is while it waits for its \<open>CertificateRequest\<close>;
  \<open>HasIssuerConfig\<close> holds it for reading for a moment; the handlers of the run-time configuration
  need it for writing. A waiting writer keeps new readers out (documented behaviour of
  \<open>sync.RWMutex\<close>). \<open>Cert_Manager\<close> models \<open>Sign\<close> with a manager that does not change while it runs;
  the lock makes this so, as shown below.
\<close>

section \<open>Model\<close>

text \<open>
  \<open>lk_signing\<close> are the calls of \<open>Sign\<close> in flight, each with the active issuer it read; \<open>lk_pending\<close>
  is the event whose handler waits for the lock.
\<close>

record lock_state =
  lk_m :: manager
  lk_signing :: "(nat \<times> IssuerReference option) list"
  lk_pending :: "Event option"

definition lock_init :: "manager \<Rightarrow> lock_state" where
  "lock_init m = \<lparr>lk_m = m, lk_signing = [], lk_pending = None\<rparr>"

datatype lock_label = SignBegins nat | SignReturns nat | Probe | EventArrives Event | EventHandled

text \<open>The events whose handlers take the lock.\<close>

definition takes_lock :: "Event \<Rightarrow> bool" where
  "takes_lock ev \<longleftrightarrow> ev_Type ev \<in> {Added, Modified, Deleted}"

inductive lock_step :: "lock_state \<Rightarrow> lock_label \<Rightarrow> lock_state \<Rightarrow> bool" where
  begins: "lk_pending s = None \<Longrightarrow> c \<notin> fst ` set (lk_signing s) \<Longrightarrow>
    lock_step s (SignBegins c) (s\<lparr>lk_signing := (c, mgr_activeIssuerRef (lk_m s)) # lk_signing s\<rparr>)"
| returns: "c \<in> fst ` set (lk_signing s) \<Longrightarrow>
    lock_step s (SignReturns c) (s\<lparr>lk_signing := filter (\<lambda>e. fst e \<noteq> c) (lk_signing s)\<rparr>)"
| probe: "lk_pending s = None \<Longrightarrow> lock_step s Probe s"
| arrives: "lk_pending s = None \<Longrightarrow> takes_lock ev \<Longrightarrow>
    lock_step s (EventArrives ev) (s\<lparr>lk_pending := Some ev\<rparr>)"
| handled: "lk_pending s = Some ev \<Longrightarrow> lk_signing s = [] \<Longrightarrow>
    lock_step s EventHandled (s\<lparr>lk_m := handle_event (lk_m s) ev, lk_pending := None\<rparr>)"

inductive lock_run :: "lock_state \<Rightarrow> lock_label list \<Rightarrow> lock_state \<Rightarrow> bool" where
  lock_run_Nil: "lock_run s [] s"
| lock_run_Cons: "lock_step s l s1 \<Longrightarrow> lock_run s1 ls s2 \<Longrightarrow> lock_run s (l # ls) s2"

inductive_cases lock_stepE: "lock_step s l s'"
inductive_cases lock_run_NilE: "lock_run s [] s'"
inductive_cases lock_run_ConsE: "lock_run s (l # ls) s'"

section \<open>Lemmas\<close>

definition lock_inv :: "lock_state \<Rightarrow> bool" where
  "lock_inv s \<longleftrightarrow> (\<forall>(c, r) \<in> set (lk_signing s). r = mgr_activeIssuerRef (lk_m s))"

lemma lock_step_inv: "lock_step s l s' \<Longrightarrow> lock_inv s \<Longrightarrow> lock_inv s'"
  by (induction rule: lock_step.induct) (auto simp: lock_inv_def)

lemma lock_run_inv: "lock_run s ls s' \<Longrightarrow> lock_inv s \<Longrightarrow> lock_inv s'"
  by (induction rule: lock_run.induct) (auto intro: lock_step_inv)

text \<open>What a step can be while a writer waits and a call is in flight.\<close>

lemma lock_step_waiting:
  assumes "lock_step s l s'" "lk_pending s = Some ev" "c \<in> fst ` set (lk_signing s)" "l \<noteq> SignReturns c"
  shows "lk_m s' = lk_m s \<and> lk_pending s' = Some ev \<and> c \<in> fst ` set (lk_signing s') \<and> (\<exists>d. l = SignReturns d)"
  using assms by (auto elim!: lock_stepE)

lemma lock_run_waiting:
  "lock_run s ls s' \<Longrightarrow> lk_pending s = Some ev \<Longrightarrow> c \<in> fst ` set (lk_signing s) \<Longrightarrow>
   SignReturns c \<notin> set ls \<Longrightarrow>
   lk_m s' = lk_m s \<and> lk_pending s' = Some ev \<and> (\<forall>l \<in> set ls. \<exists>d. l = SignReturns d)"
proof (induction rule: lock_run.induct)
  case (lock_run_Cons s l s1 ls s2)
  with lock_step_waiting [of s l s1 ev c] show ?case by auto
qed simp

lemma all_return:
  "\<exists>ls s'. lock_run s ls s' \<and> (\<forall>l \<in> set ls. \<exists>d. l = SignReturns d) \<and>
     lk_m s' = lk_m s \<and> lk_pending s' = lk_pending s \<and> lk_signing s' = []"
proof (induction "length (lk_signing s)" arbitrary: s rule: less_induct)
  case less
  show ?case
  proof (cases "lk_signing s")
    case Nil
    then show ?thesis using lock_run_Nil [of s] by (metis empty_iff empty_set)
  next
    case (Cons e es)
    let ?s1 = "s\<lparr>lk_signing := filter (\<lambda>e'. fst e' \<noteq> fst e) (lk_signing s)\<rparr>"
    have st: "lock_step s (SignReturns (fst e)) ?s1" using Cons by (intro lock_step.returns) simp
    have "length (lk_signing ?s1) < length (lk_signing s)"
      using Cons by (simp add: le_imp_less_Suc)
    from less [OF this] obtain ls s' where "lock_run ?s1 ls s'" "\<forall>l \<in> set ls. \<exists>d. l = SignReturns d"
      "lk_m s' = lk_m s" "lk_pending s' = lk_pending s" "lk_signing s' = []" by auto
    with lock_run_Cons [OF st] show ?thesis
      by (intro exI [of _ "SignReturns (fst e) # ls"] exI [of _ s']) auto
  qed
qed

lemma lock_run_snoc: "lock_run s ls s1 \<Longrightarrow> lock_step s1 l s2 \<Longrightarrow> lock_run s (ls @ [l]) s2"
  by (induction rule: lock_run.induct) (auto intro: lock_run.intros)

section \<open>Properties\<close>

text \<open>
  For as long as a call of \<open>Sign\<close> runs, the active issuer is the one it read at its start,
  whatever configuration arrives meanwhile; and a configuration that arrived is applied once the
  calls in flight have returned.
\<close>

lemma sign_issuer_stable:
  assumes "lock_run (lock_init m) ls s"
  shows "(\<forall>(c, r) \<in> set (lk_signing s). r = mgr_activeIssuerRef (lk_m s)) \<and>
    (\<forall>ev. lk_pending s = Some ev \<longrightarrow>
       (\<exists>ls' s'. (\<forall>l \<in> set ls'. \<exists>d. l = SignReturns d) \<and> lock_run s (ls' @ [EventHandled]) s' \<and>
          lk_m s' = handle_event (lk_m s) ev))"
proof -
  have "lock_inv s" using lock_run_inv [OF assms] by (simp add: lock_inv_def lock_init_def)
  moreover have "\<exists>ls' s'. (\<forall>l \<in> set ls'. \<exists>d. l = SignReturns d) \<and> lock_run s (ls' @ [EventHandled]) s' \<and>
      lk_m s' = handle_event (lk_m s) ev" if p: "lk_pending s = Some ev" for ev
  proof -
    obtain ls' s1 where r: "lock_run s ls' s1" "\<forall>l \<in> set ls'. \<exists>d. l = SignReturns d"
      "lk_m s1 = lk_m s" "lk_pending s1 = lk_pending s" "lk_signing s1 = []"
      using all_return [of s] by blast
    have "lock_step s1 EventHandled (s1\<lparr>lk_m := handle_event (lk_m s1) ev, lk_pending := None\<rparr>)"
      using r p by (intro lock_step.handled) simp_all
    from lock_run_snoc [OF r(1) this] r(2,3) show ?thesis by fastforce
  qed
  ultimately show ?thesis by (simp add: lock_inv_def)
qed

text \<open>
  A call of \<open>Sign\<close> that does not return stops everything: from the moment a configuration
  arrives, as long as that call is in flight, no further call of \<open>Sign\<close> starts, no readiness
  check completes and the configuration is not applied, so a working issuer cannot replace the
  one the call is stuck on.
\<close>

lemma stuck_sign_blocks_configuration:
  assumes "lk_pending s = Some ev" and "(c, r) \<in> set (lk_signing s)"
    and "lock_run s ls s'" and "SignReturns c \<notin> set ls"
  shows "lk_m s' = lk_m s \<and> (\<forall>d. SignBegins d \<notin> set ls) \<and> Probe \<notin> set ls \<and> EventHandled \<notin> set ls"
proof -
  have "c \<in> fst ` set (lk_signing s)" using assms(2) by force
  from lock_run_waiting [OF assms(3,1) this assms(4)] show ?thesis by blast
qed

end
