(* ===== verification/Sign_Calls.thy ===== *)
theory Sign_Calls
  imports Sign_Lock "HOL-Library.Multiset"
begin

text \<open>
  Concurrent calls of \<open>Sign\<close> in \<open>pkg/certmanager/certmanager.go\<close>, one API call or one received event at
  a time, on one cluster and under the lock \<open>activeIssuerRefMutex\<close>. \<open>Cert_Manager\<close> models a call as one
  function of the manager and of everything the API will answer; here the answers come from the
  shared cluster at the moment of each call, watch events arrive while others run, contexts end and
  the configuration changes. The functions of \<open>Cert_Manager\<close> are what each call amounts to.
\<close>

section \<open>Model\<close>

text \<open>
  Program points of a call: before the lock, before it reads the active issuer, before each API
  call, at the head of the outer loop of \<open>waitForCertificateRequest\<close> with the request it looks at, and
  at the receive, with the number of events received so far.
\<close>

datatype sign_pc =
    AtRLock
  | AtIssuer
  | AtCreate IssuerReference
  | AtWatch cm_CertificateRequest
  | AtGet cm_CertificateRequest
  | AtCheck cm_CertificateRequest cm_CertificateRequest nat
  | AtReceive cm_CertificateRequest nat
  | SignDone "error + Bundle"

text \<open>
  A call: its arguments, its program point, whether its context is done; the manager when it took
  the lock and what the API answered it, the watch with every event delivered so far.
\<close>

record sign_call =
  sc_identities :: string
  sc_csrPEM :: string
  sc_duration :: duration
  sc_usages :: "KeyUsage list"
  sc_pc :: sign_pc
  sc_ctxDone :: bool
  sc_locked :: manager
  sc_created :: "(error + cm_CertificateRequest) option"
  sc_watch :: "(error + Watcher) option"
  sc_got :: "(error + cm_CertificateRequest) option"

record 'w sign_state =
  sg_m :: manager
  sg_cluster :: "'w cluster"
  sg_calls :: "sign_call list"
  sg_pending :: "Event option"

definition sign_init :: "manager \<Rightarrow> 'w cluster \<Rightarrow> 'w sign_state" where
  "sign_init m cl = \<lparr>sg_m = m, sg_cluster = cl, sg_calls = [], sg_pending = None\<rparr>"

definition new_call :: "manager \<Rightarrow> string \<Rightarrow> string \<Rightarrow> duration \<Rightarrow> KeyUsage list \<Rightarrow> sign_call" where
  "new_call m ids csr dur us = \<lparr>sc_identities = ids, sc_csrPEM = csr, sc_duration = dur, sc_usages = us,
     sc_pc = AtRLock, sc_ctxDone = False, sc_locked = m, sc_created = None, sc_watch = None, sc_got = None\<rparr>"

definition holds_lock :: "sign_call \<Rightarrow> bool" where
  "holds_lock c \<longleftrightarrow> (case sc_pc c of AtRLock \<Rightarrow> False | SignDone r \<Rightarrow> False | _ \<Rightarrow> True)"

text \<open>What \<open>Sign\<close> returns after a wait with the given outcome.\<close>

definition wait_result :: "error + cm_CertificateRequest \<Rightarrow> error + Bundle" where
  "wait_result outcome = (case outcome of
     Inl err \<Rightarrow> Inl (Wrapf ''failed to wait for CertificateRequest %s/%s to be signed: %w'' err)
   | Inr signedCR \<Rightarrow> Inr \<lparr>b_Certificate = cr_Certificate signedCR, b_CA = cr_CA signedCR\<rparr>)"

text \<open>The return from \<open>waitForCertificateRequest\<close> and then from \<open>Sign\<close>, with the deferred cleanup.\<close>

definition wait_returns ::
  "manager \<Rightarrow> cm_CertificateRequest \<Rightarrow> error + cm_CertificateRequest \<Rightarrow> sign_call \<Rightarrow> 'w cluster
   \<Rightarrow> sign_call \<times> 'w cluster" where
  "wait_returns m cr outcome c cl =
     (c\<lparr>sc_pc := SignDone (wait_result outcome)\<rparr>,
      start_cleanup m (cr_Name cr) (Return outcome) cl)"

text \<open>The next step of a call that holds the lock; \<open>None\<close> while it waits for an event.\<close>

definition sign_advance ::
  "'w cm_env \<Rightarrow> manager \<Rightarrow> sign_call \<Rightarrow> 'w cluster \<Rightarrow> (sign_call \<times> 'w cluster) option" where
  "sign_advance env m c cl =
     (case sc_pc c of
        AtRLock \<Rightarrow> None
      | SignDone r \<Rightarrow> None
      | AtIssuer \<Rightarrow>
          Some (case mgr_activeIssuerRef m of
                  None \<Rightarrow> (c\<lparr>sc_pc := SignDone (Inl (Errorf ''no active issuerRef is configured for istio-csr''))\<rparr>, cl)
                | Some ref \<Rightarrow> (c\<lparr>sc_pc := AtCreate ref\<rparr>, cl))
      | AtCreate ref \<Rightarrow>
          (let cr = new_request m ref (sc_identities c) (sc_csrPEM c) (sc_duration c) (sc_usages c) in
           case env_Create env (cl_api cl) cr of
             (a, w) \<Rightarrow>
               Some (c\<lparr>sc_created := Some a,
                       sc_pc := (case a of
                           Inl err \<Rightarrow> SignDone (Inl (Wrapf ''failed to create CertificateRequest: %w'' err))
                         | Inr created \<Rightarrow> AtWatch created)\<rparr>,
                     do_call (CreateCall cr) w cl))
      | AtWatch cr \<Rightarrow>
          (case env_Watch env (cl_api cl) (cr_Name cr) of
             (a, w) \<Rightarrow>
               (let cl1 = do_call (WatchCall (cr_Name cr)) w cl in
                Some (case a of
                    Inl err \<Rightarrow> wait_returns m cr
                      (Inl (Wrapf ''failed to build watcher for CertificateRequest: %w'' err))
                      (c\<lparr>sc_watch := Some (Inl err)\<rparr>) cl1
                  | Inr wt \<Rightarrow>
                      (c\<lparr>sc_watch := Some (Inr (wt\<lparr>wt_Closed := wt_Closed wt \<or> sc_ctxDone c\<rparr>)),
                         sc_pc := AtGet cr\<rparr>, cl1))))
      | AtGet cr \<Rightarrow>
          (case env_Get env (cl_api cl) (cr_Name cr) of
             (a, w) \<Rightarrow>
               (let cl1 = do_call (GetCall (cr_Name cr)) w cl in
                Some (case a of
                    Inl err \<Rightarrow> wait_returns m cr (Inl (Wrapf ''failed to get CertificateRequest: %w'' err))
                      (c\<lparr>sc_got := Some a\<rparr>) cl1
                  | Inr cr2 \<Rightarrow> (c\<lparr>sc_got := Some a, sc_pc := AtCheck cr cr2 0\<rparr>, cl1))))
      | AtCheck created cr n \<Rightarrow>
          Some (if env_IsDenied env cr
                then wait_returns m created (Inl (Errorf ''created CertificateRequest has been denied: %v'')) c cl
                else if env_HasCondition env cr failed_condition
                then wait_returns m created (Inl (Errorf ''created CertificateRequest has failed: %v'')) c cl
                else if cr_Certificate cr \<noteq> [] then wait_returns m created (Inr cr) c cl
                else (c\<lparr>sc_pc := AtReceive created n\<rparr>, cl))
      | AtReceive created n \<Rightarrow>
          (case sc_watch c of
             Some (Inr wt) \<Rightarrow>
               if n < length (wt_Events wt)
               then (let ev = wt_Events wt ! n in
                     Some (if ev_Type ev = Deleted
                           then wait_returns m created
                                  (Inl (Errorf ''created CertificateRequest has been unexpectedly deleted'')) c cl
                           else (c\<lparr>sc_pc := (case ev_Object ev of
                                     ObjCertificateRequest cr \<Rightarrow> AtCheck created cr (Suc n)
                                   | _ \<Rightarrow> AtReceive created (Suc n))\<rparr>, cl)))
               else if wt_Closed wt
               then Some (wait_returns m created (Inl (Errorf ''watcher channel closed'')) c cl)
               else None
           | _ \<Rightarrow> None))"

text \<open>The watch of a call gets an event, or its channel is closed.\<close>

definition deliver_event :: "Event \<Rightarrow> sign_call \<Rightarrow> sign_call" where
  "deliver_event ev c =
     (case sc_watch c of
        Some (Inr wt) \<Rightarrow>
          if wt_Closed wt then c else c\<lparr>sc_watch := Some (Inr (wt\<lparr>wt_Events := wt_Events wt @ [ev]\<rparr>))\<rparr>
      | _ \<Rightarrow> c)"

definition close_watch :: "sign_call \<Rightarrow> sign_call" where
  "close_watch c =
     (case sc_watch c of Some (Inr wt) \<Rightarrow> c\<lparr>sc_watch := Some (Inr (wt\<lparr>wt_Closed := True\<rparr>))\<rparr> | _ \<Rightarrow> c)"

text \<open>
  The steps of the calls themselves: one takes the lock, which a waiting writer prevents, or goes
  on; the deletion goroutines; the handler of a configuration event once no call holds the lock.
\<close>

inductive own_step :: "'w cm_env \<Rightarrow> 'w sign_state \<Rightarrow> 'w sign_state \<Rightarrow> bool" for env where
  lock: "i < length (sg_calls s) \<Longrightarrow> sc_pc (sg_calls s ! i) = AtRLock \<Longrightarrow> sg_pending s = None \<Longrightarrow>
    own_step env s (s\<lparr>sg_calls := (sg_calls s)[i := (sg_calls s ! i)\<lparr>sc_pc := AtIssuer, sc_locked := sg_m s\<rparr>]\<rparr>)"
| advance: "i < length (sg_calls s) \<Longrightarrow> sign_advance env (sg_m s) (sg_calls s ! i) (sg_cluster s) = Some (c', cl') \<Longrightarrow>
    own_step env s (s\<lparr>sg_calls := (sg_calls s)[i := c'], sg_cluster := cl'\<rparr>)"
| cleanup: "own_step env s (s\<lparr>sg_cluster := run_cleanup env (sg_cluster s)\<rparr>)"
| handled: "sg_pending s = Some ev \<Longrightarrow> list_all (\<lambda>c. \<not> holds_lock c) (sg_calls s) \<Longrightarrow>
    own_step env s (s\<lparr>sg_m := handle_event (sg_m s) ev, sg_pending := None\<rparr>)"

text \<open>
  The steps of the outside: a new call, the end of a context, which closes the watch, a watch event
  or the end of a watch while the call has not returned, a configuration event, and any change of the API.
\<close>

inductive outside_step :: "'w sign_state \<Rightarrow> 'w sign_state \<Rightarrow> bool" where
  call: "outside_step s (s\<lparr>sg_calls := sg_calls s @ [new_call (sg_m s) ids csr dur us]\<rparr>)"
| ctx_done: "i < length (sg_calls s) \<Longrightarrow> \<not> (\<exists>r. sc_pc (sg_calls s ! i) = SignDone r) \<Longrightarrow>
    outside_step s (s\<lparr>sg_calls := (sg_calls s)[i := close_watch ((sg_calls s ! i)\<lparr>sc_ctxDone := True\<rparr>)]\<rparr>)"
| delivers: "i < length (sg_calls s) \<Longrightarrow> \<not> (\<exists>r. sc_pc (sg_calls s ! i) = SignDone r) \<Longrightarrow>
    outside_step s (s\<lparr>sg_calls := (sg_calls s)[i := deliver_event ev (sg_calls s ! i)]\<rparr>)"
| closes: "i < length (sg_calls s) \<Longrightarrow> \<not> (\<exists>r. sc_pc (sg_calls s ! i) = SignDone r) \<Longrightarrow>
    outside_step s (s\<lparr>sg_calls := (sg_calls s)[i := close_watch (sg_calls s ! i)]\<rparr>)"
| arrives: "sg_pending s = None \<Longrightarrow> takes_lock ev \<Longrightarrow> outside_step s (s\<lparr>sg_pending := Some ev\<rparr>)"
| api_changes: "outside_step s (s\<lparr>sg_cluster := (sg_cluster s)\<lparr>cl_api := w\<rparr>\<rparr>)"

definition sign_step :: "'w cm_env \<Rightarrow> 'w sign_state \<Rightarrow> 'w sign_state \<Rightarrow> bool" where
  "sign_step env s s' \<longleftrightarrow> own_step env s s' \<or> outside_step s s'"

section \<open>A call on its own\<close>

text \<open>The client that answers as the API has answered a call; \<open>Sign\<close> run with it, alone.\<close>

definition answer :: "(error + 'a) option \<Rightarrow> error + 'a" where
  "answer a = (case a of None \<Rightarrow> Inl (Errorf ''not called'') | Some r \<Rightarrow> r)"

definition replay :: "'w cm_env \<Rightarrow> sign_call \<Rightarrow> unit cm_env" where
  "replay env c = \<lparr>env_Create = (\<lambda>_ _. (answer (sc_created c), ())), env_Watch = (\<lambda>_ _. (answer (sc_watch c), ())),
     env_Get = (\<lambda>_ _. (answer (sc_got c), ())), env_Delete = (\<lambda>_ _. (None, ())),
     env_IsDenied = env_IsDenied env, env_HasCondition = env_HasCondition env\<rparr>"

definition Sign_alone :: "'w cm_env \<Rightarrow> sign_call \<Rightarrow> (error + Bundle) go" where
  "Sign_alone env c =
     fst (Sign (replay env c) (sc_locked c) \<lparr>cl_api = (), cl_calls = [], cl_cleanups = []\<rparr>
            (sc_identities c) (sc_csrPEM c) (sc_duration c) (sc_usages c))"

lemma wait_same:
  assumes "env_IsDenied env = env_IsDenied env'" "env_HasCondition env = env_HasCondition env'"
  shows "wait_check env cr evs closed = wait_check env' cr evs closed"
    and "wait_recv env evs closed = wait_recv env' evs closed"
  using assms
  by (induction env cr evs closed and env evs closed rule: wait_check_wait_recv.induct)
    (auto simp: wait_check.simps split: Object.splits)

lemma wait_replay: "wait_check (replay env c) cr evs closed = wait_check env cr evs closed"
  by (rule wait_same) (simp_all add: replay_def)

lemma Sign_alone_pc [simp]: "Sign_alone env (c\<lparr>sc_pc := p\<rparr>) = Sign_alone env c"
  by (simp add: Sign_alone_def replay_def)

lemma Sign_alone_no_issuer:
  "mgr_activeIssuerRef (sc_locked c) = None \<Longrightarrow>
   Sign_alone env c = Return (Inl (Errorf ''no active issuerRef is configured for istio-csr''))"
  by (simp add: Sign_alone_def Sign_def)

lemma Sign_alone_create_err:
  assumes "mgr_activeIssuerRef (sc_locked c) = Some ref" "sc_created c = Some (Inl err)"
  shows "Sign_alone env c = Return (Inl (Wrapf ''failed to create CertificateRequest: %w'' err))"
  using assms by (simp add: Sign_alone_def Sign_def replay_def answer_def)

lemma Sign_alone_watch_err:
  assumes "mgr_activeIssuerRef (sc_locked c) = Some ref" "sc_created c = Some (Inr cr)" "sc_watch c = Some (Inl err)"
  shows "Sign_alone env c = Return (wait_result (Inl (Wrapf ''failed to build watcher for CertificateRequest: %w'' err)))"
  using assms
  by (simp add: Sign_alone_def Sign_def waitForCertificateRequest_def replay_def answer_def do_call_def wait_result_def)

lemma Sign_alone_get_err:
  assumes "mgr_activeIssuerRef (sc_locked c) = Some ref" "sc_created c = Some (Inr cr)"
    "sc_watch c = Some (Inr wt)" "sc_got c = Some (Inl err)"
  shows "Sign_alone env c = Return (wait_result (Inl (Wrapf ''failed to get CertificateRequest: %w'' err)))"
  using assms
  by (simp add: Sign_alone_def Sign_def waitForCertificateRequest_def replay_def answer_def do_call_def wait_result_def)

lemma Sign_alone_wait:
  assumes "mgr_activeIssuerRef (sc_locked c) = Some ref" "sc_created c = Some (Inr cr)"
    "sc_watch c = Some (Inr wt)" "sc_got c = Some (Inr cr0)"
    "wait_check env cr0 (wt_Events wt) (wt_Closed wt) = Return outcome"
  shows "Sign_alone env c = Return (wait_result outcome)"
proof -
  have w: "wait_check (replay env c) cr0 (wt_Events wt) (wt_Closed wt) = Return outcome"
    using assms(5) by (simp only: wait_replay)
  have wf: "fst (waitForCertificateRequest (replay env c) cl cr) = Return outcome" for cl
    using assms(3,4) w by (simp add: waitForCertificateRequest_def replay_def answer_def do_call_def Let_def)
  have cr: "env_Create (replay env c) w' r = (Inr cr, ())" for w' r
    using assms(2) by (simp add: replay_def answer_def)
  show ?thesis
    unfolding Sign_alone_def Sign_def assms(1) option.case Let_def cr prod.case sum.case
    by (simp add: split_beta wf wait_result_def split: sum.splits)
qed

section \<open>The invariant\<close>

text \<open>
  What is left of the wait is what \<open>waitForCertificateRequest\<close> makes of the events still to come; a
  call that has returned has returned what it would have alone.
\<close>

definition call_inv :: "'w cm_env \<Rightarrow> sign_call \<Rightarrow> bool" where
  "call_inv env c \<longleftrightarrow>
     (case sc_pc c of
        AtRLock \<Rightarrow> sc_created c = None \<and> sc_watch c = None
      | AtIssuer \<Rightarrow> sc_created c = None \<and> sc_watch c = None
      | AtCreate ref \<Rightarrow> sc_created c = None \<and> sc_watch c = None \<and> mgr_activeIssuerRef (sc_locked c) = Some ref
      | AtWatch cr \<Rightarrow> (\<exists>ref. mgr_activeIssuerRef (sc_locked c) = Some ref) \<and> sc_created c = Some (Inr cr) \<and> sc_watch c = None
      | AtGet cr \<Rightarrow> (\<exists>ref wt. mgr_activeIssuerRef (sc_locked c) = Some ref \<and> sc_created c = Some (Inr cr) \<and>
          sc_watch c = Some (Inr wt) \<and> (sc_ctxDone c \<longrightarrow> wt_Closed wt))
      | AtCheck cr cr1 n \<Rightarrow> (\<exists>ref wt cr0. mgr_activeIssuerRef (sc_locked c) = Some ref \<and> sc_created c = Some (Inr cr) \<and>
          sc_watch c = Some (Inr wt) \<and> (sc_ctxDone c \<longrightarrow> wt_Closed wt) \<and> sc_got c = Some (Inr cr0) \<and> n \<le> length (wt_Events wt) \<and>
          (\<forall>rest closed. wait_check env cr0 (take n (wt_Events wt) @ rest) closed = wait_check env cr1 rest closed))
      | AtReceive cr n \<Rightarrow> (\<exists>ref wt cr0. mgr_activeIssuerRef (sc_locked c) = Some ref \<and> sc_created c = Some (Inr cr) \<and>
          sc_watch c = Some (Inr wt) \<and> (sc_ctxDone c \<longrightarrow> wt_Closed wt) \<and> sc_got c = Some (Inr cr0) \<and> n \<le> length (wt_Events wt) \<and>
          (\<forall>rest closed. wait_check env cr0 (take n (wt_Events wt) @ rest) closed = wait_recv env rest closed))
      | SignDone r \<Rightarrow> Sign_alone env c = Return r)"

text \<open>The request a call has created.\<close>

definition requested :: "sign_call \<Rightarrow> cm_CertificateRequest list" where
  "requested c = (case (sc_created c, mgr_activeIssuerRef (sc_locked c)) of
     (Some a, Some ref) \<Rightarrow> [new_request (sc_locked c) ref (sc_identities c) (sc_csrPEM c) (sc_duration c) (sc_usages c)]
   | _ \<Rightarrow> [])"

lemma requested_update [simp]:
  "requested (c\<lparr>sc_pc := p\<rparr>) = requested c"
  "requested (c\<lparr>sc_watch := wt\<rparr>) = requested c"
  "requested (c\<lparr>sc_got := g\<rparr>) = requested c"
  "requested (c\<lparr>sc_ctxDone := b\<rparr>) = requested c"
  by (simp_all add: requested_def split: option.splits)

text \<open>A step keeps the arguments and the manager of a call and leads to \<open>call_inv\<close> again.\<close>

definition good_step :: "'w cm_env \<Rightarrow> sign_call \<Rightarrow> 'w cluster \<Rightarrow> sign_call \<times> 'w cluster \<Rightarrow> bool" where
  "good_step env c cl r \<longleftrightarrow> call_inv env (fst r) \<and> sc_locked (fst r) = sc_locked c \<and>
     sc_ctxDone (fst r) = sc_ctxDone c \<and> sc_pc (fst r) \<noteq> AtRLock \<and>
     (\<exists>new. created_requests (snd r) = created_requests cl @ new \<and> requested (fst r) = requested c @ new)"

lemma wait_returns_good:
  assumes "Sign_alone env c = Return (wait_result outcome)"
  shows "good_step env c cl (wait_returns m cr outcome c cl)"
  using assms by (simp add: good_step_def wait_returns_def call_inv_def)


lemma advance_create_good:
  assumes "call_inv env c" "sign_advance env (sc_locked c) c cl = Some r" "sc_pc c = AtCreate ref"
  shows "good_step env c cl r"
proof -
  from assms(1,3) have i: "mgr_activeIssuerRef (sc_locked c) = Some ref" "sc_created c = None" "sc_watch c = None"
    by (simp_all add: call_inv_def)
  obtain a w where a: "env_Create env (cl_api cl)
      (new_request (sc_locked c) ref (sc_identities c) (sc_csrPEM c) (sc_duration c) (sc_usages c)) = (a, w)"
    by (cases "env_Create env (cl_api cl)
      (new_request (sc_locked c) ref (sc_identities c) (sc_csrPEM c) (sc_duration c) (sc_usages c))")
  have "sc_created (c\<lparr>sc_created := Some a\<rparr>) = Some a" by simp
  with assms(3,2) a i show ?thesis
    by (cases a) (auto simp: sign_advance_def good_step_def call_inv_def requested_def Let_def
        intro!: Sign_alone_create_err)
qed

lemma advance_watch_good:
  assumes "call_inv env c" "sign_advance env (sc_locked c) c cl = Some r" "sc_pc c = AtWatch cr"
  shows "good_step env c cl r"
proof -
  obtain ref where i: "mgr_activeIssuerRef (sc_locked c) = Some ref" "sc_created c = Some (Inr cr)"
    using assms(1,3) by (auto simp: call_inv_def)
  obtain a w where a: "env_Watch env (cl_api cl) (cr_Name cr) = (a, w)" by (cases "env_Watch env (cl_api cl) (cr_Name cr)")
  show ?thesis
  proof (cases a)
    case (Inl err)
    let ?c = "c\<lparr>sc_watch := Some (Inl err)\<rparr>"
    have "good_step env ?c (do_call (WatchCall (cr_Name cr)) w cl) r"
      using assms(3,2) a Inl i
      by (auto simp: sign_advance_def Let_def intro!: wait_returns_good Sign_alone_watch_err)
    then show ?thesis by (simp add: good_step_def)
  next
    case (Inr wt)
    with assms(3,2) a i show ?thesis
      by (auto simp: sign_advance_def good_step_def call_inv_def requested_def Let_def)
  qed
qed

lemma advance_get_good:
  assumes "call_inv env c" "sign_advance env (sc_locked c) c cl = Some r" "sc_pc c = AtGet cr"
  shows "good_step env c cl r"
proof -
  obtain ref wt where i: "mgr_activeIssuerRef (sc_locked c) = Some ref" "sc_created c = Some (Inr cr)"
    "sc_watch c = Some (Inr wt)" "sc_ctxDone c \<longrightarrow> wt_Closed wt"
    using assms(1,3) by (auto simp: call_inv_def)
  obtain a w where a: "env_Get env (cl_api cl) (cr_Name cr) = (a, w)" by (cases "env_Get env (cl_api cl) (cr_Name cr)")
  show ?thesis
  proof (cases a)
    case (Inl err)
    let ?c = "c\<lparr>sc_got := Some (Inl err)\<rparr>"
    have "good_step env ?c (do_call (GetCall (cr_Name cr)) w cl) r"
      using assms(3,2) a Inl i
      by (auto simp: sign_advance_def Let_def intro!: wait_returns_good Sign_alone_get_err)
    then show ?thesis by (simp add: good_step_def)
  next
    case (Inr cr2)
    with assms(3,2) a i show ?thesis
      by (auto simp: sign_advance_def good_step_def call_inv_def requested_def Let_def)
  qed
qed

lemma advance_check_good:
  assumes "call_inv env c" "sign_advance env (sc_locked c) c cl = Some r" "sc_pc c = AtCheck cr cr1 n"
  shows "good_step env c cl r"
proof -
  obtain ref wt cr0 where i: "mgr_activeIssuerRef (sc_locked c) = Some ref" "sc_created c = Some (Inr cr)"
    "sc_watch c = Some (Inr wt)" "sc_ctxDone c \<longrightarrow> wt_Closed wt" "sc_got c = Some (Inr cr0)" "n \<le> length (wt_Events wt)"
    and w: "\<And>rest closed. wait_check env cr0 (take n (wt_Events wt) @ rest) closed = wait_check env cr1 rest closed"
    using assms(1,3) by (auto simp: call_inv_def)
  note decided = wait_returns_good [OF Sign_alone_wait [OF i(1-3,5)]]
  from w [of "drop n (wt_Events wt)" "wt_Closed wt"]
  have all: "wait_check env cr0 (wt_Events wt) (wt_Closed wt) = wait_check env cr1 (drop n (wt_Events wt)) (wt_Closed wt)"
    by simp
  show ?thesis
  proof (cases "env_IsDenied env cr1 \<or> env_HasCondition env cr1 failed_condition \<or> cr_Certificate cr1 \<noteq> []")
    case True
    with assms(3,2) all show ?thesis
      by (auto simp: sign_advance_def wait_check.simps [of env cr1] split: if_splits intro!: decided)
  next
    case False
    with assms(3,2) i w show ?thesis
      by (auto simp: sign_advance_def good_step_def call_inv_def wait_check.simps [of env cr1])
  qed
qed

lemma advance_receive_good:
  assumes "call_inv env c" "sign_advance env (sc_locked c) c cl = Some r" "sc_pc c = AtReceive cr n"
  shows "good_step env c cl r"
proof -
  obtain ref wt cr0 where i: "mgr_activeIssuerRef (sc_locked c) = Some ref" "sc_created c = Some (Inr cr)"
    "sc_watch c = Some (Inr wt)" "sc_ctxDone c \<longrightarrow> wt_Closed wt" "sc_got c = Some (Inr cr0)" "n \<le> length (wt_Events wt)"
    and w: "\<And>rest closed. wait_check env cr0 (take n (wt_Events wt) @ rest) closed = wait_recv env rest closed"
    using assms(1,3) by (auto simp: call_inv_def)
  note decided = wait_returns_good [OF Sign_alone_wait [OF i(1-3,5)]]
  show ?thesis
  proof (cases "n < length (wt_Events wt)")
    case True
    then have w': "wait_check env cr0 (take (Suc n) (wt_Events wt) @ rest) closed = wait_recv env (wt_Events wt ! n # rest) closed"
      for rest closed using w [of "wt_Events wt ! n # rest"] by (simp add: take_Suc_conv_app_nth)
    from w' [of "drop (Suc n) (wt_Events wt)" "wt_Closed wt"]
    have all: "wait_check env cr0 (wt_Events wt) (wt_Closed wt) =
        wait_recv env (wt_Events wt ! n # drop (Suc n) (wt_Events wt)) (wt_Closed wt)" by simp
    show ?thesis
    proof (cases "ev_Type (wt_Events wt ! n) = Deleted")
      case deleted: True
      with assms(3,2) i True all show ?thesis by (auto simp: sign_advance_def Let_def intro!: decided)
    next
      case False
      with assms(3,2) i True w' show ?thesis
        by (auto simp: sign_advance_def good_step_def call_inv_def Let_def split: Object.splits)
    qed
  next
    case False
    with w [of "[]" "wt_Closed wt"] i(6) assms(3,2) i(3) show ?thesis
      by (auto simp: sign_advance_def split: if_splits intro!: decided)
  qed
qed

lemma sign_advance_good:
  assumes "call_inv env c" "sign_advance env (sc_locked c) c cl = Some r"
  shows "good_step env c cl r"
proof (cases "sc_pc c")
  case AtIssuer
  with assms show ?thesis
    by (auto simp: sign_advance_def good_step_def call_inv_def Sign_alone_no_issuer split: option.splits)
qed (use assms advance_create_good [OF assms] advance_watch_good [OF assms] advance_get_good [OF assms]
    advance_check_good [OF assms] advance_receive_good [OF assms] in \<open>simp_all add: sign_advance_def\<close>)

lemma sign_advance_holds: "sign_advance env m c cl = Some r \<Longrightarrow> holds_lock c"
  by (auto simp: sign_advance_def holds_lock_def split: sign_pc.splits)

lemma created_requests_update [simp]:
  "created_requests (cl\<lparr>cl_api := w\<rparr>) = created_requests cl"
  "created_requests (cl\<lparr>cl_cleanups := ns\<rparr>) = created_requests cl"
  by (simp_all add: created_requests_def)

lemma mset_concat_update:
  "i < length xs \<Longrightarrow> mset (concat (map f (xs[i := y]))) + mset (f (xs ! i)) = mset (concat (map f xs)) + mset (f y)"
  by (induction xs arbitrary: i) (auto split: nat.splits)

definition sign_inv :: "'w cm_env \<Rightarrow> 'w cluster \<Rightarrow> 'w sign_state \<Rightarrow> bool" where
  "sign_inv env cl s \<longleftrightarrow>
     (\<forall>c \<in> set (sg_calls s). call_inv env c \<and> (holds_lock c \<longrightarrow> sc_locked c = sg_m s)) \<and>
     mset (created_requests (sg_cluster s)) = mset (created_requests cl) + mset (concat (map requested (sg_calls s)))"

lemma sign_inv_update:
  assumes "sign_inv env cl s" "i < length (sg_calls s)" "call_inv env c'" "holds_lock c' \<longrightarrow> sc_locked c' = sg_m s"
    "created_requests cl' = created_requests (sg_cluster s) @ new" "requested c' = requested (sg_calls s ! i) @ new"
  shows "sign_inv env cl (s\<lparr>sg_calls := (sg_calls s)[i := c'], sg_cluster := cl'\<rparr>)"
  using assms mset_concat_update [OF assms(2), of requested c'] set_update_subset_insert [of "sg_calls s" i c']
  by (auto simp: sign_inv_def)

lemma own_step_inv:
  assumes "own_step env s s'" "sign_inv env cl s"
  shows "sign_inv env cl s'"
  using assms(1)
proof cases
  case (lock i)
  let ?c = "sg_calls s ! i"
  have "call_inv env ?c" using lock assms(2) by (simp add: sign_inv_def)
  with lock have "call_inv env (?c\<lparr>sc_pc := AtIssuer, sc_locked := sg_m s\<rparr>)"
    "requested (?c\<lparr>sc_pc := AtIssuer, sc_locked := sg_m s\<rparr>) = requested ?c @ []"
    by (simp_all add: call_inv_def requested_def)
  from sign_inv_update [OF assms(2) lock(2) this(1) _ _ this(2), of "sg_cluster s"] lock(1) show ?thesis by simp
next
  case (advance i c' cl')
  let ?c = "sg_calls s ! i"
  have c: "call_inv env ?c" "sc_locked ?c = sg_m s"
    using advance assms(2) sign_advance_holds [OF advance(3)] by (simp_all add: sign_inv_def)
  from sign_advance_good [OF c(1), unfolded c(2), OF advance(3)]
  have g: "call_inv env c'" "sc_locked c' = sg_m s"
    "\<exists>new. created_requests cl' = created_requests (sg_cluster s) @ new \<and> requested c' = requested ?c @ new"
    by (simp_all add: good_step_def c(2))
  from g(3) sign_inv_update [OF assms(2) advance(2) g(1)] g(2) advance(1) show ?thesis by auto
next
  case cleanup
  with assms(2) show ?thesis
    by (auto simp: sign_inv_def run_cleanup_def split: list.splits prod.splits)
next
  case (handled ev)
  with assms(2) show ?thesis by (simp add: sign_inv_def list_all_iff)
qed

text \<open>What the outside does to a call in flight.\<close>

definition outside_of :: "sign_call \<Rightarrow> sign_call \<Rightarrow> bool" where
  "outside_of c c' \<longleftrightarrow> (\<exists>ev. c' = deliver_event ev c) \<or> c' = close_watch c \<or> c' = close_watch (c\<lparr>sc_ctxDone := True\<rparr>)"

lemma outside_of_intros:
  "outside_of c (deliver_event ev c)" "outside_of c (close_watch c)" "outside_of c (close_watch (c\<lparr>sc_ctxDone := True\<rparr>))"
  by (auto simp: outside_of_def)

lemma outside_of_same:
  assumes "outside_of c c'"
  shows "sc_pc c' = sc_pc c" "sc_locked c' = sc_locked c" "requested c' = requested c"
    "sc_created c' = sc_created c" "sc_got c' = sc_got c" "sc_watch c' = None \<longleftrightarrow> sc_watch c = None"
  using assms by (auto simp: outside_of_def deliver_event_def close_watch_def split: option.splits sum.splits)

lemma outside_of_watch:
  assumes "outside_of c c'" "sc_watch c = Some (Inr wt)" "sc_ctxDone c \<longrightarrow> wt_Closed wt"
  obtains evs closed where "sc_watch c' = Some (Inr \<lparr>wt_Events = wt_Events wt @ evs, wt_Closed = closed\<rparr>)"
    "sc_ctxDone c' \<longrightarrow> closed"
proof -
  have "\<exists>evs closed. sc_watch c' = Some (Inr \<lparr>wt_Events = wt_Events wt @ evs, wt_Closed = closed\<rparr>) \<and> (sc_ctxDone c' \<longrightarrow> closed)"
    using assms by (cases wt) (auto simp: outside_of_def deliver_event_def close_watch_def)
  with that show thesis by blast
qed

lemma outside_of_inv:
  assumes "call_inv env c" "outside_of c c'" "\<not> (\<exists>r. sc_pc c = SignDone r)"
  shows "call_inv env c'"
proof (cases "\<exists>wt. sc_watch c = Some (Inr wt) \<and> (sc_ctxDone c \<longrightarrow> wt_Closed wt)")
  case True
  then obtain wt where wt: "sc_watch c = Some (Inr wt)" "sc_ctxDone c \<longrightarrow> wt_Closed wt" by blast
  obtain evs closed where w: "sc_watch c' = Some (Inr \<lparr>wt_Events = wt_Events wt @ evs, wt_Closed = closed\<rparr>)"
    "sc_ctxDone c' \<longrightarrow> closed"
    by (rule outside_of_watch [OF assms(2) wt])
  show ?thesis using assms(1,3) outside_of_same [OF assms(2)] wt(1) w
    by (cases "sc_pc c") (simp_all add: call_inv_def, (elim conjE exE, simp)+)
next
  case False
  then show ?thesis using assms(1,3) outside_of_same [OF assms(2)] by (cases "sc_pc c") (auto simp: call_inv_def)
qed

lemma outside_step_inv:
  assumes "outside_step s s'" "sign_inv env cl s"
  shows "sign_inv env cl s'"
proof -
  have upd: "sign_inv env cl (s\<lparr>sg_calls := (sg_calls s)[i := c']\<rparr>)"
    if i: "i < length (sg_calls s)" "\<not> (\<exists>r. sc_pc (sg_calls s ! i) = SignDone r)" "outside_of (sg_calls s ! i) c'" for i c'
  proof -
    have c: "call_inv env (sg_calls s ! i)" "holds_lock (sg_calls s ! i) \<longrightarrow> sc_locked (sg_calls s ! i) = sg_m s"
      using i(1) assms(2) by (simp_all add: sign_inv_def)
    note o = outside_of_same [OF i(3)]
    have "holds_lock c' \<longrightarrow> sc_locked c' = sg_m s" using c(2) o by (simp add: holds_lock_def)
    from sign_inv_update [OF assms(2) i(1) outside_of_inv [OF c(1) i(3,2)] this, of "sg_cluster s" "[]"] o(3)
    show ?thesis by simp
  qed
  from assms(1) show ?thesis
  proof cases
    case (call ids csr dur us)
    with assms(2) show ?thesis
      by (auto simp: sign_inv_def new_call_def call_inv_def holds_lock_def requested_def)
  next
    case (ctx_done i)
    show ?thesis unfolding ctx_done(1) by (rule upd [OF ctx_done(2,3) outside_of_intros(3)])
  next
    case (delivers i ev)
    show ?thesis unfolding delivers(1) by (rule upd [OF delivers(2,3) outside_of_intros(1)])
  next
    case (closes i)
    show ?thesis unfolding closes(1) by (rule upd [OF closes(2,3) outside_of_intros(2)])
  qed (use assms(2) in \<open>simp_all add: sign_inv_def\<close>)
qed

lemma sign_inv_reach: "(sign_step env)\<^sup>*\<^sup>* (sign_init m cl) s \<Longrightarrow> sign_inv env cl s"
proof (induction rule: rtranclp_induct)
  case base
  then show ?case by (simp add: sign_inv_def sign_init_def)
next
  case (step s s')
  then show ?case using own_step_inv outside_step_inv by (auto simp: sign_step_def)
qed

section \<open>The lock protocol\<close>

text \<open>
  \<open>Sign_Lock\<close> is the abstraction of all this to who holds the lock: every step here is a step there,
  or none.
\<close>

definition holders :: "sign_call list \<Rightarrow> nat set" where
  "holders cs = {i. i < length cs \<and> holds_lock (cs ! i)}"

definition lock_abs :: "'w sign_state \<Rightarrow> lock_state \<Rightarrow> bool" where
  "lock_abs s t \<longleftrightarrow> lk_m t = sg_m s \<and> lk_pending t = sg_pending s \<and> fst ` set (lk_signing t) = holders (sg_calls s)"

lemma holders_update:
  "i < length cs \<Longrightarrow> holders (cs[i := c]) = (if holds_lock c then insert i (holders cs) else holders cs - {i})"
  by (auto simp: holders_def nth_list_update split: if_splits)

lemma holders_snoc: "holders (cs @ [c]) = (if holds_lock c then insert (length cs) (holders cs) else holders cs)"
  by (auto simp: holders_def nth_append less_Suc_eq)

lemma fst_filter: "fst ` {e \<in> set es. fst e \<noteq> i} = fst ` set es - {i}"
  by force

lemma lock_run_one: "lock_step t l t' \<Longrightarrow> lock_run t [l] t'"
  by (blast intro: lock_run.intros)

lemma own_step_lock:
  assumes "own_step env s s'" "lock_abs s t"
  shows "\<exists>ls t'. lock_run t ls t' \<and> lock_abs s' t'"
  using assms(1)
proof cases
  case (lock i)
  have "i \<notin> fst ` set (lk_signing t)" using lock assms(2) by (simp add: lock_abs_def holders_def holds_lock_def)
  from lock_run_one [OF lock_step.begins [OF _ this]] lock assms(2) show ?thesis
    by (intro exI [of _ "[SignBegins i]"] exI [of _ "t\<lparr>lk_signing := (i, mgr_activeIssuerRef (lk_m t)) # lk_signing t\<rparr>"])
      (simp add: lock_abs_def holders_update holds_lock_def)
next
  case (advance i c' cl')
  then have i: "i \<in> holders (sg_calls s)" using sign_advance_holds by (simp add: holders_def)
  show ?thesis
  proof (cases "holds_lock c'")
    case True
    with advance i assms(2) show ?thesis
      by (intro exI [of _ "[]"] exI [of _ t]) (simp add: lock_run_Nil lock_abs_def holders_update insert_absorb)
  next
    case False
    have "i \<in> fst ` set (lk_signing t)" using i assms(2) by (simp add: lock_abs_def)
    from lock_run_one [OF lock_step.returns [OF this]] False advance assms(2) show ?thesis
      by (intro exI [of _ "[SignReturns i]"] exI [of _ "t\<lparr>lk_signing := filter (\<lambda>e. fst e \<noteq> i) (lk_signing t)\<rparr>"])
        (simp add: lock_abs_def holders_update fst_filter)
  qed
next
  case cleanup
  with assms(2) show ?thesis by (intro exI [of _ "[]"] exI [of _ t]) (simp add: lock_run_Nil lock_abs_def)
next
  case (handled ev)
  then have "holders (sg_calls s) = {}" by (auto simp: holders_def list_all_length)
  with handled assms(2) lock_run_one [OF lock_step.handled [of t ev]] show ?thesis
    by (intro exI [of _ "[EventHandled]"] exI [of _ "t\<lparr>lk_m := handle_event (lk_m t) ev, lk_pending := None\<rparr>"])
      (simp add: lock_abs_def)
qed

lemma outside_step_lock:
  assumes "outside_step s s'" "lock_abs s t"
  shows "\<exists>ls t'. lock_run t ls t' \<and> lock_abs s' t'"
proof -
  have same: "\<exists>ls t'. lock_run t ls t' \<and> lock_abs u t'"
    if "sg_m u = sg_m s" "sg_pending u = sg_pending s" "holders (sg_calls u) = holders (sg_calls s)" for u :: "'a sign_state"
    using assms(2) that by (intro exI [of _ "[]"] exI [of _ t]) (simp add: lock_run_Nil lock_abs_def)
  have upd: "holders ((sg_calls s)[i := c']) = holders (sg_calls s)"
    if "i < length (sg_calls s)" "outside_of (sg_calls s ! i) c'" for i c'
  proof -
    have "holds_lock c' \<longleftrightarrow> i \<in> holders (sg_calls s)"
      using that(1) outside_of_same(1) [OF that(2)] by (simp add: holders_def holds_lock_def)
    with that(1) show ?thesis by (auto simp: holders_update)
  qed
  from assms(1) show ?thesis
  proof cases
    case (arrives ev)
    with assms(2) lock_run_one [OF lock_step.arrives [of t ev]] show ?thesis
      by (intro exI [of _ "[EventArrives ev]"] exI [of _ "t\<lparr>lk_pending := Some ev\<rparr>"]) (simp add: lock_abs_def)
  qed (simp_all add: same upd outside_of_intros holders_snoc new_call_def holds_lock_def)
qed

lemma lock_run_append: "lock_run s ls s1 \<Longrightarrow> lock_run s1 ls' s2 \<Longrightarrow> lock_run s (ls @ ls') s2"
  by (induction rule: lock_run.induct) (auto intro: lock_run.intros)

lemma sign_refines_lock:
  "(sign_step env)\<^sup>*\<^sup>* (sign_init m cl) s \<Longrightarrow> \<exists>ls t. lock_run (lock_init m) ls t \<and> lock_abs s t"
proof (induction rule: rtranclp_induct)
  case base
  have "lock_abs (sign_init m cl) (lock_init m)" by (simp add: lock_abs_def sign_init_def lock_init_def holders_def)
  with lock_run_Nil show ?case by blast
next
  case (step s s')
  then obtain ls t where "lock_run (lock_init m) ls t" "lock_abs s t" by blast
  with step.hyps(2) own_step_lock outside_step_lock lock_run_append show ?case unfolding sign_step_def by meson
qed

section \<open>Calls whose context is done\<close>

text \<open>What is left to do of a call: the API calls, then the events to look at.\<close>

definition call_left :: "sign_call \<Rightarrow> nat \<times> nat" where
  "call_left c =
     (let n = (case sc_watch c of Some (Inr wt) \<Rightarrow> length (wt_Events wt) | _ \<Rightarrow> 0) in
      case sc_pc c of
        AtRLock \<Rightarrow> (4, 0) | AtIssuer \<Rightarrow> (3, 0) | AtCreate ref \<Rightarrow> (2, 0) | AtWatch cr \<Rightarrow> (1, 0)
      | AtGet cr \<Rightarrow> (0, 2 * n + 3) | AtCheck cr cr1 i \<Rightarrow> (0, 2 * (n - i) + 2)
      | AtReceive cr i \<Rightarrow> (0, 2 * (n - i) + 1) | SignDone r \<Rightarrow> (0, 0))"

definition advances :: "'w cm_env \<Rightarrow> manager \<Rightarrow> sign_call \<times> 'w cluster \<Rightarrow> sign_call \<times> 'w cluster \<Rightarrow> bool" where
  "advances env m p p' \<longleftrightarrow> sign_advance env m (fst p) (snd p) = Some p'"

lemma call_left_done: "call_left (fst (wait_returns m cr outcome c cl)) = (0, 0)"
  by (simp add: call_left_def wait_returns_def)

lemma sign_advance_left:
  assumes "sign_advance env m c cl = Some r"
  shows "(call_left (fst r), call_left c) \<in> less_than <*lex*> less_than"
proof (cases "sc_pc c")
  case (AtCreate ref)
  with assms show ?thesis by (auto simp: sign_advance_def call_left_def Let_def split: prod.splits sum.splits)
next
  case (AtWatch cr)
  with assms show ?thesis
    by (auto simp: sign_advance_def call_left_done Let_def split: prod.splits sum.splits) (simp_all add: call_left_def)
next
  case (AtGet cr)
  with assms show ?thesis
    by (auto simp: sign_advance_def call_left_done Let_def split: prod.splits sum.splits)
      (simp_all add: call_left_def split: option.splits sum.splits)
next
  case (AtCheck cr cr1 n)
  with assms show ?thesis
    by (auto simp: sign_advance_def call_left_done split: if_splits) (simp_all add: call_left_def)
next
  case (AtReceive cr n)
  with assms show ?thesis
    by (auto simp: sign_advance_def call_left_done Let_def split: if_splits option.splits sum.splits Object.splits)
      (simp_all add: call_left_def)
qed (use assms in \<open>auto simp: sign_advance_def call_left_def split: option.splits\<close>)

lemma done_advances:
  assumes "call_inv env c" "holds_lock c" "sc_ctxDone c"
  shows "sign_advance env m c cl \<noteq> None"
proof (cases "sc_pc c")
  case (AtReceive cr n)
  then obtain wt where "sc_watch c = Some (Inr wt)" "wt_Closed wt"
    using assms(1,3) by (auto simp: call_inv_def)
  with AtReceive show ?thesis by (simp add: sign_advance_def Let_def)
qed (use assms(2) in \<open>auto simp: sign_advance_def holds_lock_def Let_def split: prod.splits\<close>)

lemma done_call_returns:
  assumes "call_inv env c" "holds_lock c" "sc_ctxDone c"
  shows "\<exists>p. (advances env (sc_locked c))\<^sup>*\<^sup>* (c, cl) p \<and> call_inv env (fst p) \<and> \<not> holds_lock (fst p)"
proof -
  let ?P = "\<lambda>p. call_inv env (fst p) \<and> sc_locked (fst p) = sc_locked c \<and> sc_ctxDone (fst p)"
  have "\<exists>p. (advances env (sc_locked c))\<^sup>*\<^sup>* (c, cl) p \<and> ?P p \<and> \<not> holds_lock (fst p)"
  proof (rule wf_reaches [of "inv_image (less_than <*lex*> less_than) (\<lambda>p. call_left (fst p))"])
    fix p :: "sign_call \<times> 'a cluster"
    assume p: "?P p" "\<not> \<not> holds_lock (fst p)"
    then obtain q where q: "sign_advance env (sc_locked (fst p)) (fst p) (snd p) = Some q"
      using done_advances by blast
    from sign_advance_good [OF _ q] p have "?P q" by (simp add: good_step_def)
    with q sign_advance_left [OF q] p(1)
    show "\<exists>q. advances env (sc_locked c) p q \<and> ?P q \<and>
        (q, p) \<in> inv_image (less_than <*lex*> less_than) (\<lambda>p. call_left (fst p))"
      by (intro exI [of _ q]) (simp add: advances_def)
  qed (use assms in auto)
  then show ?thesis by blast
qed

lemma advances_run:
  assumes "(advances env (sg_m s))\<^sup>*\<^sup>* (sg_calls s ! i, sg_cluster s) p" "i < length (sg_calls s)"
  shows "(own_step env)\<^sup>*\<^sup>* s (s\<lparr>sg_calls := (sg_calls s)[i := fst p], sg_cluster := snd p\<rparr>)"
  using assms(1)
proof (induction rule: rtranclp_induct)
  case base
  then show ?case by simp
next
  case (step p q)
  let ?s = "s\<lparr>sg_calls := (sg_calls s)[i := fst p], sg_cluster := snd p\<rparr>"
  have "own_step env ?s (?s\<lparr>sg_calls := (sg_calls ?s)[i := fst q], sg_cluster := snd q\<rparr>)"
    using step.hyps(2) assms(2) by (intro own_step.advance) (simp_all add: advances_def)
  with step.IH show ?case by (simp add: rtranclp.rtrancl_into_rtrancl)
qed

lemma length_filter_update:
  "i < length xs \<Longrightarrow> P (xs ! i) \<Longrightarrow> \<not> P y \<Longrightarrow> length (filter P (xs[i := y])) < length (filter P xs)"
proof (induction xs arbitrary: i)
  case (Cons x xs)
  then show ?case by (cases i) auto
qed simp

text \<open>Every call in flight has its invariant and a context that is done.\<close>

definition ending :: "'w cm_env \<Rightarrow> 'w sign_state \<Rightarrow> bool" where
  "ending env s \<longleftrightarrow> (\<forall>c \<in> set (sg_calls s). call_inv env c \<and> (holds_lock c \<longrightarrow> sc_locked c = sg_m s \<and> sc_ctxDone c))"

lemma ending_one:
  assumes "ending env s" "\<not> list_all (\<lambda>c. \<not> holds_lock c) (sg_calls s)"
  shows "\<exists>s'. (own_step env)\<^sup>*\<^sup>* s s' \<and> ending env s' \<and> sg_m s' = sg_m s \<and> sg_pending s' = sg_pending s \<and>
    length (filter holds_lock (sg_calls s')) < length (filter holds_lock (sg_calls s))"
proof -
  obtain i where i: "i < length (sg_calls s)" "holds_lock (sg_calls s ! i)"
    using assms(2) by (auto simp: list_all_length)
  then have c: "call_inv env (sg_calls s ! i)" "sc_locked (sg_calls s ! i) = sg_m s" "sc_ctxDone (sg_calls s ! i)"
    using assms(1) by (auto simp: ending_def)
  obtain p where p: "(advances env (sg_m s))\<^sup>*\<^sup>* (sg_calls s ! i, sg_cluster s) p" "call_inv env (fst p)" "\<not> holds_lock (fst p)"
    using done_call_returns [OF c(1) i(2) c(3), of "sg_cluster s"] unfolding c(2) by blast
  have "ending env (s\<lparr>sg_calls := (sg_calls s)[i := fst p], sg_cluster := snd p\<rparr>)"
    using assms(1) p set_update_subset_insert [of "sg_calls s" i "fst p"] by (auto simp: ending_def)
  with advances_run [OF p(1) i(1)] length_filter_update [of i "sg_calls s" holds_lock, OF i p(3)] show ?thesis
    by (intro exI [of _ "s\<lparr>sg_calls := (sg_calls s)[i := fst p], sg_cluster := snd p\<rparr>"]) simp
qed

lemma ending_all:
  assumes "ending env s"
  shows "\<exists>s'. (own_step env)\<^sup>*\<^sup>* s s' \<and> sg_m s' = sg_m s \<and> sg_pending s' = sg_pending s \<and>
    list_all (\<lambda>c. \<not> holds_lock c) (sg_calls s')"
proof -
  let ?P = "\<lambda>t. ending env t \<and> sg_m t = sg_m s \<and> sg_pending t = sg_pending s"
  have "\<exists>s'. ((own_step env)\<^sup>*\<^sup>*)\<^sup>*\<^sup>* s s' \<and> ?P s' \<and> list_all (\<lambda>c. \<not> holds_lock c) (sg_calls s')"
  proof (rule measure_reaches [where m = "\<lambda>t. length (filter holds_lock (sg_calls t))"])
    fix t
    assume "?P t" "\<not> list_all (\<lambda>c. \<not> holds_lock c) (sg_calls t)"
    with ending_one [of env t] show "\<exists>t'. (own_step env)\<^sup>*\<^sup>* t t' \<and> ?P t' \<and>
        length (filter holds_lock (sg_calls t')) < length (filter holds_lock (sg_calls t))"
      by auto
  qed (use assms in simp)
  then show ?thesis by (auto simp: rtranclp_idemp)
qed

section \<open>When a call waits\<close>

text \<open>
  A call waits before the lock while a configuration event is ahead of it, or at the receive when it
  has seen all events of an open watch and none of them, nor the request it got, decides.
\<close>

definition receive_waits :: "'w cm_env \<Rightarrow> sign_call \<Rightarrow> bool" where
  "receive_waits env c \<longleftrightarrow>
     (\<exists>cr wt cr0. sc_pc c = AtReceive cr (length (wt_Events wt)) \<and> sc_watch c = Some (Inr wt) \<and> \<not> wt_Closed wt \<and>
        sc_got c = Some (Inr cr0) \<and> verdict env cr0 = None \<and> list_all (\<lambda>ev. event_verdict env ev = None) (wt_Events wt))"

definition call_waits :: "'w cm_env \<Rightarrow> 'w sign_state \<Rightarrow> sign_call \<Rightarrow> bool" where
  "call_waits env s c \<longleftrightarrow> sc_pc c = AtRLock \<and> sg_pending s \<noteq> None \<or> receive_waits env c"

lemma advance_stuck:
  assumes "call_inv env c" "holds_lock c" "sign_advance env m c cl = None"
  shows "receive_waits env c"
proof (cases "sc_pc c")
  case (AtReceive cr n)
  then obtain wt cr0 where i: "sc_watch c = Some (Inr wt)" "sc_got c = Some (Inr cr0)" "n \<le> length (wt_Events wt)"
    and w: "\<And>rest closed. wait_check env cr0 (take n (wt_Events wt) @ rest) closed = wait_recv env rest closed"
    using assms(1) by (auto simp: call_inv_def)
  from assms(3) AtReceive i have n: "n = length (wt_Events wt)" "\<not> wt_Closed wt"
    by (auto simp: sign_advance_def Let_def split: if_splits)
  with w [of "[]" False] have "wait_check env cr0 (wt_Events wt) False = Blocked" by simp
  then have "verdict env cr0 = None \<and> list_all (\<lambda>ev. event_verdict env ev = None) (wt_Events wt)"
    by (auto simp: wait_check_verdict wait_recv_verdict first_verdict_Blocked list_all_iff split: option.splits)
  with AtReceive i n show ?thesis unfolding receive_waits_def by blast
qed (use assms in \<open>auto simp: sign_advance_def holds_lock_def Let_def split: prod.splits\<close>)

lemma advance_waits: "receive_waits env c \<Longrightarrow> sign_advance env m c cl = None"
  by (auto simp: receive_waits_def sign_advance_def)

lemma waiting_stays:
  assumes "own_step env s s'" "i < length (sg_calls s)" "call_waits env s (sg_calls s ! i)"
  shows "sg_calls s' ! i = sg_calls s ! i"
  using assms(1)
proof cases
  case (lock j)
  with assms(3) have "j \<noteq> i" by (auto simp: call_waits_def receive_waits_def)
  with lock show ?thesis by simp
next
  case (advance j c' cl')
  have "j \<noteq> i"
  proof
    assume "j = i"
    with advance have "holds_lock (sg_calls s ! i)" "sign_advance env (sg_m s) (sg_calls s ! i) (sg_cluster s) \<noteq> None"
      using sign_advance_holds by auto
    with assms(3) advance_waits [of env "sg_calls s ! i"] show False by (auto simp: call_waits_def holds_lock_def)
  qed
  with advance show ?thesis by simp
qed simp_all

lemma call_moves:
  assumes "sign_inv env cl s" "i < length (sg_calls s)" "\<not> (\<exists>r. sc_pc (sg_calls s ! i) = SignDone r)"
    and "\<not> call_waits env s (sg_calls s ! i)"
  shows "\<exists>s'. own_step env s s' \<and> length (sg_calls s') = length (sg_calls s) \<and>
    (call_left (sg_calls s' ! i), call_left (sg_calls s ! i)) \<in> less_than <*lex*> less_than"
proof (cases "sc_pc (sg_calls s ! i) = AtRLock")
  case True
  with assms(4) have "sg_pending s = None" by (auto simp: call_waits_def)
  from own_step.lock [OF assms(2) True this, of env] assms(2) True show ?thesis
    by (intro exI [of _ "s\<lparr>sg_calls := (sg_calls s)[i := (sg_calls s ! i)\<lparr>sc_pc := AtIssuer, sc_locked := sg_m s\<rparr>]\<rparr>"])
      (simp add: call_left_def Let_def)
next
  case False
  have "call_inv env (sg_calls s ! i)" using assms(1,2) by (simp add: sign_inv_def)
  moreover have "holds_lock (sg_calls s ! i)" using False assms(3) by (auto simp: holds_lock_def split: sign_pc.splits)
  ultimately have "sign_advance env (sg_m s) (sg_calls s ! i) (sg_cluster s) \<noteq> None"
    using advance_stuck [of env "sg_calls s ! i" "sg_m s" "sg_cluster s"] assms(4) unfolding call_waits_def by blast
  then obtain c' cl' where a: "sign_advance env (sg_m s) (sg_calls s ! i) (sg_cluster s) = Some (c', cl')" by auto
  from own_step.advance [OF assms(2) a] sign_advance_left [OF a] assms(2) show ?thesis
    by (intro exI [of _ "s\<lparr>sg_calls := (sg_calls s)[i := c'], sg_cluster := cl'\<rparr>"]) simp
qed

lemma call_goes_on:
  assumes "sign_inv env cl s" "i < length (sg_calls s)"
  shows "\<exists>s'. (own_step env)\<^sup>*\<^sup>* s s' \<and>
    ((\<exists>r. sc_pc (sg_calls s' ! i) = SignDone r) \<or> call_waits env s' (sg_calls s' ! i))"
proof -
  let ?P = "\<lambda>t. sign_inv env cl t \<and> i < length (sg_calls t)"
  let ?Q = "\<lambda>t. (\<exists>r. sc_pc (sg_calls t ! i) = SignDone r) \<or> call_waits env t (sg_calls t ! i)"
  have "\<exists>s'. (own_step env)\<^sup>*\<^sup>* s s' \<and> ?P s' \<and> ?Q s'"
  proof (rule wf_reaches [of "inv_image (less_than <*lex*> less_than) (\<lambda>t. call_left (sg_calls t ! i))"])
    fix t
    assume t: "?P t" "\<not> ?Q t"
    then obtain t' where t': "own_step env t t'" "length (sg_calls t') = length (sg_calls t)"
      "(call_left (sg_calls t' ! i), call_left (sg_calls t ! i)) \<in> less_than <*lex*> less_than"
      using call_moves [of env cl t i] by blast
    with own_step_inv [OF t'(1)] t(1)
    show "\<exists>t'. own_step env t t' \<and> ?P t' \<and> (t', t) \<in> inv_image (less_than <*lex*> less_than) (\<lambda>t. call_left (sg_calls t ! i))"
      by (intro exI [of _ t']) simp
  qed (use assms in \<open>auto intro: wf_inv_image wf_lex_prod\<close>)
  then show ?thesis by blast
qed

section \<open>Properties\<close>

text \<open>
  C23: Calls of \<open>Sign\<close> do not disturb each other. However many run at once, and whatever the cluster, the
  watches, the contexts and the configuration do meanwhile: a call that has returned has returned
  what \<open>Sign\<close> alone returns for the manager it found when it took the lock and the answers the API gave
  it; while a call holds the lock, the manager is still that one; and the requests created in the
  cluster are one for each call that got so far, for the issuer of its manager.
\<close>

theorem interleaved_sign_sequential:
  assumes "(sign_step env)\<^sup>*\<^sup>* (sign_init m cl) s"
  shows "(\<forall>c \<in> set (sg_calls s). (holds_lock c \<longrightarrow> sc_locked c = sg_m s) \<and>
      (\<forall>r. sc_pc c = SignDone r \<longrightarrow> Sign_alone env c = Return r)) \<and>
    mset (created_requests (sg_cluster s)) = mset (created_requests cl) + mset (concat (map requested (sg_calls s)))"
  using sign_inv_reach [OF assms] by (auto simp: sign_inv_def call_inv_def)

text \<open>Two calls at once: the second takes the lock and creates its request while the first waits.\<close>

definition schedule :: "'w cm_env \<Rightarrow> nat \<Rightarrow> 'w sign_state \<Rightarrow> 'w sign_state" where
  "schedule env i s =
     (if i < length (sg_calls s) then
        if sc_pc (sg_calls s ! i) = AtRLock
        then if sg_pending s = None
             then s\<lparr>sg_calls := (sg_calls s)[i := (sg_calls s ! i)\<lparr>sc_pc := AtIssuer, sc_locked := sg_m s\<rparr>]\<rparr>
             else s
        else (case sign_advance env (sg_m s) (sg_calls s ! i) (sg_cluster s) of
                None \<Rightarrow> s | Some (c', cl') \<Rightarrow> s\<lparr>sg_calls := (sg_calls s)[i := c'], sg_cluster := cl'\<rparr>)
      else s)"

lemma schedule_run: "(own_step env)\<^sup>*\<^sup>* s (schedule env i s)"
  by (auto simp: schedule_def split: option.splits intro: own_step.lock own_step.advance)

lemma schedules_run: "(own_step env)\<^sup>*\<^sup>* s (fold (schedule env) is s)"
  by (induction "is" arbitrary: s) (auto intro: rtranclp_trans schedule_run)

definition two_calls :: "unit sign_state" where
  "two_calls = (sign_init demo_manager demo_cluster)\<lparr>sg_calls :=
     [new_call demo_manager ''id'' ''csr'' 5 [UsageClientAuth], new_call demo_manager ''id2'' ''csr2'' 6 [UsageServerAuth]]\<rparr>"

lemma sign_step_outside: "outside_step s s' \<Longrightarrow> sign_step env s s'"
  by (simp add: sign_step_def)

lemma two_calls_reached: "(sign_step env)\<^sup>*\<^sup>* (sign_init demo_manager demo_cluster) two_calls"
proof -
  let ?s = "(sign_init demo_manager demo_cluster)\<lparr>sg_calls := [new_call demo_manager ''id'' ''csr'' 5 [UsageClientAuth]]\<rparr>"
  have "outside_step (sign_init demo_manager demo_cluster) ?s"
    using outside_step.call [of "sign_init demo_manager demo_cluster" "''id''" "''csr''" 5 "[UsageClientAuth]"]
    by (simp add: sign_init_def)
  moreover have "outside_step ?s two_calls"
    using outside_step.call [of ?s "''id2''" "''csr2''" 6 "[UsageServerAuth]"]
    by (simp add: sign_init_def two_calls_def)
  ultimately show ?thesis by (meson sign_step_outside rtranclp.rtrancl_refl rtranclp.rtrancl_into_rtrancl)
qed

lemma sign_step_own: "(own_step env)\<^sup>*\<^sup>* s s' \<Longrightarrow> (sign_step env)\<^sup>*\<^sup>* s s'"
  by (erule rtranclp_mono [THEN predicate2D, rotated]) (auto simp: sign_step_def)

lemma two_calls_run:
  "sc_pc (sg_calls (fold (schedule demo_env) [0, 1, 0, 0, 1, 0, 1, 0, 0, 0, 0] two_calls) ! 0) =
     SignDone (Inr \<lparr>b_Certificate = ''cert'', b_CA = ''ca''\<rparr>) \<and>
   length (created_requests (sg_cluster (fold (schedule demo_env) [0, 1, 0, 0, 1, 0, 1, 0, 0, 0, 0] two_calls))) = 2"
  by code_simp

theorem interleaved_sign_sequential_witness:
  "\<exists>s c. (sign_step demo_env)\<^sup>*\<^sup>* (sign_init demo_manager demo_cluster) s \<and> c \<in> set (sg_calls s) \<and>
     Sign_alone demo_env c = Return (Inr \<lparr>b_Certificate = ''cert'', b_CA = ''ca''\<rparr>)"
proof -
  let ?s = "fold (schedule demo_env) [0, 1, 0, 0, 1, 0, 1, 0, 0, 0, 0] two_calls"
  have run: "(sign_step demo_env)\<^sup>*\<^sup>* (sign_init demo_manager demo_cluster) ?s"
    by (rule rtranclp_trans [OF two_calls_reached sign_step_own [OF schedules_run]])
  have "length (sg_calls ?s) = 2" by code_simp
  then have c: "sg_calls ?s ! 0 \<in> set (sg_calls ?s)" by (intro nth_mem) simp
  with interleaved_sign_sequential [OF run] two_calls_run have
    "Sign_alone demo_env (sg_calls ?s ! 0) = Return (Inr \<lparr>b_Certificate = ''cert'', b_CA = ''ca''\<rparr>)" by blast
  with run c show ?thesis by blast
qed

text \<open>
  C24: A deadline frees the configuration. When a configuration event waits for the lock and the
  contexts of the calls that hold it are done, steps of the program alone, without any further event
  or answer to wait for, bring every such call to its return and then apply the event.
\<close>

theorem deadline_frees_configuration:
  assumes "(sign_step env)\<^sup>*\<^sup>* (sign_init m cl) s" and "sg_pending s = Some ev"
    and "\<forall>c \<in> set (sg_calls s). holds_lock c \<longrightarrow> sc_ctxDone c"
  shows "\<exists>s'. (own_step env)\<^sup>*\<^sup>* s s' \<and> sg_m s' = handle_event (sg_m s) ev \<and> sg_pending s' = None"
proof -
  have "ending env s" using sign_inv_reach [OF assms(1)] assms(3) by (auto simp: sign_inv_def ending_def)
  then obtain s1 where s1: "(own_step env)\<^sup>*\<^sup>* s s1" "sg_m s1 = sg_m s" "sg_pending s1 = Some ev"
    "list_all (\<lambda>c. \<not> holds_lock c) (sg_calls s1)"
    using ending_all [of env s] assms(2) by auto
  let ?s = "s1\<lparr>sg_m := handle_event (sg_m s1) ev, sg_pending := None\<rparr>"
  have "own_step env s1 ?s" using s1 by (intro own_step.handled)
  with s1(1) have "(own_step env)\<^sup>*\<^sup>* s ?s" by (rule rtranclp.rtrancl_into_rtrancl)
  with s1(2) show ?thesis by (intro exI [of _ ?s]) simp
qed

theorem deadline_frees_configuration_witness:
  "\<exists>s s'. (sign_step demo_env)\<^sup>*\<^sup>* (sign_init demo_manager demo_cluster) s \<and> sg_pending s = Some rt_event \<and>
     (\<exists>c \<in> set (sg_calls s). holds_lock c) \<and> (own_step demo_env)\<^sup>*\<^sup>* s s' \<and> sg_m s' = handle_event (sg_m s) rt_event"
proof -
  let ?R = "(sign_step demo_env)\<^sup>*\<^sup>*" and ?s0 = "sign_init demo_manager demo_cluster"
  let ?s1 = "two_calls\<lparr>sg_calls := (sg_calls two_calls)[0 := (sg_calls two_calls ! 0)\<lparr>sc_pc := AtIssuer, sc_locked := demo_manager\<rparr>]\<rparr>"
  let ?s2 = "?s1\<lparr>sg_calls := (sg_calls ?s1)[0 := close_watch ((sg_calls ?s1 ! 0)\<lparr>sc_ctxDone := True\<rparr>)]\<rparr>"
  let ?s3 = "?s2\<lparr>sg_pending := Some rt_event\<rparr>"
  have s1: "schedule demo_env 0 two_calls = ?s1"
    by (simp add: schedule_def two_calls_def new_call_def sign_init_def)
  have "?R ?s0 ?s1"
    unfolding s1 [symmetric] by (rule rtranclp_trans [OF two_calls_reached sign_step_own [OF schedule_run]])
  moreover have "outside_step ?s1 ?s2"
    by (rule outside_step.ctx_done) (simp_all add: two_calls_def)
  moreover have "outside_step ?s2 ?s3"
    by (rule outside_step.arrives) (simp_all add: two_calls_def sign_init_def takes_lock_def rt_event_def)
  ultimately have r: "?R ?s0 ?s3" by (meson sign_step_outside rtranclp.rtrancl_into_rtrancl)
  have h: "\<forall>c \<in> set (sg_calls ?s3). holds_lock c \<longrightarrow> sc_ctxDone c" "\<exists>c \<in> set (sg_calls ?s3). holds_lock c"
    by (simp_all add: two_calls_def new_call_def close_watch_def holds_lock_def)
  have p: "sg_pending ?s3 = Some rt_event" by simp
  from deadline_frees_configuration [OF r p h(1)] r p h(2) show ?thesis by blast
qed

text \<open>
  C19: When a signing call waits, the lock included. In every state of concurrent calls, configuration
  events and ending contexts that can be reached, a call that has not returned cannot go on exactly
  when it is before the lock and a configuration event is ahead of it, or it has the lock, its watch
  is open (the end of its context closes it), and neither the request it got nor any event of the
  watch so far was denied, failed, signed or deleted. From every state, steps of the program alone
  bring the call to its return or to such a wait.
\<close>

theorem sign_waits_exactly:
  assumes "(sign_step env)\<^sup>*\<^sup>* (sign_init m cl) s" and "i < length (sg_calls s)"
    and "\<nexists>r. sc_pc (sg_calls s ! i) = SignDone r"
  shows "((\<nexists>s'. own_step env s s' \<and> sg_calls s' ! i \<noteq> sg_calls s ! i) \<longleftrightarrow> call_waits env s (sg_calls s ! i)) \<and>
    (\<exists>s'. (own_step env)\<^sup>*\<^sup>* s s' \<and>
       ((\<exists>r. sc_pc (sg_calls s' ! i) = SignDone r) \<or> call_waits env s' (sg_calls s' ! i)))"
proof -
  have inv: "sign_inv env cl s" by (rule sign_inv_reach [OF assms(1)])
  have "\<exists>s'. own_step env s s' \<and> sg_calls s' ! i \<noteq> sg_calls s ! i" if "\<not> call_waits env s (sg_calls s ! i)"
    using call_moves [OF inv assms(2,3) that] wf_not_refl [OF wf_lex_prod [OF wf_less_than wf_less_than]] by metis
  with waiting_stays [of env s _ i] assms(2) call_goes_on [OF inv assms(2)] show ?thesis by blast
qed


theorem sign_waits_exactly_witness:
  "\<exists>s. (sign_step demo_env)\<^sup>*\<^sup>* (sign_init demo_manager demo_cluster) s \<and> sg_calls s \<noteq> [] \<and>
     (\<nexists>s'. own_step demo_env s s' \<and> sg_calls s' ! 0 \<noteq> sg_calls s ! 0)"
proof -
  let ?s = "two_calls\<lparr>sg_pending := Some rt_event\<rparr>"
  have "outside_step two_calls ?s"
    by (rule outside_step.arrives) (simp_all add: two_calls_def sign_init_def takes_lock_def rt_event_def)
  then have run: "(sign_step demo_env)\<^sup>*\<^sup>* (sign_init demo_manager demo_cluster) ?s"
    by (rule rtranclp.rtrancl_into_rtrancl [OF two_calls_reached sign_step_outside])
  have c: "0 < length (sg_calls ?s)" "\<nexists>r. sc_pc (sg_calls ?s ! 0) = SignDone r" "call_waits demo_env ?s (sg_calls ?s ! 0)"
    by (simp_all add: two_calls_def new_call_def call_waits_def)
  from sign_waits_exactly [OF run c(1,2)] c run show ?thesis by (intro exI [of _ ?s]) auto
qed

end
