(* ===== verification/Fakes.thy ===== *)
theory Fakes
  imports Server
begin

text \<open>
  The test doubles of \<open>pkg/tls/fake\<close> and \<open>pkg/certmanager/fake\<close>, and which of them keep the contracts
  \<open>tls_provider\<close> and \<open>signer\<close> that the components under test rely on.
\<close>

section \<open>Model\<close>

text \<open>
  \<open>FakeTLS\<close> holds the functions it answers with; a context is of type \<open>'x\<close>. Channels are numbered;
  \<open>funcSubscribeRootCAsEvent\<close> makes a new one, given the number of those made so far.
\<close>

record ('x, 'c, 'cfg) FakeTLS =
  funcTrustDomain :: string
  funcRootCAs :: "'x \<Rightarrow> 'c RootCAs option"
  funcConfig :: "'x \<Rightarrow> 'cfg option \<times> error option"
  funcSubscribeRootCAsEvent :: "nat \<Rightarrow> nat \<times> nat"

definition FakeTLS_New :: "('x, 'c, 'cfg) FakeTLS" where
  "FakeTLS_New = \<lparr>funcTrustDomain = [], funcRootCAs = (\<lambda>_. Some \<lparr>rc_PEM = [], rc_CertPool = None\<rparr>),
     funcConfig = (\<lambda>_. (None, None)), funcSubscribeRootCAsEvent = (\<lambda>chans. (chans, Suc chans))\<rparr>"

definition FakeTLS_WithRootCAs ::
  "string \<Rightarrow> 'c list option \<Rightarrow> ('x, 'c, 'cfg) FakeTLS \<Rightarrow> ('x, 'c, 'cfg) FakeTLS" where
  "FakeTLS_WithRootCAs rootCAsPEM rootCAsPool f =
     f\<lparr>funcRootCAs := (\<lambda>_. Some \<lparr>rc_PEM = rootCAsPEM, rc_CertPool = rootCAsPool\<rparr>)\<rparr>"

definition FakeTLS_TrustDomain :: "('x, 'c, 'cfg) FakeTLS \<Rightarrow> string" where
  "FakeTLS_TrustDomain f = funcTrustDomain f"

definition FakeTLS_RootCAs :: "('x, 'c, 'cfg) FakeTLS \<Rightarrow> 'x \<Rightarrow> 'c RootCAs option go" where
  "FakeTLS_RootCAs f ctx = Return (funcRootCAs f ctx)"

definition FakeTLS_Config :: "('x, 'c, 'cfg) FakeTLS \<Rightarrow> 'x \<Rightarrow> 'cfg option \<times> error option" where
  "FakeTLS_Config f ctx = funcConfig f ctx"

definition FakeTLS_SubscribeRootCAsEvent :: "('x, 'c, 'cfg) FakeTLS \<Rightarrow> nat \<Rightarrow> nat \<times> nat" where
  "FakeTLS_SubscribeRootCAsEvent f chans = funcSubscribeRootCAsEvent f chans"

text \<open>The fake signer; \<open>'s\<close> is the state the function it is given works on.\<close>

record 's Fake =
  fake_sign :: "'s \<Rightarrow> string \<Rightarrow> string \<Rightarrow> duration \<Rightarrow> KeyUsage list \<Rightarrow> (error + Bundle) go \<times> 's"

definition Fake_New :: "'s Fake" where
  "Fake_New = \<lparr>fake_sign = (\<lambda>s _ _ _ _. (Return (Inr \<lparr>b_Certificate = [], b_CA = []\<rparr>), s))\<rparr>"

definition Fake_WithSign ::
  "('s \<Rightarrow> string \<Rightarrow> string \<Rightarrow> duration \<Rightarrow> KeyUsage list \<Rightarrow> (error + Bundle) go \<times> 's) \<Rightarrow> 's Fake \<Rightarrow> 's Fake" where
  "Fake_WithSign fn f = f\<lparr>fake_sign := fn\<rparr>"

definition Fake_Sign ::
  "'s Fake \<Rightarrow> 's \<Rightarrow> string \<Rightarrow> string \<Rightarrow> duration \<Rightarrow> KeyUsage list \<Rightarrow> (error + Bundle) go \<times> 's" where
  "Fake_Sign f s identities csrPEM duration usages = fake_sign f s identities csrPEM duration usages"

section \<open>Which fakes keep the contracts\<close>

text \<open>
  A fake TLS provider keeps the contract of the provider exactly when it was given a non-empty PEM
  text and a pool; the default one breaks it: a server tested with it verifies chains against a nil
  pool, which stands for the roots of the operating system.
\<close>

lemma fake_tls_contract:
  "tls_provider (FakeTLS_RootCAs (FakeTLS_WithRootCAs pem pool f)) cancelled \<longleftrightarrow> pem \<noteq> [] \<and> pool \<noteq> None"
  "\<not> tls_provider (FakeTLS_RootCAs (FakeTLS_New :: ('x, 'c, 'cfg) FakeTLS)) cancelled"
  by (auto simp: tls_provider_def FakeTLS_RootCAs_def FakeTLS_WithRootCAs_def FakeTLS_New_def populated_def)

text \<open>
  The default fake signer keeps no contract of a signer, whatever is taken for the requests it
  created: it returns a bundle without a certificate. A fake that was given the signing function of
  the manager keeps it.
\<close>

lemma fake_signer_contract:
  "\<not> signer (Fake_Sign Fake_New) created"
  "signer (Fake_Sign (Fake_WithSign (Sign env m) f)) created_requests"
proof -
  show "\<not> signer (Fake_Sign Fake_New) created"
    by (auto simp: signer_def Fake_Sign_def Fake_New_def)
  have "Fake_Sign (Fake_WithSign (Sign env m) f) = Sign env m"
    by (intro ext) (simp add: Fake_Sign_def Fake_WithSign_def)
  then show "signer (Fake_Sign (Fake_WithSign (Sign env m) f)) created_requests"
    by (simp add: mgr.signer_axioms)
qed

end
