(* ===== verification/Issuer_Delivery.thy ===== *)
theory Issuer_Delivery
  imports Istiod_Queue "HOL-Library.Multiset"
begin

text \<open>
  The manager's delivery goroutines (\<open>notifyIssuerChange\<close> in \<open>pkg/certmanager/certmanager.go\<close>) and the
  loop of the istiod provisioner that receives from its subscription (\<open>Start\<close> in
  \<open>pkg/istiodcert/worker.go\<close>) in one step relation. The watcher of the run-time configuration runs in
  every replica, the loop only in the leader, so notifications may wait until this replica leads.
\<close>

section \<open>Model\<close>

text \<open>
  \<open>pn_running\<close> holds once \<open>Start\<close> has handled the issuer of start-up. \<open>pn_announced\<close> and
  \<open>pn_received\<close> are history variables: what \<open>notifyIssuerChange\<close> was called with for this subscription
  and what the loop has received, each in order. No step reads them.
\<close>

record provisioning =
  pn_n :: notify_state
  pn_d :: DynamicIstiodCertProvisioner
  pn_running :: bool
  pn_announced :: "IssuerReference option list"
  pn_received :: "IssuerReference option list"

definition provisioning_init :: "manager \<Rightarrow> DynamicIstiodCertProvisioner \<Rightarrow> provisioning" where
  "provisioning_init m d = \<lparr>pn_n = notify_init m, pn_d = d, pn_running = False, pn_announced = [], pn_received = []\<rparr>"

text \<open>The goroutines of a subscription: blocked on its channel, and not yet run.\<close>

definition blocked :: "nat \<Rightarrow> notify_state \<Rightarrow> IssuerReference option list" where
  "blocked sub n = map snd (filter (\<lambda>(i, v). i = sub) (ns_senders n))"

definition unsent :: "nat \<Rightarrow> notify_state \<Rightarrow> IssuerReference option list" where
  "unsent sub n = map snd (filter (\<lambda>(i, v). i = sub) (mgr_sends (ns_m n)))"

definition in_flight :: "provisioning \<Rightarrow> IssuerReference option list" where
  "in_flight s = blocked (dicp_subscription (pn_d s)) (pn_n s) @ unsent (dicp_subscription (pn_d s)) (pn_n s)"

text \<open>
  \<open>event\<close> and \<open>send\<close> are those of \<open>notify_step\<close>; \<open>others\<close> are its steps that concern neither the
  active issuer nor this subscription: other subscribers, and waiters for an issuer.
\<close>

inductive provisioning_step :: "provisioning \<Rightarrow> provisioning \<Rightarrow> bool" where
  start: "\<not> pn_running s \<Longrightarrow>
    provisioning_step s (s\<lparr>pn_running := True, pn_d := Istiod_Start (pn_d s) []\<rparr>)"
| receive: "pn_running s \<Longrightarrow> ns_senders (pn_n s) = xs @ (dicp_subscription (pn_d s), v) # ys \<Longrightarrow>
    provisioning_step s (s\<lparr>pn_n := (pn_n s)\<lparr>ns_senders := xs @ ys\<rparr>,
      pn_d := handleNewIssuer (pn_d s) v, pn_received := pn_received s @ [v]\<rparr>)"
| event: "length early = length (started (ns_m (pn_n s)) ev) \<Longrightarrow>
    provisioning_step s (s\<lparr>pn_n := event_effect early ev (pn_n s),
      pn_announced := pn_announced s @ messages (dicp_subscription (pn_d s)) (ns_m (pn_n s)) ev\<rparr>)"
| send: "mgr_sends (ns_m (pn_n s)) = xs @ (i, v) # ys \<Longrightarrow>
    i < length (mgr_issuerChangeSubscriptions (ns_m (pn_n s))) \<Longrightarrow>
    provisioning_step s (s\<lparr>pn_n := (pn_n s)\<lparr>ns_m := (ns_m (pn_n s))\<lparr>mgr_sends := xs @ ys\<rparr>,
      ns_senders := ns_senders (pn_n s) @ [(mgr_issuerChangeSubscriptions (ns_m (pn_n s)) ! i, v)]\<rparr>\<rparr>)"
| others: "notify_step (pn_n s) n' \<Longrightarrow> mgr_activeIssuerRef (ns_m n') = mgr_activeIssuerRef (ns_m (pn_n s)) \<Longrightarrow>
    mgr_sends (ns_m n') = mgr_sends (ns_m (pn_n s)) \<Longrightarrow>
    blocked (dicp_subscription (pn_d s)) n' = blocked (dicp_subscription (pn_d s)) (pn_n s) \<Longrightarrow>
    provisioning_step s (s\<lparr>pn_n := n'\<rparr>)"


text \<open>The issuer after a list of notifications, given the one of start-up.\<close>

definition issuer_after :: "IssuerReference option \<Rightarrow> IssuerReference option list \<Rightarrow> IssuerReference option" where
  "issuer_after original vs =
     (if vs = [] then original else case last vs of None \<Rightarrow> original | Some r \<Rightarrow> Some r)"

section \<open>Every notification is delivered once\<close>

lemma issuer_after_simps [simp]:
  "issuer_after original [] = original"
  "issuer_after original (vs @ [v]) = (case v of None \<Rightarrow> original | Some r \<Rightarrow> Some r)"
  by (simp_all add: issuer_after_def)

lemma selected_Cons [simp]:
  "selected [] xs = []" "selected bs [] = []"
  "selected (b # bs) (x # xs) = (if b then x # selected bs xs else selected bs xs)"
  by (simp_all add: selected_def)

lemma mset_selected:
  "length early = length xs \<Longrightarrow>
   mset (filter P (selected early xs)) + mset (filter P (selected (map Not early) xs)) = mset (filter P xs)"
  by (induction early xs rule: list_induct2) auto

lemma filter_indexed:
  assumes "\<forall>(i, v) \<in> set xs. subs ! i = i"
  shows "filter (\<lambda>(i, v). i = sub) (map (\<lambda>(i, v). (subs ! i, v)) xs) = filter (\<lambda>(i, v). i = sub) xs"
  using assms by (induction xs) auto

lemma event_in_flight:
  assumes "mgr_closedSubs (ns_m n) = []" "notify_inv n" "length early = length (started (ns_m n) ev)"
  shows "mset (blocked sub (event_effect early ev n)) + mset (unsent sub (event_effect early ev n)) =
    mset (blocked sub n) + mset (unsent sub n) + mset (messages sub (ns_m n) ev)"
proof -
  let ?P = "\<lambda>(i, v). i = sub" let ?xs = "started (ns_m n) ev"
  have "\<forall>i < length (mgr_issuerChangeSubscriptions (ns_m n)). mgr_issuerChangeSubscriptions (ns_m n) ! i = i"
    using assms(1,2) by (simp add: notify_inv_def)
  then have "\<forall>(i, v) \<in> set (selected early ?xs). mgr_issuerChangeSubscriptions (ns_m n) ! i = i"
    using bspec [OF handle_event_none_closed(2) [OF assms(1), of ev] subsetD [OF set_selected [of early ?xs]]] by auto
  then have "blocked sub (event_effect early ev n) = blocked sub n @ map snd (filter ?P (selected early ?xs))"
    by (simp add: blocked_def event_effect_def filter_indexed)
  moreover have "unsent sub (event_effect early ev n) = unsent sub n @ map snd (filter ?P (selected (map Not early) ?xs))"
    by (simp add: unsent_def event_effect_def)
  moreover have "mset (messages sub (ns_m n) ev) =
      image_mset snd (mset (filter ?P (selected early ?xs)) + mset (filter ?P (selected (map Not early) ?xs)))"
    by (simp only: mset_selected [OF assms(3)]) (simp add: messages_def)
  ultimately show ?thesis by simp
qed

lemma Istiod_Start_frame [simp]:
  "dicp_initialIssuerRef (Istiod_Start d []) = dicp_initialIssuerRef d"
  "dicp_subscription (Istiod_Start d []) = dicp_subscription d"
  "dicp_opts (Istiod_Start d []) = dicp_opts d"
  by (simp_all add: Istiod_Start_def)

lemma Istiod_Start_ref:
  "dicp_issuerRef d = dicp_initialIssuerRef d \<Longrightarrow> dicp_issuerRef (Istiod_Start d []) = dicp_initialIssuerRef d"
  by (auto simp: Istiod_Start_def handleNewIssuer_ref split: option.splits)

lemma notify_step_original:
  "notify_step n n' \<Longrightarrow> mgr_originalIssuerRef (ns_m n') = mgr_originalIssuerRef (ns_m n)"
  by (cases rule: notify_step.cases)
    (auto simp: SubscribeIssuerChange_def Close_def event_effect_def handle_event_original split: if_splits)

lemma notify_step_closed:
  "notify_step n n' \<Longrightarrow> mgr_closedSubs (ns_m n') = [] \<Longrightarrow> mgr_closedSubs (ns_m n) = []"
  by (cases rule: notify_step.cases) (auto simp: SubscribeIssuerChange_def Close_def event_effect_def split: if_splits)

lemma notify_step_nextSub:
  "notify_step n n' \<Longrightarrow> mgr_nextSub (ns_m n) \<le> mgr_nextSub (ns_m n')"
  by (cases rule: notify_step.cases) (auto simp: SubscribeIssuerChange_def Close_def event_effect_def split: if_splits)


definition pn_inv :: "IssuerReference option \<Rightarrow> provisioning \<Rightarrow> bool" where
  "pn_inv original s \<longleftrightarrow>
     notify_inv (pn_n s) \<and>
     mgr_originalIssuerRef (ns_m (pn_n s)) = original \<and> dicp_initialIssuerRef (pn_d s) = original \<and>
     dicp_subscription (pn_d s) < mgr_nextSub (ns_m (pn_n s)) \<and>
     (\<not> pn_running s \<longrightarrow> pn_received s = []) \<and>
     dicp_issuerRef (pn_d s) = issuer_after original (pn_received s) \<and>
     (mgr_closedSubs (ns_m (pn_n s)) = [] \<longrightarrow>
        mset (pn_announced s) = mset (pn_received s) + mset (in_flight s) \<and>
        (original \<noteq> None \<longrightarrow> mgr_activeIssuerRef (ns_m (pn_n s)) = issuer_after original (pn_announced s)))"

lemma pn_inv_init:
  assumes "New k8sErr cmErr mopts = Inr m" "Istiod_New clientErr opts m td = (Inr d, m1)"
  shows "pn_inv (mgr_originalIssuerRef m) (provisioning_init m1 d)"
proof -
  have m: "mgr_closedSubs m = []" "mgr_issuerChangeSubscriptions m = []" "mgr_nextSub m = 0" "mgr_sends m = []"
    using assms(1) by (auto simp: New_def Let_def split: option.splits sum.splits if_splits)
  show ?thesis
    using assms(2) m New_Inr(3) [OF assms(1)]
    by (auto simp: pn_inv_def provisioning_init_def notify_init_def notify_inv_def Istiod_New_def
        SubscribeIssuerChange_def InitialIssuer_def in_flight_def blocked_def unsent_def split: option.splits)
qed

lemma pn_inv_start:
  "pn_inv original s \<Longrightarrow> \<not> pn_running s \<Longrightarrow>
   pn_inv original (s\<lparr>pn_running := True, pn_d := Istiod_Start (pn_d s) []\<rparr>)"
  using Istiod_Start_ref [of "pn_d s"] by (auto simp: pn_inv_def in_flight_def)

lemma pn_inv_receive:
  assumes "pn_inv original s" "pn_running s" "ns_senders (pn_n s) = xs @ (dicp_subscription (pn_d s), v) # ys"
  shows "pn_inv original (s\<lparr>pn_n := (pn_n s)\<lparr>ns_senders := xs @ ys\<rparr>,
      pn_d := handleNewIssuer (pn_d s) v, pn_received := pn_received s @ [v]\<rparr>)"
  using assms
  by (auto simp: pn_inv_def in_flight_def blocked_def unsent_def notify_inv_def handleNewIssuer_ref split: option.splits)

lemma pn_inv_event:
  assumes inv: "pn_inv original s" and len: "length early = length (started (ns_m (pn_n s)) ev)"
  shows "pn_inv original (s\<lparr>pn_n := event_effect early ev (pn_n s),
      pn_announced := pn_announced s @ messages (dicp_subscription (pn_d s)) (ns_m (pn_n s)) ev\<rparr>)"
proof -
  let ?n = "pn_n s" let ?sub = "dicp_subscription (pn_d s)"
  have n: "notify_inv ?n" "notify_inv (event_effect early ev ?n)"
    using inv notify_step_inv [OF notify_step.event [OF len]] by (auto simp: pn_inv_def)
  have frame: "mgr_closedSubs (ns_m (event_effect early ev ?n)) = mgr_closedSubs (ns_m ?n)"
    "mgr_nextSub (ns_m (event_effect early ev ?n)) = mgr_nextSub (ns_m ?n)"
    "mgr_originalIssuerRef (ns_m (event_effect early ev ?n)) = mgr_originalIssuerRef (ns_m ?n)"
    "mgr_activeIssuerRef (ns_m (event_effect early ev ?n)) = mgr_activeIssuerRef (handle_event (ns_m ?n) ev)"
    by (simp_all add: event_effect_def)
  have act: "mgr_activeIssuerRef (handle_event (ns_m ?n) ev) =
      issuer_after original (pn_announced s @ messages ?sub (ns_m ?n) ev)"
    if "mgr_closedSubs (ns_m ?n) = []" "original \<noteq> None"
  proof -
    have "?sub < length (mgr_issuerChangeSubscriptions (ns_m ?n))" "mgr_originalIssuerRef (ns_m ?n) = original"
      using inv that(1) by (auto simp: pn_inv_def notify_inv_def)
    with that inv show ?thesis
      by (auto simp: handle_event_active messages_eq pn_inv_def split: option.splits)
  qed
  show ?thesis
    using inv n act event_in_flight [OF _ n(1) len, of ?sub]
    by (auto simp: pn_inv_def frame in_flight_def)
qed

lemma pn_inv_send:
  assumes inv: "pn_inv original s" and sends: "mgr_sends (ns_m (pn_n s)) = xs @ (i, v) # ys"
    and i: "i < length (mgr_issuerChangeSubscriptions (ns_m (pn_n s)))"
  shows "pn_inv original (s\<lparr>pn_n := (pn_n s)\<lparr>ns_m := (ns_m (pn_n s))\<lparr>mgr_sends := xs @ ys\<rparr>,
      ns_senders := ns_senders (pn_n s) @ [(mgr_issuerChangeSubscriptions (ns_m (pn_n s)) ! i, v)]\<rparr>\<rparr>)"
proof -
  have "notify_inv ((pn_n s)\<lparr>ns_m := (ns_m (pn_n s))\<lparr>mgr_sends := xs @ ys\<rparr>,
      ns_senders := ns_senders (pn_n s) @ [(mgr_issuerChangeSubscriptions (ns_m (pn_n s)) ! i, v)]\<rparr>)"
    using inv notify_step_inv [OF notify_step.send [OF sends i]] by (simp add: pn_inv_def)
  moreover have "mgr_issuerChangeSubscriptions (ns_m (pn_n s)) ! i = i" if "mgr_closedSubs (ns_m (pn_n s)) = []"
    using inv i that by (auto simp: pn_inv_def notify_inv_def)
  ultimately show ?thesis
    using inv sends by (auto simp: pn_inv_def in_flight_def blocked_def unsent_def)
qed

lemma pn_inv_others:
  assumes "pn_inv original s" "notify_step (pn_n s) n'"
    "mgr_activeIssuerRef (ns_m n') = mgr_activeIssuerRef (ns_m (pn_n s))"
    "mgr_sends (ns_m n') = mgr_sends (ns_m (pn_n s))"
    "blocked (dicp_subscription (pn_d s)) n' = blocked (dicp_subscription (pn_d s)) (pn_n s)"
  shows "pn_inv original (s\<lparr>pn_n := n'\<rparr>)"
  using assms notify_step_inv [OF assms(2)] notify_step_original [OF assms(2)] notify_step_closed [OF assms(2)]
    notify_step_nextSub [OF assms(2)]
  by (auto simp: pn_inv_def in_flight_def unsent_def)

lemma pn_inv_step:
  assumes "provisioning_step s s'" "pn_inv original s"
  shows "pn_inv original s'"
  using assms(1)
proof cases
  case start
  with pn_inv_start [OF assms(2)] show ?thesis by simp
next
  case (receive xs v ys)
  with pn_inv_receive [OF assms(2)] show ?thesis by simp
next
  case (event early ev)
  with pn_inv_event [OF assms(2)] show ?thesis by simp
next
  case (send xs i v ys)
  with pn_inv_send [OF assms(2)] show ?thesis by simp
next
  case (others n')
  with pn_inv_others [OF assms(2)] show ?thesis by simp
qed

lemma pn_inv_reach: "provisioning_step\<^sup>*\<^sup>* s s' \<Longrightarrow> pn_inv original s \<Longrightarrow> pn_inv original s'"
  by (induction rule: rtranclp_induct) (auto intro: pn_inv_step)


section \<open>Changes made one at a time\<close>

text \<open>The steps in which the configuration changes only when nothing is in flight.\<close>

definition orderly_step :: "provisioning \<Rightarrow> provisioning \<Rightarrow> bool" where
  "orderly_step s s' \<longleftrightarrow> provisioning_step s s' \<and> (pn_announced s' = pn_announced s \<or> in_flight s = [])"

lemma messages_length:
  assumes "mgr_closedSubs m = []"
  shows "length (messages sub m ev) \<le> 1"
proof -
  have "length (filter (\<lambda>(i, v). i = sub) (map (\<lambda>i. (i, r)) [0..<n])) \<le> 1"
    for r :: "IssuerReference option" and n
    by (cases "sub < n") (auto simp: filter_index filter_map comp_def simp del: filter_map)
  note one = this
  show ?thesis
    by (rule handle_event_shape [of m ev])
      (use assms one in \<open>simp_all add: messages_def started_def notify_none_closed del: filter_map\<close>)
qed

lemma provisioning_history:
  assumes "provisioning_step s s'" "mgr_closedSubs (ns_m (pn_n s')) = []"
  obtains zs ms where "pn_received s' = pn_received s @ zs" "pn_announced s' = pn_announced s @ ms"
    "length ms \<le> 1" "ms = [] \<or> zs = []" "mgr_closedSubs (ns_m (pn_n s)) = []"
  using assms(1)
proof cases
  case (receive xs v ys)
  with that [of "[v]" "[]"] assms(2) show thesis by simp
next
  case (event early ev)
  then have "mgr_closedSubs (ns_m (pn_n s)) = []" using assms(2) by (simp add: event_effect_def)
  with event that [of "[]"] messages_length show thesis by simp
next
  case (others n')
  with that [of "[]" "[]"] assms(2) notify_step_closed show thesis by simp
qed (use that [of "[]" "[]"] assms(2) in simp_all)

lemma mset_short: "mset xs = mset ys \<Longrightarrow> length xs \<le> 1 \<Longrightarrow> xs = ys"
  by (cases xs) (auto simp: le_Suc_eq)

lemma orderly_inv:
  assumes "orderly_step\<^sup>*\<^sup>* s0 s" "pn_inv original s0" "pn_announced s0 = []"
    "mgr_closedSubs (ns_m (pn_n s)) = []"
  shows "pn_inv original s \<and> pn_announced s = pn_received s @ in_flight s \<and> length (in_flight s) \<le> 1"
  using assms(1,4)
proof (induction rule: rtranclp_induct)
  case base
  then show ?case using assms(2,3) by (simp add: pn_inv_def)
next
  case (step s s')
  have p: "provisioning_step s s'" and ord: "pn_announced s' = pn_announced s \<or> in_flight s = []"
    using step.hyps(2) by (simp_all add: orderly_step_def)
  obtain zs ms where h: "pn_received s' = pn_received s @ zs" "pn_announced s' = pn_announced s @ ms"
    "length ms \<le> 1" "ms = [] \<or> zs = []" "mgr_closedSubs (ns_m (pn_n s)) = []"
    by (rule provisioning_history [OF p step.prems])
  have IH: "pn_inv original s" "pn_announced s = pn_received s @ in_flight s" "length (in_flight s) \<le> 1"
    using step.IH h(5) by auto
  have inv: "pn_inv original s'" by (rule pn_inv_step [OF p IH(1)])
  then have eq: "mset (in_flight s @ ms) = mset (zs @ in_flight s')"
    using step.prems h(1,2) IH(2) by (auto simp: pn_inv_def)
  moreover have short: "length (in_flight s @ ms) \<le> 1" using ord h(2,3) IH(3) by auto
  ultimately have "in_flight s @ ms = zs @ in_flight s'" by (rule mset_short)
  with short inv h(1,2) IH(2) show ?case by (metis append_assoc length_append add_leD2)
qed

section \<open>Properties\<close>

text \<open>
  Every notification of an issuer reaches the provisioner's loop exactly once, whatever the
  interleaving of the delivery goroutines, of other subscribers and of the start of the loop: what
  was announced is what was received and what is in flight. The provisioner holds the issuer of the
  last notification received (the one of start-up before the first and after a withdrawal); with an
  issuer at start-up the manager's active issuer is that of the last one announced.
\<close>

lemma notified_exactly_once:
  assumes "New k8sErr cmErr mopts = Inr m" and "Istiod_New clientErr opts m td = (Inr d, m1)"
    and "provisioning_step\<^sup>*\<^sup>* (provisioning_init m1 d) s" and "mgr_closedSubs (ns_m (pn_n s)) = []"
  shows "mset (pn_announced s) = mset (pn_received s) + mset (in_flight s) \<and>
    dicp_issuerRef (pn_d s) = issuer_after (mgr_originalIssuerRef m) (pn_received s) \<and>
    (mgr_originalIssuerRef m \<noteq> None \<longrightarrow>
       mgr_activeIssuerRef (ns_m (pn_n s)) = issuer_after (mgr_originalIssuerRef m) (pn_announced s))"
  using pn_inv_reach [OF assms(3) pn_inv_init [OF assms(1,2)]] assms(4) by (simp add: pn_inv_def)


text \<open>The states of the runs below: a manager with an issuer at start-up and one subscriber.\<close>

definition stage ::
  "IssuerReference \<Rightarrow> (nat \<times> IssuerReference option) list \<Rightarrow> (nat \<times> IssuerReference option) list \<Rightarrow>
   DynamicIstiodCertProvisioner \<Rightarrow> IssuerReference option list \<Rightarrow> IssuerReference option list \<Rightarrow> provisioning" where
  "stage active sends senders d ann rec =
     \<lparr>pn_n = \<lparr>ns_m = demo_manager1\<lparr>mgr_activeIssuerRef := Some active, mgr_sends := sends\<rparr>,
        ns_senders = senders, ns_crashed = False, ns_wait = AtFastPath\<rparr>,
      pn_d = d, pn_running = True, pn_announced = ann, pn_received = rec\<rparr>"

lemma demo_manager1_eq: "demo_manager1 = demo_manager\<lparr>mgr_issuerChangeSubscriptions := [0], mgr_nextSub := 1\<rparr>"
  by (simp add: demo_manager1_def SubscribeIssuerChange_def demo_manager_def)

lemma stage_start:
  "provisioning_step (provisioning_init demo_manager1 demo_dicp) (stage demo_ref [] [] (Istiod_Start demo_dicp []) [] [])"
  using provisioning_step.start [of "provisioning_init demo_manager1 demo_dicp"]
  by (simp add: provisioning_init_def notify_init_def stage_def demo_manager1_eq demo_manager_def)

lemma stage_event:
  assumes "config_of ev = Some (Some r)" "dicp_subscription d = 0"
  shows "provisioning_step (stage active sends senders d ann rec)
    (stage r (sends @ [(0, Some r)]) senders d (ann @ [Some r]) rec)"
proof -
  let ?s = "stage active sends senders d ann rec" let ?m = "ns_m (pn_n ?s)"
  have m: "mgr_closedSubs ?m = []" "mgr_issuerChangeSubscriptions ?m = [0]" "mgr_originalIssuerRef ?m \<noteq> None"
    by (simp_all add: stage_def demo_manager1_eq demo_manager_def)
  have "messages 0 ?m ev = [Some r]" using assms(1) messages_eq [OF m(1) _ m(3), of 0 ev] m(2) by simp
  moreover have "handle_event ?m ev = ?m\<lparr>mgr_activeIssuerRef := Some r, mgr_sends := sends @ [(0, Some r)]\<rparr>"
    using m by (simp add: handle_event_config [OF assms(1)] notify_none_closed) (simp add: stage_def)
  ultimately show ?thesis
    using provisioning_step.event [of "replicate (length (started ?m ev)) False" ?s ev] assms(2)
    by (simp add: event_effect_late) (simp add: stage_def)
qed

lemma stage_send:
  "provisioning_step (stage active (xs @ (0, v) # ys) [] d ann rec) (stage active (xs @ ys) [(0, v)] d ann rec)"
  using provisioning_step.send [of "stage active (xs @ (0, v) # ys) [] d ann rec" xs 0 v ys]
  by (simp add: stage_def demo_manager1_eq)

lemma stage_receive:
  "dicp_subscription d = 0 \<Longrightarrow>
   provisioning_step (stage active sends [(0, v)] d ann rec) (stage active sends [] (handleNewIssuer d v) ann (rec @ [v]))"
  using provisioning_step.receive [of "stage active sends [(0, v)] d ann rec" "[]" v "[]"] by (simp add: stage_def)

lemma stage_deliver:
  "dicp_subscription d = 0 \<Longrightarrow> provisioning_step\<^sup>*\<^sup>* (stage active (xs @ (0, v) # ys) [] d ann rec)
     (stage active (xs @ ys) [] (handleNewIssuer d v) ann (rec @ [v]))"
  by (rule converse_rtranclp_into_rtranclp, rule stage_send, rule r_into_rtranclp, rule stage_receive)

lemma stage_announced [simp]: "pn_announced (stage active sends senders d ann rec) = ann"
  by (simp add: stage_def)

lemma stage_quiet: "in_flight (stage active [] [] d ann rec) = []"
  by (simp add: stage_def in_flight_def blocked_def unsent_def)

lemma demo_sub: "dicp_subscription (Istiod_Start demo_dicp []) = 0"
  by (simp add: demo_dicp_def)

lemma other_config: "config_of other_event = Some (Some vault_ref)"
  by (simp add: other_event_def config_of_def full_config_def issuerNameKey_def
      issuerKindKey_def issuerGroupKey_def vault_ref_def)

text \<open>
  When the configuration is changed only once the previous change has been received, the
  provisioner holds the manager's active issuer whenever nothing is in flight, through changes and
  withdrawals, with other subscribers and waiters running, and also when this replica only becomes
  the leader after some changes.
\<close>

lemma orderly_changes_followed:
  assumes "New k8sErr cmErr mopts = Inr m" and "mgr_originalIssuerRef m \<noteq> None"
    and "Istiod_New clientErr opts m td = (Inr d, m1)"
    and "orderly_step\<^sup>*\<^sup>* (provisioning_init m1 d) s" and "mgr_closedSubs (ns_m (pn_n s)) = []" and "in_flight s = []"
  shows "dicp_issuerRef (pn_d s) = mgr_activeIssuerRef (ns_m (pn_n s))"
proof -
  have "pn_announced (provisioning_init m1 d) = []" by (simp add: provisioning_init_def)
  from orderly_inv [OF assms(4) pn_inv_init [OF assms(1,3)] this assms(5)] assms(2,5,6)
  show ?thesis by (simp add: pn_inv_def)
qed

text \<open>
  C27: Two changes in quick succession may be received in the wrong order, since each notification
  is sent by a goroutine of its own: after the issuer was configured to be one and then another,
  nothing is in flight, the manager signs with the second, but the provisioner holds the first and
  its reconciliation writes the first into the Certificate.
\<close>

theorem stale_issuer_kept:
  "\<exists>s k c. provisioning_step\<^sup>*\<^sup>* (provisioning_init demo_manager1 demo_dicp) s \<and> in_flight s = [] \<and>
     pn_announced s = [Some vault_ref, Some demo_ref] \<and>
     mgr_activeIssuerRef (ns_m (pn_n s)) = Some demo_ref \<and> dicp_issuerRef (pn_d s) = Some vault_ref \<and>
     Istiod_Reconcile (list_client cert_key) (pn_d s) demo_certs ''istio-system'' ''istiod-dynamic'' = (None, k) \<and>
     kube_Get (list_client cert_key) k ''istio-system'' ''istiod-dynamic'' = Inr c \<and>
     cs_IssuerRef (cert_Spec c) = vault_ref \<and> vault_ref \<noteq> demo_ref"
proof -
  let ?d = "Istiod_Start demo_dicp []" let ?v = "Some vault_ref" let ?w = "Some demo_ref"
  let ?d2 = "handleNewIssuer (handleNewIssuer ?d ?w) ?v"
  let ?s = "stage demo_ref [] [] ?d2 [?v, ?w] [?w, ?v]"
  have "provisioning_step\<^sup>*\<^sup>* (provisioning_init demo_manager1 demo_dicp) (stage vault_ref [(0, ?v)] [] ?d [?v] [])"
    using stage_start stage_event [OF other_config demo_sub, of demo_ref "[]" "[]" "[]" "[]"] by simp
  also have "provisioning_step\<^sup>*\<^sup>* \<dots> (stage demo_ref [(0, ?v), (0, ?w)] [] ?d [?v, ?w] [])"
    using stage_event [OF rt_config demo_sub, of vault_ref "[(0, ?v)]" "[]" "[?v]" "[]"] by simp
  also have "provisioning_step\<^sup>*\<^sup>* \<dots> (stage demo_ref [(0, ?v)] [] (handleNewIssuer ?d ?w) [?v, ?w] [?w])"
    using stage_deliver [OF demo_sub, of demo_ref "[(0, ?v)]" ?w "[]" "[?v, ?w]" "[]"] by simp
  also have "provisioning_step\<^sup>*\<^sup>* \<dots> ?s"
    using stage_deliver [of "handleNewIssuer ?d ?w" demo_ref "[]" ?v "[]" "[?v, ?w]" "[?w]"] demo_sub by simp
  finally have "provisioning_step\<^sup>*\<^sup>* (provisioning_init demo_manager1 demo_dicp) ?s" .
  moreover have "in_flight ?s = []" by (rule stage_quiet)
  moreover have "\<exists>k c. Istiod_Reconcile (list_client cert_key) ?d2 demo_certs ''istio-system'' ''istiod-dynamic'' = (None, k) \<and>
      kube_Get (list_client cert_key) k ''istio-system'' ''istiod-dynamic'' = Inr c \<and> cs_IssuerRef (cert_Spec c) = vault_ref"
    by (simp add: Istiod_Reconcile_def handleNewIssuer_ref demo_certs_def list_client_def kube_Get_def
        kube_Create_def cert_key_def desiredSpec_def case_prod_beta)
  moreover have "vault_ref \<noteq> demo_ref" by (simp add: vault_ref_def demo_ref_def)
  ultimately show ?thesis
    by (intro exI [of _ ?s]) (auto simp: stage_def handleNewIssuer_ref)
qed

end
