(* ===== verification/Istiod_System.thy ===== *)
theory Istiod_System
  imports Issuer_Delivery
begin

text \<open>
  The whole path of an issuer into the istiod Certificate: the manager and its delivery goroutines,
  the loop of the provisioner (\<open>Issuer_Delivery\<close>) and the controller under its work queue
  (\<open>Istiod_Queue\<close>) in one step relation.
\<close>

section \<open>Model\<close>

record 'w istiod_system =
  sys_p :: provisioning
  sys_q :: "(unit, IssuerReference option, 'w) work_queue"

definition istiod_system_init :: "manager \<Rightarrow> DynamicIstiodCertProvisioner \<Rightarrow> 'w \<Rightarrow> 'w istiod_system" where
  "istiod_system_init m d w =
     \<lparr>sys_p = provisioning_init m d,
      sys_q = \<lparr>wq_queue = {}, wq_active = Map.empty, wq_env = dicp_issuerRef d, wq_world = w\<rparr>\<rparr>"

text \<open>
  The queue after a step of the provisioner: the controller reads its issuer, and a request is
  enqueued when an event was sent on \<open>reconcileChan\<close>.
\<close>

definition queue_after ::
  "DynamicIstiodCertProvisioner \<Rightarrow> DynamicIstiodCertProvisioner \<Rightarrow>
   (unit, IssuerReference option, 'w) work_queue \<Rightarrow> (unit, IssuerReference option, 'w) work_queue" where
  "queue_after d d' q =
     q\<lparr>wq_env := dicp_issuerRef d', wq_queue := wq_queue q \<union> {u. dicp_events d' \<noteq> dicp_events d}\<rparr>"

text \<open>
  \<open>Lead\<close>: this replica becomes the leader, which starts the provisioner's loop and the workers
  together. \<open>Foreign\<close>: someone else changes objects behind the API.
\<close>

inductive system_step ::
  "('w, Certificate) kube_client \<Rightarrow> 'w istiod_system \<Rightarrow> 'w istiod_system \<Rightarrow> bool"
  for client :: "('w, Certificate) kube_client" where
  Lead: "\<not> pn_running (sys_p s) \<Longrightarrow> p = (sys_p s)\<lparr>pn_running := True, pn_d := Istiod_Start (pn_d (sys_p s)) []\<rparr> \<Longrightarrow>
    system_step client s (s\<lparr>sys_p := p, sys_q := queue_after (pn_d (sys_p s)) (pn_d p) (sys_q s)\<rparr>)"
| Provision: "provisioning_step (sys_p s) p \<Longrightarrow> pn_running p = pn_running (sys_p s) \<Longrightarrow>
    system_step client s (s\<lparr>sys_p := p, sys_q := queue_after (pn_d (sys_p s)) (pn_d p) (sys_q s)\<rparr>)"
| Worker: "pn_running (sys_p s) \<Longrightarrow> work_step (istiod_reconcile client (pn_d (sys_p s))) (sys_q s) q \<Longrightarrow>
    system_step client s (s\<lparr>sys_q := q\<rparr>)"
| Foreign: "istiod_touches client (pn_d (sys_p s)) (wq_world (sys_q s)) w K \<Longrightarrow>
    system_step client s (s\<lparr>sys_q := (sys_q s)\<lparr>wq_world := w, wq_queue := wq_queue (sys_q s) \<union> K\<rparr>\<rparr>)"

section \<open>The invariant\<close>

text \<open>The fields of the provisioner that never change.\<close>

definition same_provisioner :: "DynamicIstiodCertProvisioner \<Rightarrow> DynamicIstiodCertProvisioner \<Rightarrow> bool" where
  "same_provisioner d d' \<longleftrightarrow>
     dicp_opts d' = dicp_opts d \<and> dicp_trustDomain d' = dicp_trustDomain d \<and>
     dicp_initialIssuerRef d' = dicp_initialIssuerRef d"

lemma same_provisioner_desired: "same_provisioner d d' \<Longrightarrow> desiredSpec d' = desiredSpec d"
  by (intro ext) (simp add: desiredSpec_def same_provisioner_def case_prod_beta)

lemma Istiod_Reconcile_cong:
  assumes "dicp_opts d' = dicp_opts d" "dicp_issuerRef d' = dicp_issuerRef d" "desiredSpec d' = desiredSpec d"
  shows "Istiod_Reconcile client d' = Istiod_Reconcile client d"
  by (intro ext) (unfold Istiod_Reconcile_def assms, rule refl)

lemma same_provisioner_frame:
  assumes "same_provisioner d d'"
  shows "istiod_reconcile client d' = istiod_reconcile client d" "istiod_touches client d' = istiod_touches client d"
proof -
  have "istiod_reconcile client d' r w u = istiod_reconcile client d r w u" for r w u
    using Istiod_Reconcile_cong [of "d'\<lparr>dicp_issuerRef := r\<rparr>" "d\<lparr>dicp_issuerRef := r\<rparr>" client]
      assms same_provisioner_desired [OF assms]
    by (simp add: istiod_reconcile_def same_provisioner_def)
  then show "istiod_reconcile client d' = istiod_reconcile client d" by blast
  have "watches_certificate d' = watches_certificate d"
    using assms by (intro ext) (simp add: watches_certificate_def same_provisioner_def)
  then show "istiod_touches client d' = istiod_touches client d"
    by (intro ext) (simp add: istiod_touches_def)
qed

lemma provisioning_step_same:
  assumes "provisioning_step p p'" "same_provisioner d (pn_d p)"
  shows "same_provisioner d (pn_d p')"
  using assms by cases (auto simp: same_provisioner_def handleNewIssuer_def Istiod_Start_def)

text \<open>The last notification received, if any, was not a withdrawal.\<close>

definition not_withdrawn :: "provisioning \<Rightarrow> bool" where
  "not_withdrawn p \<longleftrightarrow> (pn_received p \<noteq> [] \<longrightarrow> last (pn_received p) \<noteq> None)"

definition sys_inv ::
  "('w, Certificate) kube_client \<Rightarrow> DynamicIstiodCertProvisioner \<Rightarrow> 'w istiod_system \<Rightarrow> bool" where
  "sys_inv client d s \<longleftrightarrow>
     same_provisioner d (pn_d (sys_p s)) \<and> wq_env (sys_q s) = dicp_issuerRef (pn_d (sys_p s)) \<and>
     (\<not> pn_running (sys_p s) \<longrightarrow> pn_received (sys_p s) = [] \<and> wq_active (sys_q s) = Map.empty \<and>
        dicp_issuerRef (pn_d (sys_p s)) = dicp_initialIssuerRef (pn_d (sys_p s))) \<and>
     (pn_running (sys_p s) \<and> not_withdrawn (sys_p s) \<longrightarrow> isq.settled client d (sys_q s))"

lemma queue_after_same [simp]: "wq_env q = dicp_issuerRef d \<Longrightarrow> queue_after d d q = q"
  by (simp add: queue_after_def)

lemma queue_after_full:
  "dicp_events d' \<noteq> dicp_events d \<Longrightarrow> isq.settled client d0 (queue_after d d' q)"
  by (simp add: isq.settled_def queue_after_def)

lemma handleNewIssuer_events: "v \<noteq> None \<Longrightarrow> dicp_events (handleNewIssuer d v) \<noteq> dicp_events d"
  by (simp add: handleNewIssuer_def)


lemma sys_inv_init: "dicp_issuerRef d = dicp_initialIssuerRef d \<Longrightarrow> sys_inv client d (istiod_system_init m d w)"
  by (simp add: sys_inv_def istiod_system_init_def provisioning_init_def same_provisioner_def)

lemma sys_inv_lead:
  assumes "sys_inv client d s" "\<not> pn_running (sys_p s)"
    "p = (sys_p s)\<lparr>pn_running := True, pn_d := Istiod_Start (pn_d (sys_p s)) []\<rparr>"
  shows "sys_inv client d (s\<lparr>sys_p := p, sys_q := queue_after (pn_d (sys_p s)) (pn_d p) (sys_q s)\<rparr>)"
proof -
  let ?d = "pn_d (sys_p s)" let ?q = "queue_after ?d (Istiod_Start ?d []) (sys_q s)"
  have "same_provisioner d (Istiod_Start ?d [])"
    using assms(1) by (simp add: sys_inv_def same_provisioner_def Istiod_Start_def)
  moreover have "isq.settled client d ?q"
  proof (cases "dicp_initialIssuerRef ?d")
    case None
    then have "queue_after ?d (Istiod_Start ?d []) (sys_q s) = sys_q s"
      using assms(1) by (simp add: Istiod_Start_def sys_inv_def)
    with None assms(1,2) show ?thesis by (simp add: sys_inv_def isq.settled_def istiod_good_def)
  next
    case (Some r)
    then show ?thesis by (intro queue_after_full) (simp add: Istiod_Start_def handleNewIssuer_events)
  qed
  ultimately show ?thesis using assms by (simp add: sys_inv_def queue_after_def)
qed

lemma sys_inv_provision:
  assumes inv: "sys_inv client d s" and p: "provisioning_step (sys_p s) p" "pn_running p = pn_running (sys_p s)"
  shows "sys_inv client d (s\<lparr>sys_p := p, sys_q := queue_after (pn_d (sys_p s)) (pn_d p) (sys_q s)\<rparr>)"
  using p(1)
proof cases
  case (receive xs v ys)
  have "same_provisioner d (pn_d p)" using provisioning_step_same [OF p(1)] inv by (simp add: sys_inv_def)
  moreover have "isq.settled client d (queue_after (pn_d (sys_p s)) (pn_d p) (sys_q s))" if "not_withdrawn p"
    using that receive by (intro queue_after_full) (simp add: not_withdrawn_def handleNewIssuer_events)
  ultimately show ?thesis using receive by (simp add: sys_inv_def queue_after_def)
qed (use inv p in \<open>simp_all add: sys_inv_def not_withdrawn_def\<close>)

lemma sys_inv_step:
  assumes "istiod_law client" "sys_inv client d s" "system_step client s s'"
  shows "sys_inv client d s'"
  using assms(3)
proof cases
  case (Lead p)
  with sys_inv_lead [OF assms(2)] show ?thesis by simp
next
  case (Provision p)
  with sys_inv_provision [OF assms(2)] show ?thesis by simp
next
  case (Worker q)
  have "istiod_reconcile client (pn_d (sys_p s)) = istiod_reconcile client d"
    by (rule same_provisioner_frame) (use assms(2) in \<open>simp add: sys_inv_def\<close>)
  with Worker have "work_step (istiod_reconcile client d) (sys_q s) q" by simp
  with Worker assms(2) isq.settled_work [OF assms(1)] work_step_env show ?thesis
    by (fastforce simp: sys_inv_def)
next
  case (Foreign w K)
  have "istiod_touches client (pn_d (sys_p s)) = istiod_touches client d"
    by (rule same_provisioner_frame) (use assms(2) in \<open>simp add: sys_inv_def\<close>)
  with Foreign have "queue_step (istiod_reconcile client d) (istiod_notifies d) (istiod_touches client d) (sys_q s) (sys_q s')"
    by (simp add: queue_step.World)
  with Foreign assms(2) isq.settled_step [OF assms(1)] show ?thesis by (auto simp: sys_inv_def)
qed

lemma sys_inv_reach:
  "(system_step client)\<^sup>*\<^sup>* s s' \<Longrightarrow> istiod_law client \<Longrightarrow> sys_inv client d s \<Longrightarrow> sys_inv client d s'"
  by (induction rule: rtranclp_induct) (auto intro: sys_inv_step)

lemma system_provisions: "system_step client s s' \<Longrightarrow> provisioning_step\<^sup>*\<^sup>* (sys_p s) (sys_p s')"
  by (induction rule: system_step.induct) (auto intro: provisioning_step.start)

lemma system_run_provisions: "(system_step client)\<^sup>*\<^sup>* s s' \<Longrightarrow> provisioning_step\<^sup>*\<^sup>* (sys_p s) (sys_p s')"
  by (induction rule: rtranclp_induct) (auto dest: system_provisions)


lemma system_work:
  assumes "(work_step (istiod_reconcile client (pn_d (sys_p s))))\<^sup>*\<^sup>* (sys_q s) q" "pn_running (sys_p s)"
  shows "(system_step client)\<^sup>*\<^sup>* s (s\<lparr>sys_q := q\<rparr>)"
  using assms(1)
proof (induction rule: rtranclp_induct)
  case (step q q')
  have "system_step client (s\<lparr>sys_q := q\<rparr>) (s\<lparr>sys_q := q'\<rparr>)"
    using system_step.Worker [of "s\<lparr>sys_q := q\<rparr>" client q'] step.hyps(2) assms(2) by simp
  with step.IH show ?case by simp
qed simp

section \<open>Progress\<close>

text \<open>
  The steps of this replica alone: the configuration does not change, and only the workers write.
\<close>

inductive replica_step ::
  "('w, Certificate) kube_client \<Rightarrow> 'w istiod_system \<Rightarrow> 'w istiod_system \<Rightarrow> bool"
  for client :: "('w, Certificate) kube_client" where
  Deliver: "provisioning_step (sys_p s) p \<Longrightarrow> pn_running p = pn_running (sys_p s) \<Longrightarrow>
    pn_announced p = pn_announced (sys_p s) \<Longrightarrow>
    replica_step client s (s\<lparr>sys_p := p, sys_q := queue_after (pn_d (sys_p s)) (pn_d p) (sys_q s)\<rparr>)"
| Work: "pn_running (sys_p s) \<Longrightarrow> work_step (istiod_reconcile client (pn_d (sys_p s))) (sys_q s) q \<Longrightarrow>
    replica_step client s (s\<lparr>sys_q := q\<rparr>)"

lemma replica_system_step: "replica_step client s s' \<Longrightarrow> system_step client s s'"
  by (erule replica_step.cases) (auto intro: system_step.intros)

lemma own_system: "(replica_step client)\<^sup>*\<^sup>* s s' \<Longrightarrow> (system_step client)\<^sup>*\<^sup>* s s'"
  by (erule mono_rtranclp [rule_format, rotated]) (rule replica_system_step)

lemma replica_step_announced: "replica_step client s s' \<Longrightarrow> pn_announced (sys_p s') = pn_announced (sys_p s)"
  by (erule replica_step.cases) simp_all


lemma own_announced: "(replica_step client)\<^sup>*\<^sup>* s s' \<Longrightarrow> pn_announced (sys_p s') = pn_announced (sys_p s)"
  by (induction rule: rtranclp_induct) (simp_all add: replica_step_announced)

lemma own_provision:
  assumes "provisioning_step (sys_p s) p" "pn_running p = pn_running (sys_p s)" "pn_announced p = pn_announced (sys_p s)"
  shows "\<exists>s'. replica_step client s s' \<and> sys_p s' = p"
  by (rule exI [of _ "s\<lparr>sys_p := p, sys_q := queue_after (pn_d (sys_p s)) (pn_d p) (sys_q s)\<rparr>"])
    (use replica_step.Deliver [OF assms, of client] in simp)


text \<open>What the deliveries leave unchanged.\<close>

definition same_manager :: "provisioning \<Rightarrow> provisioning \<Rightarrow> bool" where
  "same_manager p p' \<longleftrightarrow>
     pn_running p' = pn_running p \<and> mgr_closedSubs (ns_m (pn_n p')) = mgr_closedSubs (ns_m (pn_n p)) \<and>
     mgr_activeIssuerRef (ns_m (pn_n p')) = mgr_activeIssuerRef (ns_m (pn_n p))"

lemma deliver_blocked:
  assumes "pn_running (sys_p s)" "v \<in> set (blocked (dicp_subscription (pn_d (sys_p s))) (pn_n (sys_p s)))"
  shows "\<exists>s'. replica_step client s s' \<and> pn_received (sys_p s') = pn_received (sys_p s) @ [v] \<and>
    same_manager (sys_p s) (sys_p s')"
proof -
  from assms(2) obtain xs ys where "ns_senders (pn_n (sys_p s)) = xs @ (dicp_subscription (pn_d (sys_p s)), v) # ys"
    by (auto simp: blocked_def dest: split_list)
  from own_provision [OF provisioning_step.receive [OF assms(1) this], of client] show ?thesis
    by (auto simp: same_manager_def)
qed

lemma unsent_blocks:
  assumes "pn_inv original (sys_p s)" "mgr_closedSubs (ns_m (pn_n (sys_p s))) = []"
    "v \<in> set (unsent (dicp_subscription (pn_d (sys_p s))) (pn_n (sys_p s)))"
  shows "\<exists>s'. replica_step client s s' \<and> pn_received (sys_p s') = pn_received (sys_p s) \<and>
    same_manager (sys_p s) (sys_p s') \<and> v \<in> set (blocked (dicp_subscription (pn_d (sys_p s'))) (pn_n (sys_p s')))"
proof -
  let ?p = "sys_p s" let ?sub = "dicp_subscription (pn_d ?p)"
  have sub: "?sub < length (mgr_issuerChangeSubscriptions (ns_m (pn_n ?p)))"
    "mgr_issuerChangeSubscriptions (ns_m (pn_n ?p)) ! ?sub = ?sub"
    using assms(1,2) by (auto simp: pn_inv_def notify_inv_def)
  from assms(3) obtain xs ys where "mgr_sends (ns_m (pn_n ?p)) = xs @ (?sub, v) # ys"
    by (auto simp: unsent_def dest: split_list)
  from own_provision [OF provisioning_step.send [OF this sub(1)], of client] obtain s' where
    "replica_step client s s'" "sys_p s' = ?p\<lparr>pn_n := (pn_n ?p)\<lparr>ns_m := (ns_m (pn_n ?p))\<lparr>mgr_sends := xs @ ys\<rparr>,
      ns_senders := ns_senders (pn_n ?p) @ [(?sub, v)]\<rparr>\<rparr>"
    by (auto simp: sub(2))
  then show ?thesis by (intro exI [of _ s']) (simp add: same_manager_def blocked_def)
qed

lemma deliver_one:
  assumes "pn_inv original (sys_p s)" "mgr_closedSubs (ns_m (pn_n (sys_p s))) = []" "pn_running (sys_p s)"
    "v \<in> set (in_flight (sys_p s))"
  shows "\<exists>s'. (replica_step client)\<^sup>*\<^sup>* s s' \<and> pn_received (sys_p s') = pn_received (sys_p s) @ [v] \<and>
    same_manager (sys_p s) (sys_p s')"
proof -
  consider "v \<in> set (blocked (dicp_subscription (pn_d (sys_p s))) (pn_n (sys_p s)))"
    | "v \<in> set (unsent (dicp_subscription (pn_d (sys_p s))) (pn_n (sys_p s)))"
    using assms(4) by (auto simp: in_flight_def)
  then show ?thesis
  proof cases
    case 1
    from deliver_blocked [OF assms(3) 1, of client] show ?thesis by blast
  next
    case 2
    from unsent_blocks [OF assms(1,2) 2, of client] obtain s1 where s1: "replica_step client s s1"
      "pn_received (sys_p s1) = pn_received (sys_p s)" "same_manager (sys_p s) (sys_p s1)"
      "v \<in> set (blocked (dicp_subscription (pn_d (sys_p s1))) (pn_n (sys_p s1)))" by blast
    moreover have "pn_running (sys_p s1)" using s1(3) assms(3) by (simp add: same_manager_def)
    ultimately show ?thesis using deliver_blocked [of s1 v client]
      by (metis (no_types, lifting) converse_rtranclp_into_rtranclp r_into_rtranclp same_manager_def)
  qed
qed

lemma deliver_all:
  assumes "pn_inv original (sys_p s)" "mgr_closedSubs (ns_m (pn_n (sys_p s))) = []" "pn_running (sys_p s)"
    "pn_announced (sys_p s) = pn_received (sys_p s) @ vs"
  shows "\<exists>s'. (replica_step client)\<^sup>*\<^sup>* s s' \<and> pn_received (sys_p s') = pn_announced (sys_p s) \<and>
    same_manager (sys_p s) (sys_p s')"
  using assms
proof (induction vs arbitrary: s)
  case Nil
  then show ?case by (intro exI [of _ s]) (simp add: same_manager_def)
next
  case (Cons v vs)
  have "mset (in_flight (sys_p s)) = mset (v # vs)" using Cons.prems by (simp add: pn_inv_def)
  then have "v \<in> set (in_flight (sys_p s))" by (metis list.set_intros(1) mset_eq_setD)
  from deliver_one [OF Cons.prems(1-3) this, of client] obtain s1 where s1: "(replica_step client)\<^sup>*\<^sup>* s s1"
    "pn_received (sys_p s1) = pn_received (sys_p s) @ [v]" "same_manager (sys_p s) (sys_p s1)" by blast
  have ann: "pn_announced (sys_p s1) = pn_announced (sys_p s)" by (rule own_announced [OF s1(1)])
  have "pn_inv original (sys_p s1)"
    by (rule pn_inv_reach [OF system_run_provisions [OF own_system [OF s1(1)]] Cons.prems(1)])
  then obtain s2 where "(replica_step client)\<^sup>*\<^sup>* s1 s2" "pn_received (sys_p s2) = pn_announced (sys_p s1)"
    "same_manager (sys_p s1) (sys_p s2)"
    using Cons.IH [of s1] Cons.prems(2-4) s1(2,3) ann by (auto simp: same_manager_def)
  with s1 ann show ?case by (intro exI [of _ s2]) (auto simp: same_manager_def)
qed

text \<open>The state at rest, for both properties below.\<close>

lemma at_rest_follows:
  assumes p: "pn_inv original (sys_p s)" "original \<noteq> None" and inv: "sys_inv client d s"
    and s: "mgr_closedSubs (ns_m (pn_n (sys_p s))) = []" "pn_running (sys_p s)"
    "pn_received (sys_p s) = pn_announced (sys_p s)" "not_withdrawn (sys_p s)" "quiescent (sys_q s)"
  shows "\<exists>ref c. mgr_activeIssuerRef (ns_m (pn_n (sys_p s))) = Some ref \<and>
    kc_Get client (wq_world (sys_q s)) (io_CertificateNamespace (dicp_opts d)) (io_CertificateName (dicp_opts d)) = Inr c \<and>
    cert_Spec c = desiredSpec d ref (io_CertificateNamespace (dicp_opts d))"
proof -
  have "mgr_activeIssuerRef (ns_m (pn_n (sys_p s))) = dicp_issuerRef (pn_d (sys_p s))"
    using p s(1,3) by (simp add: pn_inv_def)
  moreover have "dicp_issuerRef (pn_d (sys_p s)) \<noteq> None"
    using p s(4) by (auto simp: pn_inv_def issuer_after_def not_withdrawn_def split: option.splits)
  ultimately obtain ref where ref: "mgr_activeIssuerRef (ns_m (pn_n (sys_p s))) = Some ref"
    "wq_env (sys_q s) = Some ref" using inv by (auto simp: sys_inv_def)
  have "isq.settled client d (sys_q s)" using inv s(2,4) by (simp add: sys_inv_def)
  from isq.settled_quiescent [OF this s(5)] show ?thesis using ref by (simp add: istiod_good_def)
qed

lemma system_inv:
  assumes "New k8sErr cmErr mopts = Inr m" "Istiod_New clientErr opts m td = (Inr d, m1)" "istiod_law client"
    "(system_step client)\<^sup>*\<^sup>* (istiod_system_init m1 d w) s"
  shows "pn_inv (mgr_originalIssuerRef m) (sys_p s)" "sys_inv client d s" "dicp_opts d = opts"
proof -
  have d: "dicp_opts d = opts" "dicp_issuerRef d = dicp_initialIssuerRef d"
    using assms(2) by (auto simp: Istiod_New_def split: option.splits prod.splits)
  then show "dicp_opts d = opts" by simp
  have "provisioning_step\<^sup>*\<^sup>* (provisioning_init m1 d) (sys_p s)"
    using system_run_provisions [OF assms(4)] by (simp add: istiod_system_init_def)
  from pn_inv_reach [OF this pn_inv_init [OF assms(1,2)]] show "pn_inv (mgr_originalIssuerRef m) (sys_p s)" .
  show "sys_inv client d s" by (rule sys_inv_reach [OF assms(4,3) sys_inv_init [OF d(2)]])
qed


section \<open>Withdrawals\<close>

text \<open>A withdrawal is announced: neither the provisioner nor the queue notices.\<close>

lemma withdrawal_announced:
  assumes "system_step client s s1" "pn_announced (sys_p s1) = pn_announced (sys_p s) @ [None]" "sys_inv client d s"
  shows "sys_q s1 = sys_q s" "pn_received (sys_p s1) = pn_received (sys_p s)"
proof -
  have "sys_q s1 = sys_q s \<and> pn_received (sys_p s1) = pn_received (sys_p s)"
    using assms(1)
  proof cases
    case (Provision p)
    from Provision(2) show ?thesis
      by cases (use assms(2,3) Provision(1) in \<open>simp_all add: sys_inv_def\<close>)
  qed (use assms(2) in simp_all)
  then show "sys_q s1 = sys_q s" "pn_received (sys_p s1) = pn_received (sys_p s)" by simp_all
qed

text \<open>Nothing is left to receive but withdrawals, and the queue is at rest with the world \<open>w\<close>.\<close>

definition only_withdrawals :: "IssuerReference option list \<Rightarrow> 'w \<Rightarrow> 'w istiod_system \<Rightarrow> bool" where
  "only_withdrawals received w s \<longleftrightarrow>
     quiescent (sys_q s) \<and> wq_world (sys_q s) = w \<and> pn_announced (sys_p s) = received @ [None] \<and>
     (\<exists>more. pn_received (sys_p s) = received @ more)"

lemma closed_before:
  assumes "system_step client s s'" "mgr_closedSubs (ns_m (pn_n (sys_p s'))) = []"
  shows "mgr_closedSubs (ns_m (pn_n (sys_p s))) = []"
proof -
  have "mgr_closedSubs (ns_m (pn_n p)) = []" if "provisioning_step p p'" "mgr_closedSubs (ns_m (pn_n p')) = []" for p p'
    using that by cases (auto dest: notify_step_closed simp: event_effect_def)
  with assms show ?thesis by cases auto
qed

lemma closed_before_run:
  "(system_step client)\<^sup>*\<^sup>* s s' \<Longrightarrow> mgr_closedSubs (ns_m (pn_n (sys_p s'))) = [] \<Longrightarrow>
   mgr_closedSubs (ns_m (pn_n (sys_p s))) = []"
  by (induction rule: rtranclp_induct) (auto dest: closed_before)

lemma withdrawals_left:
  assumes "pn_inv original (sys_p s)" "only_withdrawals received w s" "mgr_closedSubs (ns_m (pn_n (sys_p s))) = []"
    "v \<in> set (in_flight (sys_p s))"
  shows "v = None"
proof -
  obtain more where "pn_received (sys_p s) = received @ more" "pn_announced (sys_p s) = received @ [None]"
    using assms(2) by (auto simp: only_withdrawals_def)
  moreover have "mset (pn_announced (sys_p s)) = mset (pn_received (sys_p s)) + mset (in_flight (sys_p s))"
    using assms(1,3) by (simp add: pn_inv_def)
  ultimately have "{#None#} = mset more + mset (in_flight (sys_p s))" by simp
  with assms(4) show ?thesis by (metis set_mset_mset union_iff set_mset_single set_mset_union empty_iff insert_iff)
qed

lemma only_withdrawals_step:
  assumes "replica_step client s s'" "only_withdrawals received w s" "pn_inv original (sys_p s)" "original \<noteq> None"
    and "sys_inv client d s" "mgr_closedSubs (ns_m (pn_n (sys_p s))) = []"
  shows "only_withdrawals received w s'"
  using assms(1)
proof cases
  case (Deliver p)
  from Deliver(2) show ?thesis
  proof cases
    case (receive xs v ys)
    have "v \<in> set (in_flight (sys_p s))" using receive by (simp add: in_flight_def blocked_def)
    from withdrawals_left [OF assms(3,2,6) this] have "v = None" .
    moreover have "dicp_initialIssuerRef (pn_d (sys_p s)) \<noteq> None" using assms(3,4) by (simp add: pn_inv_def)
    ultimately have "dicp_events (pn_d p) = dicp_events (pn_d (sys_p s))"
      using receive by (simp add: handleNewIssuer_def)
    with assms(2) Deliver(1) receive show ?thesis
      by (auto simp: only_withdrawals_def queue_after_def quiescent_def)
  qed (use assms(2,5) Deliver in \<open>simp_all add: only_withdrawals_def sys_inv_def\<close>)
next
  case (Work q)
  have "\<not> work_step (istiod_reconcile client (pn_d (sys_p s))) (sys_q s) q"
    using assms(2) by (auto simp: only_withdrawals_def quiescent_def elim!: work_stepE)
  with Work show ?thesis by blast
qed

lemma only_withdrawals_run:
  assumes "(replica_step client)\<^sup>*\<^sup>* s s'" "mgr_closedSubs (ns_m (pn_n (sys_p s'))) = []"
    and "only_withdrawals received w s" "pn_inv original (sys_p s)" "original \<noteq> None" "sys_inv client d s" "istiod_law client"
  shows "only_withdrawals received w s' \<and> pn_inv original (sys_p s')"
  using assms(1,2)
proof (induction rule: rtranclp_induct)
  case base
  with assms(3,4) show ?case by simp
next
  case (step s1 s2)
  have closed: "mgr_closedSubs (ns_m (pn_n (sys_p s1))) = []" 
    by (rule closed_before [OF replica_system_step [OF step.hyps(2)] step.prems])
  with step.IH have IH: "only_withdrawals received w s1" "pn_inv original (sys_p s1)" by simp_all
  have "sys_inv client d s1" by (rule sys_inv_reach [OF own_system [OF step.hyps(1)] assms(7,6)])
  from only_withdrawals_step [OF step.hyps(2) IH assms(5) this closed]
    pn_inv_reach [OF system_provisions [OF replica_system_step [OF step.hyps(2)]] IH(2)]
  show ?case by simp
qed

text \<open>The configuration is withdrawn, and the withdrawal received.\<close>

lemma withdrawal_happens:
  assumes "pn_inv original (sys_p s)" "original \<noteq> None" "mgr_closedSubs (ns_m (pn_n (sys_p s))) = []"
    and "pn_running (sys_p s)" "pn_received (sys_p s) = pn_announced (sys_p s)"
  shows "\<exists>s1 s'. system_step client s s1 \<and> pn_announced (sys_p s1) = pn_announced (sys_p s) @ [None] \<and>
    (replica_step client)\<^sup>*\<^sup>* s1 s' \<and> mgr_closedSubs (ns_m (pn_n (sys_p s'))) = [] \<and>
    pn_received (sys_p s') = pn_announced (sys_p s) @ [None]"
proof -
  let ?n = "pn_n (sys_p s)" let ?sub = "dicp_subscription (pn_d (sys_p s))"
  let ?early = "replicate (length (started (ns_m ?n) delete_event)) False"
  let ?p = "(sys_p s)\<lparr>pn_n := event_effect ?early delete_event ?n,
      pn_announced := pn_announced (sys_p s) @ messages ?sub (ns_m ?n) delete_event\<rparr>"
  let ?s1 = "s\<lparr>sys_p := ?p, sys_q := queue_after (pn_d (sys_p s)) (pn_d ?p) (sys_q s)\<rparr>"
  have "?sub < length (mgr_issuerChangeSubscriptions (ns_m ?n))" "mgr_originalIssuerRef (ns_m ?n) \<noteq> None"
    using assms(1-3) by (auto simp: pn_inv_def notify_inv_def)
  from messages_eq [OF assms(3) this, of delete_event] have ann: "pn_announced ?p = pn_announced (sys_p s) @ [None]"
    by (simp add: config_of_def delete_event_def)
  have step: "provisioning_step (sys_p s) ?p" by (rule provisioning_step.event) simp
  then have s1: "system_step client s ?s1" by (rule system_step.Provision) simp
  have "pn_inv original (sys_p ?s1)" using pn_inv_step [OF step assms(1)] by simp
  moreover have "mgr_closedSubs (ns_m (pn_n (sys_p ?s1))) = []" using assms(3) by (simp add: event_effect_def)
  moreover have "pn_announced (sys_p ?s1) = pn_received (sys_p ?s1) @ [None]" using ann assms(5) by simp
  ultimately obtain s' where "(replica_step client)\<^sup>*\<^sup>* ?s1 s'" "pn_received (sys_p s') = pn_announced (sys_p ?s1)"
    "same_manager (sys_p ?s1) (sys_p s')"
    using deliver_all [of original ?s1 "[None]" client] assms(4) by auto
  moreover from this(3) have "mgr_closedSubs (ns_m (pn_n (sys_p s'))) = []"
    using assms(3) by (simp add: same_manager_def event_effect_def)
  ultimately show ?thesis using s1 ann by (intro exI [of _ ?s1] exI [of _ s']) simp
qed

section \<open>Properties\<close>

text \<open>
  C17: End to end, the istiod Certificate follows the manager: with an issuer given at start-up, once
  this replica leads, the notifications were received in the order in which they were sent, the last
  of them was not a withdrawal, and the queue is at rest, the manager has an active issuer and the
  Certificate has the desired specification for it, whatever the interleaving of configuration
  changes, deliveries, workers, failed calls and changes of the Certificate by others.
\<close>

theorem certificate_follows_active:
  assumes "New k8sErr cmErr mopts = Inr m" and "mgr_originalIssuerRef m \<noteq> None"
    and "Istiod_New clientErr opts m td = (Inr d, m1)" and "istiod_law client"
    and "(system_step client)\<^sup>*\<^sup>* (istiod_system_init m1 d w) s"
    and "mgr_closedSubs (ns_m (pn_n (sys_p s))) = []" and "pn_running (sys_p s)"
    and "pn_received (sys_p s) = pn_announced (sys_p s)" and "not_withdrawn (sys_p s)" and "quiescent (sys_q s)"
  shows "\<exists>ref c. mgr_activeIssuerRef (ns_m (pn_n (sys_p s))) = Some ref \<and>
    kc_Get client (wq_world (sys_q s)) (io_CertificateNamespace opts) (io_CertificateName opts) = Inr c \<and>
    cert_Spec c = desiredSpec d ref (io_CertificateNamespace opts)"
  using at_rest_follows [OF system_inv(1) [OF assms(1,3,4,5)] assms(2) system_inv(2) [OF assms(1,3,4,5)] assms(6-10)]
  unfolding system_inv(3) [OF assms(1,3,4,5)] .

lemma system_provision:
  "provisioning_step p p' \<Longrightarrow> pn_running p' = pn_running p \<Longrightarrow>
   system_step client \<lparr>sys_p = p, sys_q = q\<rparr> \<lparr>sys_p = p', sys_q = queue_after (pn_d p) (pn_d p') q\<rparr>"
  using system_step.Provision [of "\<lparr>sys_p = p, sys_q = q\<rparr>" p' client] by simp

lemma stage_fields [simp]:
  "pn_running (stage active sends senders d ann rec)" "pn_d (stage active sends senders d ann rec) = d"
  "pn_received (stage active sends senders d ann rec) = rec"
  by (simp_all add: stage_def)

text \<open>A run in which the replica becomes the leader, and the issuer is changed and the change received.\<close>

definition demo_queue :: "IssuerReference \<Rightarrow> 'w \<Rightarrow> (unit, IssuerReference option, 'w) work_queue" where
  "demo_queue ref w = \<lparr>wq_queue = {()}, wq_active = Map.empty, wq_env = Some ref, wq_world = w\<rparr>"

lemma demo_queue_same: "queue_after (Istiod_Start demo_dicp []) (Istiod_Start demo_dicp []) (demo_queue demo_ref w) = demo_queue demo_ref w"
  by (intro queue_after_same) (simp add: demo_queue_def Istiod_Start_def demo_dicp_def handleNewIssuer_def)

lemma demo_system_announced:
  "(system_step client)\<^sup>*\<^sup>* (istiod_system_init demo_manager1 demo_dicp w)
    \<lparr>sys_p = stage vault_ref [(0, Some vault_ref)] [] (Istiod_Start demo_dicp []) [Some vault_ref] [],
     sys_q = demo_queue demo_ref w\<rparr>"
proof -
  let ?s0 = "istiod_system_init demo_manager1 demo_dicp w" let ?d = "Istiod_Start demo_dicp []"
  let ?s1 = "\<lparr>sys_p = stage demo_ref [] [] ?d [] [], sys_q = demo_queue demo_ref w\<rparr>"
  have s0: "\<not> pn_running (sys_p ?s0)" "pn_d (sys_p ?s0) = demo_dicp"
    "(sys_p ?s0)\<lparr>pn_running := True, pn_d := ?d\<rparr> = stage demo_ref [] [] ?d [] []"
    by (simp_all add: istiod_system_init_def provisioning_init_def notify_init_def stage_def demo_manager1_eq demo_manager_def)
  have q0: "queue_after demo_dicp ?d (sys_q ?s0) = demo_queue demo_ref w"
    by (auto simp: queue_after_def istiod_system_init_def Istiod_Start_def demo_dicp_def handleNewIssuer_def demo_queue_def)
  have "system_step client ?s0 ?s1"
    using system_step.Lead [of ?s0 _ client, OF s0(1) refl] s0 q0 by (simp add: istiod_system_init_def)
  moreover have "system_step client ?s1 \<lparr>sys_p = stage vault_ref [(0, Some vault_ref)] [] ?d [Some vault_ref] [],
      sys_q = demo_queue demo_ref w\<rparr>"
    using system_provision [OF stage_event [OF other_config demo_sub, of demo_ref "[]" "[]" "[]" "[]"], of client "demo_queue demo_ref w"]
    by (simp add: demo_queue_same)
  ultimately show ?thesis by simp
qed

lemma demo_system_run:
  "(system_step client)\<^sup>*\<^sup>* (istiod_system_init demo_manager1 demo_dicp w)
    \<lparr>sys_p = stage vault_ref [] [] (handleNewIssuer (Istiod_Start demo_dicp []) (Some vault_ref)) [Some vault_ref] [Some vault_ref],
     sys_q = demo_queue vault_ref w\<rparr>"
proof -
  let ?d = "Istiod_Start demo_dicp []" let ?v = "Some vault_ref" let ?q = "demo_queue demo_ref w"
  let ?s = "\<lparr>sys_p = stage vault_ref [] [(0, ?v)] ?d [?v] [], sys_q = ?q\<rparr>"
  have "queue_after ?d (handleNewIssuer ?d ?v) ?q = demo_queue vault_ref w"
    by (auto simp: queue_after_def handleNewIssuer_ref demo_queue_def)
  then have "system_step client ?s \<lparr>sys_p = stage vault_ref [] [] (handleNewIssuer ?d ?v) [?v] [?v], sys_q = demo_queue vault_ref w\<rparr>"
    using system_provision [OF stage_receive [OF demo_sub, of vault_ref "[]" ?v "[?v]" "[]"], of client ?q] by simp
  moreover have "system_step client \<lparr>sys_p = stage vault_ref [(0, ?v)] [] ?d [?v] [], sys_q = ?q\<rparr> ?s"
    using system_provision [OF stage_send [of vault_ref "[]" ?v "[]" ?d "[?v]" "[]"], of client ?q]
    by (simp add: demo_queue_same)
  ultimately show ?thesis using demo_system_announced [of client w] by simp
qed

lemma stage_manager:
  "mgr_closedSubs (ns_m (pn_n (stage active sends senders d ann rec))) = []"
  "mgr_activeIssuerRef (ns_m (pn_n (stage active sends senders d ann rec))) = Some active"
  "pn_announced (stage active sends senders d ann rec) = ann"
  by (simp_all add: stage_def demo_manager1_eq demo_manager_def)

lemma demo_at_rest:
  "\<exists>q. (system_step (map_client cert_key))\<^sup>*\<^sup>* (istiod_system_init demo_manager1 demo_dicp Map.empty)
     \<lparr>sys_p = stage vault_ref [] [] (handleNewIssuer (Istiod_Start demo_dicp []) (Some vault_ref)) [Some vault_ref] [Some vault_ref],
      sys_q = q\<rparr> \<and> quiescent q"
proof -
  let ?c = "map_client cert_key" let ?d = "handleNewIssuer (Istiod_Start demo_dicp []) (Some vault_ref)"
  let ?p = "stage vault_ref [] [] ?d [Some vault_ref] [Some vault_ref]"
  let ?q = "demo_queue vault_ref (Map.empty :: string \<times> string \<Rightarrow> Certificate option)"
  have "isq.settled ?c ?d ?q" by (simp add: isq.settled_def demo_queue_def)
  moreover have "smooth (istiod_reconcile ?c ?d) (keyed cert_key) (wq_env ?q)"
    by (rule istiod_smooth [OF demo_istiod_law map_client_laws(3) TrueI])
  moreover have "keyed cert_key (wq_world ?q)" by (simp add: keyed_def demo_queue_def)
  ultimately have "\<exists>q. (work_step (istiod_reconcile ?c ?d))\<^sup>*\<^sup>* ?q q \<and> quiescent q"
    using isq.work_drains [OF demo_istiod_law] finite by blast
  then obtain q where q: "(work_step (istiod_reconcile ?c ?d))\<^sup>*\<^sup>* ?q q" "quiescent q" by blast
  have "(system_step ?c)\<^sup>*\<^sup>* (istiod_system_init demo_manager1 demo_dicp Map.empty) \<lparr>sys_p = ?p, sys_q = q\<rparr>"
    using demo_system_run [of ?c Map.empty] system_work [of ?c "\<lparr>sys_p = ?p, sys_q = ?q\<rparr>" q] q(1) by simp
  with q(2) show ?thesis by blast
qed

theorem certificate_follows_active_witness:
  "\<exists>s c. (system_step (map_client cert_key))\<^sup>*\<^sup>* (istiod_system_init demo_manager1 demo_dicp Map.empty) s \<and>
     quiescent (sys_q s) \<and> mgr_activeIssuerRef (ns_m (pn_n (sys_p s))) = Some vault_ref \<and>
     kc_Get (map_client cert_key) (wq_world (sys_q s)) ''istio-system'' ''istiod-dynamic'' = Inr c \<and>
     cs_IssuerRef (cert_Spec c) = vault_ref"
proof -
  let ?c = "map_client cert_key"
  let ?p = "stage vault_ref [] [] (handleNewIssuer (Istiod_Start demo_dicp []) (Some vault_ref)) [Some vault_ref] [Some vault_ref]"
  obtain q where run: "(system_step ?c)\<^sup>*\<^sup>* (istiod_system_init demo_manager1 demo_dicp Map.empty) \<lparr>sys_p = ?p, sys_q = q\<rparr>"
    and q: "quiescent q" using demo_at_rest by blast
  let ?s = "\<lparr>sys_p = ?p, sys_q = q\<rparr>"
  have o: "mgr_originalIssuerRef demo_manager \<noteq> None" by (simp add: demo_manager_def)
  have s: "mgr_closedSubs (ns_m (pn_n (sys_p ?s))) = []" "pn_running (sys_p ?s)"
    "pn_received (sys_p ?s) = pn_announced (sys_p ?s)" "not_withdrawn (sys_p ?s)" "quiescent (sys_q ?s)"
    using q by (simp_all add: not_withdrawn_def stage_manager)
  have "mgr_activeIssuerRef (ns_m (pn_n ?p)) = Some vault_ref" by (simp add: stage_manager)
  with certificate_follows_active [OF demo_manager_new o demo_istiod_new demo_istiod_law run s] run q
  show ?thesis by (intro exI [of _ ?s]) (auto simp: demo_istiod_opts_def desiredSpec_def case_prod_beta)
qed




text \<open>
  C39: A withdrawal does not reach the Certificate. From every state of rest of a leading replica in
  which the Certificate has the active issuer (C17), once the manager announces that the run-time
  configuration was withdrawn: whatever the replica does on its own from then on, receiving the
  withdrawal included, the manager signs with the issuer of start-up again, but no request is
  enqueued and the Certificate keeps the withdrawn issuer, until something else touches it.
\<close>

theorem withdrawal_not_reconciled:
  assumes "New k8sErr cmErr mopts = Inr m" and "mgr_originalIssuerRef m \<noteq> None"
    and "Istiod_New clientErr opts m td = (Inr d, m1)" and "istiod_law client"
    and "(system_step client)\<^sup>*\<^sup>* (istiod_system_init m1 d w) s"
    and "pn_running (sys_p s)" and "pn_received (sys_p s) = pn_announced (sys_p s)"
    and "not_withdrawn (sys_p s)" and "quiescent (sys_q s)"
    and "system_step client s s1" and "pn_announced (sys_p s1) = pn_announced (sys_p s) @ [None]"
    and "(replica_step client)\<^sup>*\<^sup>* s1 s'" and "mgr_closedSubs (ns_m (pn_n (sys_p s'))) = []"
  shows "\<exists>ref c. mgr_activeIssuerRef (ns_m (pn_n (sys_p s))) = Some ref \<and>
    mgr_activeIssuerRef (ns_m (pn_n (sys_p s'))) = mgr_originalIssuerRef m \<and> quiescent (sys_q s') \<and>
    kc_Get client (wq_world (sys_q s')) (io_CertificateNamespace opts) (io_CertificateName opts) = Inr c \<and>
    cert_Spec c = desiredSpec d ref (io_CertificateNamespace opts)"
proof -
  let ?o = "mgr_originalIssuerRef m"
  have inv: "pn_inv ?o (sys_p s)" "sys_inv client d s" "dicp_opts d = opts"
    by (rule system_inv [OF assms(1,3,4,5)])+
  have inv1: "pn_inv ?o (sys_p s1)" "sys_inv client d s1"
    using system_inv [OF assms(1,3,4) rtranclp.rtrancl_into_rtrancl [OF assms(5,10)]] by blast+
  note same = withdrawal_announced [OF assms(10,11) inv(2)]
  have ow: "only_withdrawals (pn_received (sys_p s)) (wq_world (sys_q s)) s1"
    using assms(7,9,11) same by (simp add: only_withdrawals_def)
  from only_withdrawals_run [OF assms(12,13) this inv1(1) assms(2) inv1(2) assms(4)]
  have ow': "only_withdrawals (pn_received (sys_p s)) (wq_world (sys_q s)) s'" and inv': "pn_inv ?o (sys_p s')" by simp_all
  have "mgr_closedSubs (ns_m (pn_n (sys_p s))) = []"
    by (rule closed_before_run [OF converse_rtranclp_into_rtranclp [OF assms(10) own_system [OF assms(12)]] assms(13)])
  from at_rest_follows [OF inv(1) assms(2) inv(2) this assms(6-9)] ow' inv' assms(2,13) inv(3) show ?thesis
    by (auto simp: only_withdrawals_def pn_inv_def)
qed


theorem withdrawal_not_reconciled_witness:
  "\<exists>s c. (system_step (map_client cert_key))\<^sup>*\<^sup>* (istiod_system_init demo_manager1 demo_dicp Map.empty) s \<and>
     pn_received (sys_p s) = [Some vault_ref, None] \<and> mgr_activeIssuerRef (ns_m (pn_n (sys_p s))) = Some demo_ref \<and>
     kc_Get (map_client cert_key) (wq_world (sys_q s)) ''istio-system'' ''istiod-dynamic'' = Inr c \<and>
     cs_IssuerRef (cert_Spec c) = vault_ref"
proof -
  let ?c = "map_client cert_key"
  let ?p = "stage vault_ref [] [] (handleNewIssuer (Istiod_Start demo_dicp []) (Some vault_ref)) [Some vault_ref] [Some vault_ref]"
  obtain q where run: "(system_step ?c)\<^sup>*\<^sup>* (istiod_system_init demo_manager1 demo_dicp Map.empty) \<lparr>sys_p = ?p, sys_q = q\<rparr>"
    and q: "quiescent q" using demo_at_rest by blast
  let ?s = "\<lparr>sys_p = ?p, sys_q = q\<rparr>"
  have o: "mgr_originalIssuerRef demo_manager = Some demo_ref" by (simp add: demo_manager_def)
  then have o': "mgr_originalIssuerRef demo_manager \<noteq> None" by simp
  have s: "mgr_closedSubs (ns_m (pn_n (sys_p ?s))) = []" "pn_running (sys_p ?s)"
    "pn_received (sys_p ?s) = pn_announced (sys_p ?s)" "not_withdrawn (sys_p ?s)" "quiescent (sys_q ?s)"
    using q by (simp_all add: not_withdrawn_def stage_manager)
  have "pn_inv (mgr_originalIssuerRef demo_manager) (sys_p ?s)"
    by (rule system_inv(1) [OF demo_manager_new demo_istiod_new demo_istiod_law run])
  from withdrawal_happens [OF this o' s(1-3), of ?c]
  obtain s1 s' where w: "system_step ?c ?s s1" "pn_announced (sys_p s1) = pn_announced (sys_p ?s) @ [None]"
    "(replica_step ?c)\<^sup>*\<^sup>* s1 s'" "mgr_closedSubs (ns_m (pn_n (sys_p s'))) = []"
    "pn_received (sys_p s') = pn_announced (sys_p ?s) @ [None]" by blast
  have run': "(system_step ?c)\<^sup>*\<^sup>* (istiod_system_init demo_manager1 demo_dicp Map.empty) s'"
    by (rule rtranclp_trans [OF rtranclp.rtrancl_into_rtrancl [OF run w(1)] own_system [OF w(3)]])
  have active: "mgr_activeIssuerRef (ns_m (pn_n (sys_p ?s))) = Some vault_ref" by (simp add: stage_manager)
  from withdrawal_not_reconciled [OF demo_manager_new o' demo_istiod_new demo_istiod_law run s(2-5) w(1-4)]
  obtain c where c: "mgr_activeIssuerRef (ns_m (pn_n (sys_p s'))) = Some demo_ref"
    "kc_Get ?c (wq_world (sys_q s')) (io_CertificateNamespace demo_istiod_opts) (io_CertificateName demo_istiod_opts) = Inr c"
    "cert_Spec c = desiredSpec demo_dicp vault_ref (io_CertificateNamespace demo_istiod_opts)"
    unfolding active o by blast
  have "pn_received (sys_p s') = [Some vault_ref, None]" using w(5) by (simp add: stage_manager)
  with run' c show ?thesis
    by (intro exI [of _ s'] exI [of _ c]) (simp add: demo_istiod_opts_def desiredSpec_def case_prod_beta)
qed

end
