(* ===== verification/Server_Run.thy ===== *)
theory Server_Run
  imports Server "HOL-Library.Multiset"
begin

text \<open>
  \<open>Start\<close> of \<open>pkg/server/server.go\<close> as a step relation: the function itself, the goroutine it starts
  for a graceful stop, and the calls of \<open>CreateCertificate\<close> the gRPC server runs meanwhile, each in
  a goroutine of its own. Of \<open>google.golang.org/grpc\<close> it has what the documentation says of \<open>Serve\<close>
  and \<open>GracefulStop\<close>.
\<close>

section \<open>Model\<close>

text \<open>
  A call of the service: its context and request, and what it meets: the manager at the time it
  takes the lock, the cluster, the rounds of \<open>RootCAs\<close> and the error of its context.
\<close>

record ('ctx, 'w, 'c) service_call =
  sc_ctx :: 'ctx
  sc_icr :: IstioCertificateRequest
  sc_manager :: manager
  sc_cluster :: "'w cluster"
  sc_polls :: "'c poll list"
  sc_ctxErr :: error

definition handle_call ::
  "'url auth_env \<Rightarrow> 'c pki_env \<Rightarrow> 'w cm_env \<Rightarrow> 'ctx Server \<Rightarrow> ('ctx, 'w, 'c) service_call
   \<Rightarrow> (code + string list) go" where
  "handle_call env pki cmenv s q =
     fst (CreateCertificate env pki (Sign cmenv (sc_manager q)) (Provider_RootCAs (sc_polls q))
            (sc_ctxErr q) s (sc_cluster q) (sc_ctx q) (sc_icr q))"

text \<open>
  The program points of \<open>Start\<close> and of the goroutine that stops the server. \<open>Serving\<close> is inside
  \<open>Serve\<close>, \<open>Draining\<close> inside \<open>GracefulStop\<close>; \<open>Crashed\<close> is the end of the process by a panic.
\<close>

datatype start_pc =
  AtConfig | AtRegister | AtListen | AtReady | AtServe | Serving | StartReturned "error option" | Crashed

datatype stop_pc = NotStarted | AwaitDone | AtGracefulStop | Draining | Stopped

text \<open>
  \<open>st_calls\<close> are the calls in flight, \<open>st_accepted\<close> and \<open>st_answered\<close> the history of calls accepted
  and of answers given; \<open>st_open\<close> says that \<open>Serve\<close> has begun to accept connections.
\<close>

record 'q start_state =
  st_main :: start_pc
  st_stop :: stop_pc
  st_ready :: bool
  st_cancelled :: bool
  st_open :: bool
  st_calls :: "'q list"
  st_accepted :: "'q list"
  st_answered :: "('q \<times> (code + string list)) list"

definition start_init :: "'q start_state" where
  "start_init = \<lparr>st_main = AtConfig, st_stop = NotStarted, st_ready = False, st_cancelled = False,
     st_open = False, st_calls = [], st_accepted = [], st_answered = []\<rparr>"

definition ErrServerStopped :: error where
  "ErrServerStopped = Errorf ''grpc: the server has been stopped''"

text \<open>
  The steps. The errors of reading the TLS configuration, of registering the metrics and of
  listening are arguments, \<open>handle\<close> is what a call ends with. \<open>Serve\<close> returns \<open>ErrServerStopped\<close>
  when it is called after \<open>GracefulStop\<close>, an error when the listener fails, and nil after a
  graceful stop that is complete. \<open>GracefulStop\<close> refuses new calls and returns when no call is in
  flight. A call that panics ends the process; one that is blocked makes no step.
\<close>

inductive start_step ::
  "error option \<Rightarrow> error option \<Rightarrow> error option \<Rightarrow> ('q \<Rightarrow> (code + string list) go)
   \<Rightarrow> 'q start_state \<Rightarrow> 'q start_state \<Rightarrow> bool"
  for configErr registerErr listenErr handle where
  config_err: "st_main s = AtConfig \<Longrightarrow> configErr = Some err \<Longrightarrow>
    start_step configErr registerErr listenErr handle s (s\<lparr>st_main := StartReturned (Some err)\<rparr>)"
| config_ok: "st_main s = AtConfig \<Longrightarrow> configErr = None \<Longrightarrow>
    start_step configErr registerErr listenErr handle s (s\<lparr>st_main := AtRegister\<rparr>)"
| register_err: "st_main s = AtRegister \<Longrightarrow> registerErr = Some err \<Longrightarrow>
    start_step configErr registerErr listenErr handle s
      (s\<lparr>st_main := StartReturned (Some (Wrapf ''failed to register gRPC Prometheus metrics: %w'' err))\<rparr>)"
| register_ok: "st_main s = AtRegister \<Longrightarrow> registerErr = None \<Longrightarrow>
    start_step configErr registerErr listenErr handle s (s\<lparr>st_main := AtListen\<rparr>)"
| listen_err: "st_main s = AtListen \<Longrightarrow> listenErr = Some err \<Longrightarrow>
    start_step configErr registerErr listenErr handle s
      (s\<lparr>st_main := StartReturned (Some (Wrapf ''failed to listen %s: %v'' err))\<rparr>)"
| listen_ok: "st_main s = AtListen \<Longrightarrow> listenErr = None \<Longrightarrow>
    start_step configErr registerErr listenErr handle s (s\<lparr>st_main := AtReady, st_stop := AwaitDone\<rparr>)"
| set_ready: "st_main s = AtReady \<Longrightarrow>
    start_step configErr registerErr listenErr handle s (s\<lparr>st_main := AtServe, st_ready := True\<rparr>)"
| serve: "st_main s = AtServe \<Longrightarrow> st_stop s \<in> {AwaitDone, AtGracefulStop} \<Longrightarrow>
    start_step configErr registerErr listenErr handle s (s\<lparr>st_main := Serving, st_open := True\<rparr>)"
| serve_stopped: "st_main s = AtServe \<Longrightarrow> st_stop s \<in> {Draining, Stopped} \<Longrightarrow>
    start_step configErr registerErr listenErr handle s (s\<lparr>st_main := StartReturned (Some ErrServerStopped)\<rparr>)"
| serve_err: "st_main s = Serving \<Longrightarrow> st_stop s \<in> {AwaitDone, AtGracefulStop} \<Longrightarrow>
    start_step configErr registerErr listenErr handle s (s\<lparr>st_main := StartReturned (Some err)\<rparr>)"
| serve_returns: "st_main s = Serving \<Longrightarrow> st_stop s = Stopped \<Longrightarrow>
    start_step configErr registerErr listenErr handle s (s\<lparr>st_main := StartReturned None\<rparr>)"
| cancel: "st_main s \<noteq> Crashed \<Longrightarrow> \<not> st_cancelled s \<Longrightarrow>
    start_step configErr registerErr listenErr handle s (s\<lparr>st_cancelled := True\<rparr>)"
| clear_ready: "st_main s \<noteq> Crashed \<Longrightarrow> st_stop s = AwaitDone \<Longrightarrow> st_cancelled s \<Longrightarrow>
    start_step configErr registerErr listenErr handle s (s\<lparr>st_stop := AtGracefulStop, st_ready := False\<rparr>)"
| graceful_stop: "st_main s \<noteq> Crashed \<Longrightarrow> st_stop s = AtGracefulStop \<Longrightarrow>
    start_step configErr registerErr listenErr handle s (s\<lparr>st_stop := Draining\<rparr>)"
| drained: "st_main s \<noteq> Crashed \<Longrightarrow> st_stop s = Draining \<Longrightarrow> st_calls s = [] \<Longrightarrow>
    start_step configErr registerErr listenErr handle s (s\<lparr>st_stop := Stopped\<rparr>)"
| accept: "st_main s \<noteq> Crashed \<Longrightarrow> st_open s \<Longrightarrow> st_stop s \<in> {AwaitDone, AtGracefulStop} \<Longrightarrow>
    start_step configErr registerErr listenErr handle s
      (s\<lparr>st_calls := st_calls s @ [q], st_accepted := st_accepted s @ [q]\<rparr>)"
| answer: "st_main s \<noteq> Crashed \<Longrightarrow> st_calls s = xs @ q # ys \<Longrightarrow> handle q = Return r \<Longrightarrow>
    start_step configErr registerErr listenErr handle s
      (s\<lparr>st_calls := xs @ ys, st_answered := st_answered s @ [(q, r)]\<rparr>)"
| panics: "st_main s \<noteq> Crashed \<Longrightarrow> q \<in> set (st_calls s) \<Longrightarrow> handle q = Panic \<Longrightarrow>
    start_step configErr registerErr listenErr handle s (s\<lparr>st_main := Crashed\<rparr>)"

inductive_simps start_step_simps: "start_step ce re le handle s s'"

section \<open>The invariant\<close>

text \<open>
  Every call accepted is in flight or answered, with what the handler gave, and after the stop none is
  in flight; the flag \<open>ready\<close> was set only on the way to \<open>Serve\<close>, which returns nil only after a
  complete stop.
\<close>

definition calls_inv :: "('q \<Rightarrow> (code + string list) go) \<Rightarrow> 'q start_state \<Rightarrow> bool" where
  "calls_inv handle s \<longleftrightarrow>
     mset (st_accepted s) = mset (st_calls s) + mset (map fst (st_answered s)) \<and>
     (\<forall>(q, r) \<in> set (st_answered s). handle q = Return r) \<and>
     (st_stop s = Stopped \<longrightarrow> st_calls s = [])"

definition control_inv :: "'q start_state \<Rightarrow> bool" where
  "control_inv s \<longleftrightarrow>
     (st_main s = StartReturned None \<longrightarrow> st_stop s = Stopped) \<and>
     (st_ready s \<longrightarrow> st_main s \<notin> {AtConfig, AtRegister, AtListen, AtReady}) \<and>
     (st_main s \<in> {AtConfig, AtRegister, AtListen} \<longrightarrow> st_stop s = NotStarted) \<and>
     (st_main s \<in> {AtReady, AtServe, Serving} \<longrightarrow> st_stop s \<noteq> NotStarted) \<and>
     (st_stop s \<in> {AtGracefulStop, Draining, Stopped} \<longrightarrow> st_cancelled s)"

lemma calls_inv_step:
  assumes "start_step ce re le handle s s'" "calls_inv handle s"
  shows "calls_inv handle s'"
  using assms(1)
proof cases
  case (accept q)
  then show ?thesis using assms(2) by (auto simp: calls_inv_def)
qed (use assms(2) in \<open>simp_all add: calls_inv_def\<close>)

lemma answered_handled: "calls_inv handle s \<Longrightarrow> (q, r) \<in> set (st_answered s) \<Longrightarrow> handle q = Return r"
  by (auto simp: calls_inv_def)

lemma control_inv_step:
  assumes "start_step ce re le handle s s'" "control_inv s"
  shows "control_inv s'"
  using assms(1) by cases (use assms(2) in \<open>simp_all add: control_inv_def\<close>)

abbreviation start_inv :: "('q \<Rightarrow> (code + string list) go) \<Rightarrow> 'q start_state \<Rightarrow> bool" where
  "start_inv handle s \<equiv> calls_inv handle s \<and> control_inv s"

lemma start_inv_step: "start_step ce re le handle s s' \<Longrightarrow> start_inv handle s \<Longrightarrow> start_inv handle s'"
  using calls_inv_step control_inv_step by blast

lemma start_inv_init: "start_inv handle start_init"
  by (simp add: calls_inv_def control_inv_def start_init_def)

lemma start_inv_reach: "(start_step ce re le handle)\<^sup>*\<^sup>* start_init s \<Longrightarrow> start_inv handle s"
  by (induction rule: rtranclp_induct) (use start_inv_init start_inv_step in blast)+

text \<open>What is left to do once \<open>GracefulStop\<close> has begun.\<close>

fun main_left :: "start_pc \<Rightarrow> nat" where
  "main_left AtReady = 4"
| "main_left AtServe = 3"
| "main_left Serving = 2"
| "main_left (StartReturned e) = 1"
| "main_left Crashed = 0"
| "main_left _ = 5"

definition drain_left :: "'q start_state \<Rightarrow> nat" where
  "drain_left s = length (st_calls s) + (if st_stop s = Draining then 1 else 0) + main_left (st_main s)"

lemma main_left_0: "main_left pc = 0 \<longleftrightarrow> pc = Crashed"
  by (cases pc) auto

lemma drain_step:
  assumes "start_step ce re le handle s s'" "start_inv handle s" "st_stop s \<in> {Draining, Stopped}"
  shows "st_stop s' \<in> {Draining, Stopped} \<and> st_accepted s' = st_accepted s \<and> drain_left s' < drain_left s"
  using assms(1)
proof cases
  case (panics q)
  with assms(3) main_left_0 [of "st_main s"] show ?thesis by (simp add: drain_left_def)
next
  case cancel
  with assms(2,3) show ?thesis by (auto simp: calls_inv_def control_inv_def)
next
  case (accept q)
  with assms(3) show ?thesis by auto
qed (use assms(2,3) in \<open>simp_all add: calls_inv_def control_inv_def drain_left_def\<close>)

lemma drain_run:
  assumes "(start_step ce re le handle ^^ n) s s'" "start_inv handle s" "st_stop s \<in> {Draining, Stopped}"
  shows "start_inv handle s' \<and> st_stop s' \<in> {Draining, Stopped} \<and> st_accepted s' = st_accepted s \<and>
    drain_left s' + n \<le> drain_left s"
  using assms(1)
proof (induction n arbitrary: s')
  case 0
  then show ?case using assms(2,3) by simp
next
  case (Suc n)
  then obtain s1 where s1: "(start_step ce re le handle ^^ n) s s1" "start_step ce re le handle s1 s'"
    by (auto elim: relpowp_Suc_E)
  from Suc.IH [OF s1(1)] drain_step [OF s1(2)] start_inv_step [OF s1(2)] show ?case by force
qed

lemma drain_stuck:
  assumes "start_inv handle s" "st_stop s \<in> {Draining, Stopped}" "st_main s \<noteq> Crashed"
    "\<And>q. q \<in> set (st_calls s) \<Longrightarrow> handle q \<noteq> Blocked" "\<And>s'. \<not> start_step ce re le handle s s'"
  shows "st_stop s = Stopped \<and> st_calls s = [] \<and> (\<exists>e. st_main s = StartReturned e)"
proof -
  have c: "st_calls s = []"
  proof (rule ccontr)
    assume "st_calls s \<noteq> []"
    then obtain q qs where q: "st_calls s = q # qs" by (cases "st_calls s") auto
    then have "handle q \<noteq> Blocked" by (intro assms(4)) simp
    then show False
    proof (cases "handle q")
      case (Return r)
      from start_step.answer [of s "[]" q qs handle r ce re le] this assms(3,5) q show False by simp
    next
      case Panic
      from start_step.panics [of s q handle ce re le] this assms(3,5) q show False by simp
    qed simp
  qed
  have stop: "st_stop s = Stopped" using assms(2,3,5) c start_step.drained [of s ce re le handle] by auto
  have "\<exists>e. st_main s = StartReturned e"
    using assms(1,3,5) stop start_step.set_ready [of s ce re le handle] start_step.serve_stopped [of s ce re le handle]
      start_step.serve_returns [of s ce re le handle]
    by (cases "st_main s") (auto simp: calls_inv_def control_inv_def)
  with c stop show ?thesis by blast
qed

section \<open>Properties\<close>

lemma handle_call_chain:
  assumes "handle_call env pki cmenv srv q = Return (Inr chain)"
  shows "\<exists>ids r. authRequest env srv (sc_ctx q) (sc_icr q) = Return (ids, True) \<and>
    Provider_RootCAs (sc_polls q) = Return (Some r) \<and> last chain = rc_PEM r"
proof -
  obtain st' where c: "CreateCertificate env pki (Sign cmenv (sc_manager q)) (Provider_RootCAs (sc_polls q))
      (sc_ctxErr q) srv (sc_cluster q) (sc_ctx q) (sc_icr q) = (Return (Inr chain), st')"
    using assms by (auto simp: handle_call_def prod_eq_iff)
  then obtain ids where a: "authRequest env srv (sc_ctx q) (sc_icr q) = Return (ids, True)"
    by (auto simp: CreateCertificate_def split: go.splits prod.splits if_splits)
  show ?thesis
  proof (rule svc.answer_verified [OF c])
    fix b r
    assume p: "parseCertificateBundle pki (Provider_RootCAs (sc_polls q)) (sc_ctxErr q) b = Return (Inr chain)"
      and r: "Provider_RootCAs (sc_polls q) = Return (Some r)"
    have "last chain = rc_PEM r" by (rule parseCertificateBundle_Inr [OF p [unfolded r]]) simp
    with a r show ?thesis by blast
  qed
qed

text \<open>
  C20: No call is lost. Whatever the order in which calls arrive, the context ends and the goroutines
  run: when \<open>Start\<close> returns nil, every call the server ever accepted has been answered, with what
  \<open>CreateCertificate\<close> returned for it, and a chain only to a caller that was authenticated, ending
  with the roots of the mesh. In every state, the calls accepted are those in flight and those
  answered, and calls arrive only after the listener was opened.
\<close>

theorem graceful_drain:
  assumes "(start_step ce re le (handle_call env pki cmenv srv))\<^sup>*\<^sup>* start_init s"
  shows "mset (st_accepted s) = mset (st_calls s) + mset (map fst (st_answered s)) \<and>
    (st_main s = StartReturned None \<longrightarrow> st_calls s = [] \<and> st_cancelled s) \<and>
    (\<forall>(q, r) \<in> set (st_answered s). handle_call env pki cmenv srv q = Return r \<and>
       (\<forall>chain. r = Inr chain \<longrightarrow> (\<exists>ids roots. authRequest env srv (sc_ctx q) (sc_icr q) = Return (ids, True) \<and>
          Provider_RootCAs (sc_polls q) = Return (Some roots) \<and> last chain = rc_PEM roots)))"
proof -
  have inv: "start_inv (handle_call env pki cmenv srv) s" by (rule start_inv_reach [OF assms])
  then have h: "handle_call env pki cmenv srv q = Return r" if "(q, r) \<in> set (st_answered s)" for q r
    by (rule answered_handled [OF conjunct1 that])
  show ?thesis
  proof (intro conjI ballI)
    fix x
    assume x: "x \<in> set (st_answered s)"
    obtain q r where qr: "x = (q, r)" by (cases x)
    from x have hx: "handle_call env pki cmenv srv q = Return r" unfolding qr by (rule h)
    show "case x of (q, r) \<Rightarrow> handle_call env pki cmenv srv q = Return r \<and>
       (\<forall>chain. r = Inr chain \<longrightarrow> (\<exists>ids roots. authRequest env srv (sc_ctx q) (sc_icr q) = Return (ids, True) \<and>
          Provider_RootCAs (sc_polls q) = Return (Some roots) \<and> last chain = rc_PEM roots))"
      unfolding qr prod.case by (intro conjI allI impI handle_call_chain [of env pki cmenv]) (simp_all only: hx)
  qed (use inv in \<open>simp_all add: calls_inv_def control_inv_def\<close>)
qed

definition demo_call :: "(unit, unit, string) service_call" where
  "demo_call = \<lparr>sc_ctx = (), sc_icr = demo_icr, sc_manager = demo_manager, sc_cluster = demo_cluster,
     sc_polls = [PollTick world_root], sc_ctxErr = Errorf ''context canceled''\<rparr>"

lemma demo_call_signed:
  "handle_call world_auth world_pki demo_env world_server demo_call = Return (Inr [''cert'', ''root''])"
  by (simp only: handle_call_def demo_call_def service_call.select_convs world_answers)

text \<open>A run in which the context is done while a call is in flight.\<close>

definition demo_drain :: "start_pc \<Rightarrow> stop_pc \<Rightarrow> bool \<Rightarrow> (unit, unit, string) service_call start_state" where
  "demo_drain m t answered = \<lparr>st_main = m, st_stop = t, st_ready = False, st_cancelled = True, st_open = True,
     st_calls = (if answered then [] else [demo_call]), st_accepted = [demo_call],
     st_answered = (if answered then [(demo_call, Inr [''cert'', ''root''])] else [])\<rparr>"

lemma demo_drain_begins:
  "(start_step None None None (handle_call world_auth world_pki demo_env world_server))\<^sup>*\<^sup>* start_init (demo_drain Serving Draining False)"
proof -
  let ?R = "start_step None None None (handle_call world_auth world_pki demo_env world_server)"
  let ?s = "\<lambda>m t r c op qs. \<lparr>st_main = m, st_stop = t, st_ready = r, st_cancelled = c, st_open = op,
    st_calls = qs, st_accepted = qs, st_answered = []\<rparr>"
  have "?R start_init (?s AtRegister NotStarted False False False [])"
    and "?R (?s AtRegister NotStarted False False False []) (?s AtListen NotStarted False False False [])"
    and "?R (?s AtListen NotStarted False False False []) (?s AtReady AwaitDone False False False [])"
    and "?R (?s AtReady AwaitDone False False False []) (?s AtServe AwaitDone True False False [])"
    and "?R (?s AtServe AwaitDone True False False []) (?s Serving AwaitDone True False True [])"
    and "?R (?s Serving AwaitDone True False True []) (?s Serving AwaitDone True False True [demo_call])"
    and "?R (?s Serving AwaitDone True False True [demo_call]) (?s Serving AwaitDone True True True [demo_call])"
    and "?R (?s Serving AwaitDone True True True [demo_call]) (?s Serving AtGracefulStop False True True [demo_call])"
    and "?R (?s Serving AtGracefulStop False True True [demo_call]) (demo_drain Serving Draining False)"
    by (simp_all add: start_init_def start_step_simps demo_drain_def)
  then show ?thesis by (meson converse_rtranclp_into_rtranclp rtranclp.rtrancl_refl)
qed

lemma demo_drain_ends:
  "(start_step None None None (handle_call world_auth world_pki demo_env world_server) ^^ 3)
     (demo_drain Serving Draining False) (demo_drain (StartReturned None) Stopped True)"
proof -
  let ?R = "start_step None None None (handle_call world_auth world_pki demo_env world_server)"
  have "?R (demo_drain Serving Draining False) (demo_drain Serving Draining True)"
    using start_step.answer [of "demo_drain Serving Draining False" "[]" demo_call "[]"
        "handle_call world_auth world_pki demo_env world_server" "Inr [''cert'', ''root'']"] demo_call_signed
    by (simp add: demo_drain_def)
  moreover have "?R (demo_drain Serving Draining True) (demo_drain Serving Stopped True)"
    and "?R (demo_drain Serving Stopped True) (demo_drain (StartReturned None) Stopped True)"
    by (simp_all add: start_step_simps demo_drain_def)
  ultimately show ?thesis by (auto simp: numeral_3_eq_3)
qed

theorem graceful_drain_witness:
  "\<exists>s :: (unit, unit, string) service_call start_state. st_main s = StartReturned None \<and> st_accepted s = [demo_call] \<and> st_calls s = [] \<and>
     (\<forall>(q, r) \<in> set (st_answered s). handle_call world_auth world_pki demo_env world_server q = Return r) \<and>
     st_answered s \<noteq> []"
proof -
  have r: "(start_step None None None (handle_call world_auth world_pki demo_env world_server))\<^sup>*\<^sup>* start_init
      (demo_drain (StartReturned None) Stopped True)"
    by (rule rtranclp_trans [OF demo_drain_begins relpowp_imp_rtranclp [OF demo_drain_ends]])
  let ?s = "demo_drain (StartReturned None) Stopped True"
  have "st_main ?s = StartReturned None" "st_accepted ?s = [demo_call]" "st_answered ?s \<noteq> []"
    by (simp_all add: demo_drain_def)
  then show ?thesis using graceful_drain [OF r] by (intro exI [of _ ?s]) auto
qed

text \<open>
  C21: A graceful stop ends. From the moment \<open>GracefulStop\<close> has begun, no further call is accepted and
  the server makes at most five steps more than there are calls in flight; and when it can make
  none, then unless a call crashed the process or is blocked, no call is in flight, the stop is
  complete and \<open>Start\<close> has returned.
\<close>

theorem graceful_stop_ends:
  assumes "(start_step ce re le (handle_call env pki cmenv srv))\<^sup>*\<^sup>* start_init s"
    and "st_stop s \<in> {Draining, Stopped}"
    and "(start_step ce re le (handle_call env pki cmenv srv) ^^ n) s s'"
  shows "n \<le> length (st_calls s) + 5 \<and> st_accepted s' = st_accepted s \<and>
    ((\<forall>s2. \<not> start_step ce re le (handle_call env pki cmenv srv) s' s2) \<longrightarrow>
       st_main s' = Crashed \<or> (\<exists>q \<in> set (st_calls s'). handle_call env pki cmenv srv q = Blocked) \<or>
       st_calls s' = [] \<and> st_stop s' = Stopped \<and> (\<exists>e. st_main s' = StartReturned e))"
proof -
  have inv: "start_inv (handle_call env pki cmenv srv) s" by (rule start_inv_reach [OF assms(1)])
  then have "drain_left s \<le> length (st_calls s) + 5"
    using assms(2) by (cases "st_main s") (auto simp: drain_left_def control_inv_def)
  moreover note run = drain_run [OF assms(3) inv assms(2)]
  ultimately have "n \<le> length (st_calls s) + 5" by linarith
  moreover have "st_calls s' = [] \<and> st_stop s' = Stopped \<and> (\<exists>e. st_main s' = StartReturned e)"
    if "\<forall>s2. \<not> start_step ce re le (handle_call env pki cmenv srv) s' s2" "st_main s' \<noteq> Crashed"
      "\<not> (\<exists>q \<in> set (st_calls s'). handle_call env pki cmenv srv q = Blocked)"
    using drain_stuck [of "handle_call env pki cmenv srv" s' ce re le] run that by simp
  ultimately show ?thesis using run by blast
qed

theorem graceful_stop_ends_witness:
  "\<exists>s s'. (start_step None None None (handle_call world_auth world_pki demo_env world_server) ^^ 3) s s' \<and>
     st_stop s = Draining \<and> length (st_calls s) = 1 \<and> st_accepted s' = st_accepted s"
proof -
  let ?s = "demo_drain Serving Draining False" and ?s' = "demo_drain (StartReturned None) Stopped True"
  have d: "st_stop ?s \<in> {Draining, Stopped}" by (simp add: demo_drain_def)
  have "st_accepted ?s' = st_accepted ?s" using graceful_stop_ends [OF demo_drain_begins d demo_drain_ends] by (elim conjE)
  moreover have "st_stop ?s = Draining \<and> length (st_calls ?s) = 1" by (simp add: demo_drain_def)
  ultimately show ?thesis using demo_drain_ends by blast
qed

text \<open>
  The server reports ready only after its listener is open and \<open>Start\<close> has got to serving. It may,
  however, stay ready after it has stopped: when the context is done before the flag is set, the
  goroutine that clears it runs first.
\<close>

lemma ready_flag:
  "(\<forall>s. (start_step ce re le handle)\<^sup>*\<^sup>* start_init s \<longrightarrow> st_ready s \<longrightarrow>
      st_main s \<notin> {AtConfig, AtRegister, AtListen, AtReady}) \<and>
   (\<exists>s. (start_step None None None handle)\<^sup>*\<^sup>* start_init s \<and>
      st_main s = StartReturned (Some ErrServerStopped) \<and> st_stop s = Stopped \<and> st_ready s)"
proof -
  let ?R = "start_step None None None handle"
  let ?s = "\<lambda>m t r. \<lparr>st_main = m, st_stop = t, st_ready = r, st_cancelled = True, st_open = False,
    st_calls = [], st_accepted = [], st_answered = []\<rparr>"
  let ?e = "?s (StartReturned (Some ErrServerStopped)) Stopped True"
  have "?R start_init (?s AtConfig NotStarted False)"
    and "?R (?s AtConfig NotStarted False) (?s AtRegister NotStarted False)"
    and "?R (?s AtRegister NotStarted False) (?s AtListen NotStarted False)"
    and "?R (?s AtListen NotStarted False) (?s AtReady AwaitDone False)"
    and "?R (?s AtReady AwaitDone False) (?s AtReady AtGracefulStop False)"
    and "?R (?s AtReady AtGracefulStop False) (?s AtReady Draining False)"
    and "?R (?s AtReady Draining False) (?s AtReady Stopped False)"
    and "?R (?s AtReady Stopped False) (?s AtServe Stopped True)"
    and "?R (?s AtServe Stopped True) ?e"
    by (simp_all add: start_init_def start_step_simps)
  then have run: "?R\<^sup>*\<^sup>* start_init ?e"
    by (meson converse_rtranclp_into_rtranclp rtranclp.rtrancl_refl)
  have "st_main ?e = StartReturned (Some ErrServerStopped) \<and> st_stop ?e = Stopped \<and> st_ready ?e" by simp
  with run have "\<exists>s. ?R\<^sup>*\<^sup>* start_init s \<and> st_main s = StartReturned (Some ErrServerStopped) \<and> st_stop s = Stopped \<and> st_ready s"
    by blast
  moreover have "st_main s \<notin> {AtConfig, AtRegister, AtListen, AtReady}"
    if "(start_step ce re le handle)\<^sup>*\<^sup>* start_init s" "st_ready s" for s
    using start_inv_reach [OF that(1)] that(2) by (simp add: control_inv_def)
  ultimately show ?thesis by blast
qed

end
