(* ===== verification/Rootca_Watch.thy ===== *)
theory Rootca_Watch
  imports Rootca
begin

text \<open>
  The watcher of \<open>pkg/tls/rootca/rootca.go\<close> together with the file it watches, as a step relation:
  others write, replace and rename the file at any moment, the goroutine of \<open>Watch\<close> takes events and
  reads the file as it is then. Of \<open>fsnotify\<close> the relation has what its documentation says: a watch
  reports what happens to the file from the moment it was added, and it is removed when the file is
  deleted or renamed.
\<close>

section \<open>Model\<close>

text \<open>
  The program points: \<open>Watch\<close> before it reads the file and before it adds the watch, then the goroutine
  at its \<open>select\<close>, before it renews the watch and before it reads the file again.
\<close>

datatype 'c file_pc = AtLoad | AtAdd "'c RootCAs" | WatchError error | AtFsSelect | AtRearm | AtReload

record 'c file_watch =
  fw_file :: "error + string"
  fw_armed :: bool
  fw_events :: "fs_flag set list"
  fw_pc :: "'c file_pc"
  fw_state :: "'c watch_state"

definition file_watch_init :: "error + string \<Rightarrow> 'c file_watch" where
  "file_watch_init file =
     \<lparr>fw_file = file, fw_armed = False, fw_events = [], fw_pc = AtLoad, fw_state = (\<lparr>w_rootCAsPEM = []\<rparr>, [])\<rparr>"

text \<open>What an event makes the goroutine do next.\<close>

definition on_event :: "fs_flag set \<Rightarrow> 'c file_pc" where
  "on_event op = (if op = {Remove} then AtRearm else if Write \<in> op then AtReload else AtFsSelect)"

text \<open>An event is reported while the watch is in place.\<close>

definition report :: "fs_flag set \<Rightarrow> 'c file_watch \<Rightarrow> 'c file_watch" where
  "report op s = (if fw_armed s then s\<lparr>fw_events := fw_events s @ [op]\<rparr> else s)"

text \<open>The steps of \<open>Watch\<close> and of its goroutine.\<close>

inductive watch_step :: "'c decoder \<Rightarrow> 'c file_watch \<Rightarrow> 'c file_watch \<Rightarrow> bool" for decode where
  load: "fw_pc s = AtLoad \<Longrightarrow> loadRootCAsFile decode (fst (fw_state s)) (fw_file s) = Inr (True, r) \<Longrightarrow>
    watch_step decode s (s\<lparr>fw_pc := AtAdd r\<rparr>)"
| load_empty: "fw_pc s = AtLoad \<Longrightarrow> loadRootCAsFile decode (fst (fw_state s)) (fw_file s) = Inr (False, r) \<Longrightarrow>
    watch_step decode s (s\<lparr>fw_pc := WatchError (Errorf ''root CA bundle is empty'')\<rparr>)"
| load_err: "fw_pc s = AtLoad \<Longrightarrow> loadRootCAsFile decode (fst (fw_state s)) (fw_file s) = Inl err \<Longrightarrow>
    watch_step decode s (s\<lparr>fw_pc := WatchError (Wrapf ''failed to load root CA bundle: %w'' err)\<rparr>)"
| add: "fw_pc s = AtAdd r \<Longrightarrow>
    watch_step decode s (s\<lparr>fw_pc := AtFsSelect, fw_armed := True, fw_state := (\<lparr>w_rootCAsPEM = rc_PEM r\<rparr>, [r])\<rparr>)"
| add_err: "fw_pc s = AtAdd r \<Longrightarrow> msg \<in> {''failed to create file watch: %w'', ''failed to add root CAs file for watching %q: %w''} \<Longrightarrow>
    watch_step decode s (s\<lparr>fw_pc := WatchError (Wrapf msg err)\<rparr>)"
| take_event: "fw_pc s = AtFsSelect \<Longrightarrow> fw_events s = op # ops \<Longrightarrow>
    watch_step decode s (s\<lparr>fw_events := ops, fw_pc := on_event op\<rparr>)"
| rearm: "fw_pc s = AtRearm \<Longrightarrow>
    watch_step decode s (s\<lparr>fw_armed := (addErr = (None :: error option)), fw_pc := AtReload\<rparr>)"
| reload: "fw_pc s = AtReload \<Longrightarrow>
    watch_step decode s (s\<lparr>fw_state := reloadConfig decode (fw_file s) (fw_state s), fw_pc := AtFsSelect\<rparr>)"

text \<open>What others do to the file, and what the watch makes of it.\<close>

inductive file_change :: "'c file_watch \<Rightarrow> 'c file_watch \<Rightarrow> bool" where
  written: "file_change s (report {Write} (s\<lparr>fw_file := new\<rparr>))"
| noise: "op \<inter> {Write, Remove, Rename} = {} \<Longrightarrow> file_change s (report op s)"
| gone: "op = {Remove} \<or> op = {Rename} \<Longrightarrow>
    file_change s ((report op (s\<lparr>fw_file := new\<rparr>))\<lparr>fw_armed := False\<rparr>)"

definition file_step :: "'c decoder \<Rightarrow> 'c file_watch \<Rightarrow> 'c file_watch \<Rightarrow> bool" where
  "file_step decode s s' \<longleftrightarrow> watch_step decode s s' \<or> file_change s s'"

lemma watch_step_file: "watch_step decode s s' \<Longrightarrow> file_step decode s s'"
  and file_change_file: "file_change s s' \<Longrightarrow> file_step decode s s'"
  by (simp_all add: file_step_def)

section \<open>The invariant\<close>

text \<open>
  The watcher knows the file, unless it is about to read it, an event that makes it do so waits, or
  the watch is gone.
\<close>

definition knows :: "'c decoder \<Rightarrow> error + string \<Rightarrow> 'c watch_state \<Rightarrow> bool" where
  "knows decode file ws \<longleftrightarrow>
     (\<forall>pem certs. file = Inr pem \<longrightarrow> decode pem = Inr certs \<longrightarrow> w_rootCAsPEM (fst ws) = pem)"

definition file_inv :: "'c decoder \<Rightarrow> 'c file_watch \<Rightarrow> bool" where
  "file_inv decode s \<longleftrightarrow>
     fw_pc s \<in> {AtFsSelect, AtRearm, AtReload} \<and>
     (fw_pc s = AtReload \<or> fw_pc s = AtRearm \<or> {Remove} \<in> set (fw_events s) \<or> (\<exists>op \<in> set (fw_events s). Write \<in> op) \<or>
      \<not> fw_armed s \<or> knows decode (fw_file s) (fw_state s))"


lemma watch_step_inv:
  assumes "watch_step decode s s'" "file_inv decode s"
  shows "file_inv decode s'"
  using assms(1)
proof cases
  case reload
  have "knows decode (fw_file s) (reloadConfig decode (fw_file s) (fw_state s))"
    by (simp add: knows_def reloadConfig_reads)
  with reload assms(2) show ?thesis by (simp add: file_inv_def)
next
  case (take_event op ops)
  with assms(2) show ?thesis by (auto simp: file_inv_def on_event_def)
qed (use assms(2) in \<open>auto simp: file_inv_def\<close>)

lemma file_change_inv: "file_change s s' \<Longrightarrow> file_inv decode s \<Longrightarrow> file_inv decode s'"
  by (erule file_change.cases) (auto simp: file_inv_def report_def)

lemma file_inv_step: "file_step decode s s' \<Longrightarrow> file_inv decode s \<Longrightarrow> file_inv decode s'"
  using watch_step_inv file_change_inv by (auto simp: file_step_def)

lemma file_inv_reach: "(file_step decode)\<^sup>*\<^sup>* s s' \<Longrightarrow> file_inv decode s \<Longrightarrow> file_inv decode s'"
  by (induction rule: rtranclp_induct) (auto intro: file_inv_step)

text \<open>The state right after the watch was added, with the file as \<open>Watch\<close> has read it.\<close>

definition file_watching :: "error + string \<Rightarrow> 'c watch_state \<Rightarrow> 'c file_watch" where
  "file_watching file ws =
     \<lparr>fw_file = file, fw_armed = True, fw_events = [], fw_pc = AtFsSelect, fw_state = ws\<rparr>"

lemma file_inv_watching:
  assumes "Watch decode file None None = Inr ws"
  shows "file_inv decode (file_watching file ws)"
proof -
  have "knows decode file ws"
    using assms by (auto simp: knows_def Watch_def loadRootCAsFile_def split: sum.splits if_splits)
  then show ?thesis by (simp add: file_inv_def file_watching_def)
qed

lemma watching_reached:
  assumes "Watch decode file None None = Inr ws"
  shows "(file_step decode)\<^sup>*\<^sup>* (file_watch_init file) (file_watching file ws)"
proof -
  obtain r where r: "loadRootCAsFile decode \<lparr>w_rootCAsPEM = []\<rparr> file = Inr (True, r)"
    and ws: "ws = (\<lparr>w_rootCAsPEM = rc_PEM r\<rparr>, [r])"
    using assms by (auto simp: Watch_def split: sum.splits if_splits)
  let ?s = "file_watch_init file :: 'a file_watch"
  have "watch_step decode ?s (?s\<lparr>fw_pc := AtAdd r\<rparr>)"
    using r by (intro watch_step.load) (simp_all add: file_watch_init_def)
  moreover have "watch_step decode (?s\<lparr>fw_pc := AtAdd r\<rparr>) (file_watching file ws)"
    using watch_step.add [of "?s\<lparr>fw_pc := AtAdd r\<rparr>" r decode] by (simp add: file_watch_init_def file_watching_def ws)
  ultimately show ?thesis by (meson watch_step_file r_into_rtranclp rtranclp.rtrancl_into_rtrancl)
qed

text \<open>The goroutine gets to rest: it takes one event after the other.\<close>

definition file_rest :: "'c file_watch \<Rightarrow> bool" where
  "file_rest s \<longleftrightarrow> fw_events s = [] \<and> fw_pc s = AtFsSelect"

definition file_effort :: "'c file_watch \<Rightarrow> nat" where
  "file_effort s = 3 * length (fw_events s) + (if fw_pc s = AtRearm then 2 else if fw_pc s = AtReload then 1 else 0)"

text \<open>The watch is in place, or a removal is still to be handled and makes the goroutine renew it.\<close>

definition watched :: "'c file_watch \<Rightarrow> bool" where
  "watched s \<longleftrightarrow> fw_armed s \<or> fw_pc s = AtRearm \<or> {Remove} \<in> set (fw_events s)"

lemma goroutine_advances:
  assumes "fw_pc s \<in> {AtFsSelect, AtRearm, AtReload}" "\<not> file_rest s"
  shows "\<exists>s'. watch_step decode s s' \<and> fw_pc s' \<in> {AtFsSelect, AtRearm, AtReload} \<and> fw_file s' = fw_file s \<and>
    (watched s \<longrightarrow> watched s') \<and> file_effort s' < file_effort s"
proof -
  consider "fw_pc s = AtRearm" | "fw_pc s = AtReload" | op ops where "fw_pc s = AtFsSelect" "fw_events s = op # ops"
    using assms by (cases "fw_events s") (auto simp: file_rest_def)
  then show ?thesis
  proof cases
    case 1
    with watch_step.rearm [OF 1, of decode None] show ?thesis
      by (intro exI [of _ "s\<lparr>fw_armed := True, fw_pc := AtReload\<rparr>"]) (simp add: file_effort_def watched_def)
  next
    case 2
    with watch_step.reload [OF 2, of decode] show ?thesis
      by (intro exI [of _ "s\<lparr>fw_state := reloadConfig decode (fw_file s) (fw_state s), fw_pc := AtFsSelect\<rparr>"])
        (simp add: file_effort_def watched_def)
  next
    case 3
    with watch_step.take_event [OF 3, of decode] show ?thesis
      by (intro exI [of _ "s\<lparr>fw_events := ops, fw_pc := on_event op\<rparr>"]) (auto simp: file_effort_def on_event_def watched_def)
  qed
qed

lemma rest_watched: "file_rest s \<Longrightarrow> watched s = fw_armed s"
  by (simp add: file_rest_def watched_def)

lemma goroutine_rests:
  fixes s :: "'c file_watch"
  assumes "fw_pc s \<in> {AtFsSelect, AtRearm, AtReload}"
  shows "\<exists>s'. (watch_step decode)\<^sup>*\<^sup>* s s' \<and> file_rest s' \<and> fw_file s' = fw_file s \<and> (watched s \<longrightarrow> fw_armed s')"
proof -
  let ?P = "\<lambda>t :: 'c file_watch. fw_pc t \<in> {AtFsSelect, AtRearm, AtReload} \<and> fw_file t = fw_file s \<and> (watched s \<longrightarrow> watched t)"
  have "\<exists>s'. (watch_step decode)\<^sup>*\<^sup>* s s' \<and> ?P s' \<and> file_rest s'"
  proof (rule measure_reaches [where m = file_effort])
    fix t :: "'c file_watch"
    assume t: "?P t" "\<not> file_rest t"
    then obtain t' where "watch_step decode t t'" "fw_pc t' \<in> {AtFsSelect, AtRearm, AtReload}" "fw_file t' = fw_file t"
      "watched t \<longrightarrow> watched t'" "file_effort t' < file_effort t"
      using goroutine_advances [of t decode] by blast
    with t(1) show "\<exists>t'. watch_step decode t t' \<and> ?P t' \<and> file_effort t' < file_effort t"
      by (intro exI [of _ t']) simp
  qed (use assms in simp)
  then show ?thesis using rest_watched by blast
qed

section \<open>Properties\<close>

text \<open>
  The watcher follows the file. Once \<open>Watch\<close> has read the file and added the watch with no change
  in between, then whatever others do to the file and however that interleaves with the goroutine,
  renewing the watch included: when no event waits and the watch is in place, the watcher has the
  content of the file, if that can be read and decoded; and from every state the goroutine alone can get
  there unless its watch is gone with no removal left to handle.
\<close>

lemma root_file_tracked:
  assumes "Watch decode file None None = Inr ws"
    and "(file_step decode)\<^sup>*\<^sup>* (file_watching file ws) s"
  shows "(file_rest s \<and> fw_armed s \<longrightarrow>
      (\<forall>pem certs. fw_file s = Inr pem \<longrightarrow> decode pem = Inr certs \<longrightarrow> w_rootCAsPEM (fst (fw_state s)) = pem)) \<and>
    (\<exists>s'. (watch_step decode)\<^sup>*\<^sup>* s s' \<and> file_rest s' \<and> fw_file s' = fw_file s \<and> (watched s \<longrightarrow> fw_armed s'))"
proof -
  have inv: "file_inv decode s" by (rule file_inv_reach [OF assms(2) file_inv_watching [OF assms(1)]])
  then have "fw_pc s \<in> {AtFsSelect, AtRearm, AtReload}" by (simp add: file_inv_def)
  from goroutine_rests [OF this, of decode] inv show ?thesis by (auto simp: file_inv_def file_rest_def knows_def)
qed

definition demo_decode :: "string decoder" where
  "demo_decode pem = Inr [pem]"

definition demo_watch :: "string watch_state" where
  "demo_watch = (\<lparr>w_rootCAsPEM = ''a''\<rparr>, [\<lparr>rc_PEM = ''a'', rc_CertPool = Some [''a'']\<rparr>])"

lemma demo_Watch: "Watch demo_decode (Inr ''a'') None None = Inr demo_watch"
  by (simp add: Watch_def loadRootCAsFile_def demo_decode_def demo_watch_def)

lemma unwatched_step:
  assumes "file_step decode s s'" "\<not> fw_armed s" "set (fw_events s) \<subseteq> {{Rename}}" "fw_pc s = AtFsSelect"
  shows "\<not> fw_armed s' \<and> set (fw_events s') \<subseteq> {{Rename}} \<and> fw_pc s' = AtFsSelect \<and> fw_state s' = fw_state s"
  using assms unfolding file_step_def by (elim disjE watch_step.cases file_change.cases) (auto simp: report_def on_event_def)

lemma unwatched_run:
  "(file_step decode)\<^sup>*\<^sup>* s s' \<Longrightarrow> \<not> fw_armed s \<and> set (fw_events s) \<subseteq> {{Rename}} \<and> fw_pc s = AtFsSelect \<Longrightarrow>
   \<not> fw_armed s' \<and> set (fw_events s') \<subseteq> {{Rename}} \<and> fw_pc s' = AtFsSelect \<and> fw_state s' = fw_state s"
proof (induction rule: rtranclp_induct)
  case (step s1 s2)
  with unwatched_step [of decode s1 s2] show ?case by simp
qed simp

text \<open>
  C37: A change can be missed at the start and after a rename. \<open>Watch\<close> reads the file before it adds
  the watch: a change in between is not reported, and the watcher rests, its watch in place, with the
  old content. And a rename ends the watch, but only the event of a removal makes the goroutine renew it:
  nothing that happens to the file later is reported.
\<close>

theorem root_file_missed:
  "(\<exists>s. (file_step demo_decode)\<^sup>*\<^sup>* (file_watch_init (Inr ''a'')) s \<and> file_rest s \<and> fw_armed s \<and>
      fw_file s = Inr ''b'' \<and> w_rootCAsPEM (fst (fw_state s)) = ''a'') \<and>
   (\<exists>s. file_step demo_decode (file_watching (Inr ''a'') demo_watch) s \<and> fw_events s = [{Rename}] \<and>
      (\<nexists>s'. (file_step demo_decode)\<^sup>*\<^sup>* s s' \<and> w_rootCAsPEM (fst (fw_state s')) \<noteq> ''a''))"
proof -
  let ?R = "file_step demo_decode"
  let ?r = "\<lparr>rc_PEM = ''a'', rc_CertPool = Some [''a'']\<rparr>"
  let ?s0 = "file_watch_init (Inr ''a'') :: string file_watch" let ?s1 = "?s0\<lparr>fw_pc := AtAdd ?r\<rparr>"
  let ?s2 = "?s1\<lparr>fw_file := Inr ''b''\<rparr>" let ?s3 = "file_watching (Inr ''b'') demo_watch"
  have "?R ?s0 ?s1"
    by (intro watch_step_file watch_step.load) (simp_all add: file_watch_init_def loadRootCAsFile_def demo_decode_def)
  moreover have "?R ?s1 ?s2"
    using file_change.written [of ?s1 "Inr ''b''"] by (simp add: file_step_def report_def file_watch_init_def)
  moreover have "?R ?s2 ?s3"
    using watch_step.add [of ?s2 ?r demo_decode] by (simp add: file_step_def file_watch_init_def file_watching_def demo_watch_def)
  ultimately have "?R\<^sup>*\<^sup>* ?s0 ?s3" by (meson converse_rtranclp_into_rtranclp rtranclp.rtrancl_refl)
  moreover have "file_rest ?s3 \<and> fw_armed ?s3 \<and> fw_file ?s3 = Inr ''b'' \<and> w_rootCAsPEM (fst (fw_state ?s3)) = ''a''"
    by (simp add: file_rest_def file_watching_def demo_watch_def)
  moreover let ?t1 = "file_watching (Inr ''a'') demo_watch" let ?t2 = "?t1\<lparr>fw_events := [{Rename}], fw_armed := False\<rparr>"
  have "?R ?t1 ?t2"
    using file_change.gone [of "{Rename}" ?t1 "Inr ''a''"] by (simp add: file_step_def report_def file_watching_def)
  moreover have "fw_events ?t2 = [{Rename}]" by simp
  moreover have "w_rootCAsPEM (fst (fw_state s')) = ''a''" if "?R\<^sup>*\<^sup>* ?t2 s'" for s'
    using unwatched_run [OF that] by (simp add: file_watching_def demo_watch_def)
  ultimately show ?thesis by blast
qed

end
