(* ===== verification/File_Rollout.thy ===== *)
theory File_Rollout
  imports Root_Rollout Rootca_Watch
begin

text \<open>
  The root file, its watcher, the TLS provider and the roll-out of the roots together: from a change of
  the file on disk to the ConfigMap in every namespace. The watcher and the goroutine of the provider
  that receives from it (\<open>Start\<close> in \<open>pkg/tls/tls.go\<close>) meet on the unbuffered channel \<open>broadcastChan\<close>.
\<close>

section \<open>Model\<close>

text \<open>\<open>fr_taken\<close> is the number of bundles the provider has received of those the watcher has sent.\<close>

record ('c, 'kp, 'v, 's, 'w) file_rollout =
  fr_watch :: "'c file_watch"
  fr_taken :: nat
  fr_rollout :: "('c, 'kp, 'v, 's, 'w) rollout"

abbreviation fr_sent :: "('c, 'kp, 'v, 's, 'w) file_rollout \<Rightarrow> 'c RootCAs list" where
  "fr_sent s \<equiv> snd (fw_state (fr_watch s))"

text \<open>
  The program's own steps that bring a change forward: the watcher, unless it is blocked in a send, the
  provider receiving, deliveries and workers.
\<close>

inductive forward_step ::
  "('c, 'k, 'kp, 'v) tls_env \<Rightarrow>
   ('s \<Rightarrow> string \<Rightarrow> string \<Rightarrow> duration \<Rightarrow> KeyUsage list \<Rightarrow> (error + Bundle) go \<times> 's) \<Rightarrow>
   ('w, KConfigMap) kube_client \<Rightarrow> nat \<Rightarrow> 'c decoder \<Rightarrow>
   ('c, 'kp, 'v, 's, 'w) file_rollout \<Rightarrow> ('c, 'kp, 'v, 's, 'w) file_rollout \<Rightarrow> bool"
  for env sign client sub decode where
  Watches: "fr_taken s = length (fr_sent s) \<Longrightarrow> watch_step decode (fr_watch s) w \<Longrightarrow>
    forward_step env sign client sub decode s (s\<lparr>fr_watch := w\<rparr>)"
| Takes: "fr_taken s < length (fr_sent s) \<Longrightarrow> \<not> is_ProviderReturned (fst (ro_provider (fr_rollout s))) \<Longrightarrow>
    forward_step env sign client sub decode s (s\<lparr>fr_taken := Suc (fr_taken s),
      fr_rollout := (fr_rollout s)\<lparr>ro_provider := provider_step env sign (ro_provider (fr_rollout s))
        (RootFile (fr_sent s ! fr_taken s))\<rparr>\<rparr>)"
| Settles: "settle_step client sub (fr_rollout s) r \<Longrightarrow>
    forward_step env sign client sub decode s (s\<lparr>fr_rollout := r\<rparr>)"

text \<open>All steps: also changes of the file, the provider's other steps and those of the controller's queue.\<close>

inductive file_rollout_step ::
  "('c, 'k, 'kp, 'v) tls_env \<Rightarrow>
   ('s \<Rightarrow> string \<Rightarrow> string \<Rightarrow> duration \<Rightarrow> KeyUsage list \<Rightarrow> (error + Bundle) go \<times> 's) \<Rightarrow>
   ('w, KConfigMap) kube_client \<Rightarrow> nat \<Rightarrow> 'c decoder \<Rightarrow>
   ('c, 'kp, 'v, 's, 'w) file_rollout \<Rightarrow> ('c, 'kp, 'v, 's, 'w) file_rollout \<Rightarrow> bool"
  for env sign client sub decode where
  Forward: "forward_step env sign client sub decode s s' \<Longrightarrow> file_rollout_step env sign client sub decode s s'"
| Changes: "file_change (fr_watch s) w \<Longrightarrow> file_rollout_step env sign client sub decode s (s\<lparr>fr_watch := w\<rparr>)"
| Provides: "(\<And>r. i \<noteq> RootFile r) \<Longrightarrow> file_rollout_step env sign client sub decode s
    (s\<lparr>fr_rollout := (fr_rollout s)\<lparr>ro_provider := provider_step env sign (ro_provider (fr_rollout s)) i\<rparr>\<rparr>)"
| Queues: "queue_step (cm_reconcile client) namespace_notifies (cm_touches client) (ro_controller (fr_rollout s)) q \<Longrightarrow>
    file_rollout_step env sign client sub decode s (s\<lparr>fr_rollout := (fr_rollout s)\<lparr>ro_controller := q\<rparr>\<rparr>)"

definition file_rollout_init ::
  "error + string \<Rightarrow> 'c watch_state \<Rightarrow> ('c, 'kp, 'v) Provider \<Rightarrow> registration \<Rightarrow> 's \<Rightarrow> ('w, KConfigMap) kube
   \<Rightarrow> ('c, 'kp, 'v, 's, 'w) file_rollout" where
  "file_rollout_init file ws p reg st k =
     \<lparr>fr_watch = file_watching file ws, fr_taken = 0, fr_rollout = rollout_init p reg st k\<rparr>"

section \<open>The invariant\<close>

text \<open>With a root file, only what comes from the watcher changes the provider's roots.\<close>

lemma fetch_keeps_roots:
  assumes "to_RootCAsCertFile (prv_opts p) \<noteq> []"
  shows "prv_rootCAs (fst (snd (fetchCertificate env sign p st))) = prv_rootCAs p \<and>
    prv_opts (fst (snd (fetchCertificate env sign p st))) = prv_opts p"
  using assms
  by (auto simp: fetchCertificate_def count_request_def install_config_def
      split: sum.splits prod.splits go.splits option.splits if_splits)

lemma provider_step_keeps_roots:
  assumes "to_RootCAsCertFile (prv_opts p) \<noteq> []" "\<And>r. i \<noteq> RootFile r"
  shows "prv_rootCAs (fst (snd (provider_step env sign (ph, p, st) i))) = prv_rootCAs p \<and>
    prv_opts (fst (snd (provider_step env sign (ph, p, st) i))) = prv_opts p"
  using fetch_keeps_roots [OF assms(1), of env sign st] assms(2)
  by (cases "(env, sign, (ph, p, st), i)" rule: provider_step.cases)
    (auto simp: SubscribeRootCAsEvent_def Let_def)


lemma settle_keeps_roots:
  assumes "settle_step client sub s s'"
  shows "prv_rootCAs (provider_of s') = prv_rootCAs (provider_of s) \<and> prv_opts (provider_of s') = prv_opts (provider_of s) \<and>
    fst (ro_provider s') = fst (ro_provider s)"
  using assms
proof cases
  case Delivery
  then show ?thesis by (rule deliver_stepE) (simp_all add: set_provider_def split: prod.splits)
qed simp

lemma watch_step_sent:
  assumes "watch_step decode w w'" "file_inv decode w" "watch_inv decode (fw_state w)"
  shows "watch_inv decode (fw_state w') \<and> (\<exists>rs. snd (fw_state w') = snd (fw_state w) @ rs \<and> length rs \<le> 1)"
  using assms(1)
proof cases
  case reload
  have "\<exists>rs. snd (reloadConfig decode (fw_file w) (fw_state w)) = snd (fw_state w) @ rs \<and> length rs \<le> 1"
    by (rule reloadConfig_cases [of decode "fw_file w" "fw_state w"]) auto
  with reload reloadConfig_inv [OF assms(3)] show ?thesis by simp
qed (use assms(2,3) in \<open>auto simp: file_inv_def\<close>)

lemma file_change_state: "file_change w w' \<Longrightarrow> fw_state w' = fw_state w"
  by (erule file_change.cases) (simp_all add: report_def)

text \<open>What the provider holds is the last bundle it has received.\<close>

definition in_hand :: "('c, 'kp, 'v, 's, 'w) file_rollout \<Rightarrow> bool" where
  "in_hand s \<longleftrightarrow>
     to_RootCAsCertFile (prv_opts (provider_of (fr_rollout s))) \<noteq> [] \<and> fr_taken s \<le> length (fr_sent s) \<and>
     (0 < fr_taken s \<longrightarrow> prv_rootCAs (provider_of (fr_rollout s)) = fr_sent s ! (fr_taken s - 1))"

definition file_rollout_inv ::
  "('w, KConfigMap) kube_client \<Rightarrow> nat \<Rightarrow> 'c decoder \<Rightarrow> ('c, 'kp, 'v, 's, 'w) file_rollout \<Rightarrow> bool" where
  "file_rollout_inv client sub decode s \<longleftrightarrow>
     rollout_inv client sub (fr_rollout s) \<and> file_inv decode (fr_watch s) \<and>
     watch_inv decode (fw_state (fr_watch s)) \<and> in_hand s"

text \<open>Every step is one of the roll-out or leaves it alone; likewise of the watcher with its file.\<close>

lemma forward_refines:
  assumes "forward_step env sign client sub decode s s'"
  shows "(fr_rollout s' = fr_rollout s \<or> rollout_step env sign client sub (fr_rollout s) (fr_rollout s')) \<and>
    (fr_watch s' = fr_watch s \<or> watch_step decode (fr_watch s) (fr_watch s'))"
  using assms by cases (auto intro: settle_rollout rollout_step.ProviderStep)

lemma file_rollout_refines:
  assumes "file_rollout_step env sign client sub decode s s'"
  shows "(fr_rollout s' = fr_rollout s \<or> rollout_step env sign client sub (fr_rollout s) (fr_rollout s')) \<and>
    (fr_watch s' = fr_watch s \<or> file_step decode (fr_watch s) (fr_watch s'))"
  using assms
proof cases
  case Forward
  from forward_refines [OF this] show ?thesis by (auto intro: watch_step_file)
qed (auto intro: rollout_step.ProviderStep rollout_step.Queue file_change_file)

lemma forward_in_hand:
  assumes "forward_step env sign client sub decode s s'"
    and "file_inv decode (fr_watch s)" "watch_inv decode (fw_state (fr_watch s))" "in_hand s"
  shows "in_hand s' \<and> watch_inv decode (fw_state (fr_watch s'))"
  using assms(1)
proof cases
  case (Watches w)
  from watch_step_sent [OF this(3) assms(2,3)] assms(4) Watches(1) show ?thesis
    by (auto simp: in_hand_def nth_append)
next
  case Takes
  obtain ph p st where p: "ro_provider (fr_rollout s) = (ph, p, st)" by (metis prod.exhaust)
  with Takes assms(3,4) show ?thesis by (simp add: in_hand_def provider_of_def root_file_update_def)
next
  case (Settles r)
  from settle_keeps_roots [OF this(2)] Settles(1) assms(3,4) show ?thesis by (simp add: in_hand_def)
qed

lemma file_rollout_in_hand:
  assumes "file_rollout_step env sign client sub decode s s'"
    and "file_inv decode (fr_watch s)" "watch_inv decode (fw_state (fr_watch s))" "in_hand s"
  shows "in_hand s' \<and> watch_inv decode (fw_state (fr_watch s'))"
  using assms(1)
proof cases
  case Forward
  from forward_in_hand [OF this assms(2-4)] show ?thesis .
next
  case (Changes w)
  with file_change_state [OF this(2)] assms(3,4) show ?thesis by (simp add: in_hand_def)
next
  case (Provides i)
  obtain ph p st where p: "ro_provider (fr_rollout s) = (ph, p, st)" by (metis prod.exhaust)
  with assms(4) have "to_RootCAsCertFile (prv_opts p) \<noteq> []" by (simp add: in_hand_def provider_of_def)
  from provider_step_keeps_roots [OF this, of i env sign ph st] Provides assms(3,4) p show ?thesis
    by (simp add: in_hand_def provider_of_def)
next
  case (Queues q)
  with assms(3,4) show ?thesis by (simp add: in_hand_def)
qed

lemma file_rollout_inv_step:
  assumes "cm_law client" "file_rollout_step env sign client sub decode s s'" "file_rollout_inv client sub decode s"
  shows "file_rollout_inv client sub decode s'"
proof -
  have "rollout_inv client sub (fr_rollout s')"
    using file_rollout_refines [OF assms(2)] assms(3) rollout_inv_step [OF assms(1)]
    by (auto simp: file_rollout_inv_def)
  moreover have "file_inv decode (fr_watch s')"
    using file_rollout_refines [OF assms(2)] assms(3) file_inv_step
    by (auto simp: file_rollout_inv_def)
  ultimately show ?thesis
    using file_rollout_in_hand [OF assms(2)] assms(3) by (simp add: file_rollout_inv_def)
qed

lemma file_rollout_inv_run:
  "(file_rollout_step env sign client sub decode)\<^sup>*\<^sup>* s s' \<Longrightarrow> cm_law client \<Longrightarrow>
   file_rollout_inv client sub decode s \<Longrightarrow> file_rollout_inv client sub decode s'"
  by (induction rule: rtranclp_induct) (auto intro: file_rollout_inv_step)

lemma file_rollout_inv_init:
  assumes "Watch decode file None None = Inr ws" "to_RootCAsCertFile opts \<noteq> []"
    and new: "NewProvider TLSVersion TLSCipherSuites Nd opts = Inr tls"
    and add: "AddConfigMapController clientErr labels_Parse completeErr SubscribeRootCAsEvent
      \<lparr>cmo_TLS = tls, cmo_ConfigMapNamespaceSelector = selector, cmo_MaxConcurrentReconciles = n\<rparr> = (Inr reg, p)"
  shows "file_rollout_inv client (reg_rootCAsEvent reg) decode (file_rollout_init file ws p reg st k)"
proof -
  have "prv_opts p = opts"
    using new add by (auto simp: AddConfigMapController_def SubscribeRootCAsEvent_def Let_def NewProvider_def
        split: option.splits sum.splits if_splits)
  then show ?thesis
    using assms(2) rollout_inv_init [OF new add, of client st k] file_inv_watching [OF assms(1)] Watch_inv [OF assms(1)]
    by (simp add: file_rollout_inv_def file_rollout_init_def in_hand_def provider_of_def rollout_init_def file_watching_def)
qed

section \<open>Getting through\<close>

text \<open>Nothing of the file is under way.\<close>

definition file_settled :: "('c, 'kp, 'v, 's, 'w) file_rollout \<Rightarrow> bool" where
  "file_settled s \<longleftrightarrow> file_rest (fr_watch s) \<and> fw_armed (fr_watch s) \<and> fr_taken s = length (fr_sent s)"

lemma settled_roots:
  assumes "file_rollout_inv client sub decode s" "file_settled s"
    and "fw_file (fr_watch s) = Inr pem" "decode pem = Inr certs"
  shows "rc_PEM (prv_rootCAs (provider_of (fr_rollout s))) = pem \<and>
    rc_CertPool (prv_rootCAs (provider_of (fr_rollout s))) = Some certs"
proof -
  let ?r = "last (fr_sent s)"
  have ne: "fr_sent s \<noteq> []" and pem: "rc_PEM ?r = w_rootCAsPEM (fst (fw_state (fr_watch s)))"
    using assms(1) by (simp_all add: file_rollout_inv_def watch_inv_def)
  then have "?r \<in> set (fr_sent s)" by simp
  then have "\<exists>certs. decode (rc_PEM ?r) = Inr certs \<and> rc_CertPool ?r = Some certs"
    using assms(1) unfolding file_rollout_inv_def watch_inv_def by blast
  moreover have "rc_PEM ?r = pem"
    using assms pem by (simp add: file_rollout_inv_def file_settled_def file_inv_def file_rest_def knows_def)
  moreover have "prv_rootCAs (provider_of (fr_rollout s)) = ?r"
    using assms(1,2) ne by (simp add: file_rollout_inv_def file_settled_def in_hand_def last_conv_nth)
  ultimately show ?thesis using assms(4) by simp
qed

definition file_rollout_effort :: "('c, 'kp, 'v, 's, 'w) file_rollout \<Rightarrow> nat" where
  "file_rollout_effort s = 2 * file_effort (fr_watch s) + (length (fr_sent s) - fr_taken s)"


text \<open>The watcher and the receiving goroutine can go on until the file is settled.\<close>

definition on_course :: "('c, 'kp, 'v, 's, 'w) file_rollout \<Rightarrow> ('c, 'kp, 'v, 's, 'w) file_rollout \<Rightarrow> bool" where
  "on_course s t \<longleftrightarrow>
     fw_file (fr_watch t) = fw_file (fr_watch s) \<and> watched (fr_watch t) \<and>
     \<not> is_ProviderReturned (fst (ro_provider (fr_rollout t))) \<and> ro_controller (fr_rollout t) = ro_controller (fr_rollout s)"

lemma forward_take:
  assumes "on_course s t" "fr_taken t < length (fr_sent t)"
  shows "\<exists>t'. forward_step env sign client sub decode t t' \<and> on_course s t' \<and> file_rollout_effort t' < file_rollout_effort t"
proof -
  obtain ph p st where p: "ro_provider (fr_rollout t) = (ph, p, st)" by (metis prod.exhaust)
  from assms have "\<not> is_ProviderReturned (fst (ro_provider (fr_rollout t)))" by (simp add: on_course_def)
  let ?t = "t\<lparr>fr_taken := Suc (fr_taken t), fr_rollout := (fr_rollout t)\<lparr>ro_provider :=
      provider_step env sign (ro_provider (fr_rollout t)) (RootFile (fr_sent t ! fr_taken t))\<rparr>\<rparr>"
  have "on_course s ?t" "file_rollout_effort ?t < file_rollout_effort t"
    using assms p by (simp_all add: on_course_def file_rollout_effort_def)
  with forward_step.Takes [OF assms(2) \<open>\<not> is_ProviderReturned _\<close>] show ?thesis by blast
qed

lemma forward_watch:
  assumes "on_course s t" "fr_taken t = length (fr_sent t)" "\<not> file_rest (fr_watch t)"
    and "file_inv decode (fr_watch t)" "watch_inv decode (fw_state (fr_watch t))"
  shows "\<exists>t'. forward_step env sign client sub decode t t' \<and> on_course s t' \<and> file_rollout_effort t' < file_rollout_effort t"
proof -
  have "fw_pc (fr_watch t) \<in> {AtFsSelect, AtRearm, AtReload}" using assms(4) by (simp add: file_inv_def)
  then obtain w where w: "watch_step decode (fr_watch t) w" "fw_file w = fw_file (fr_watch t)"
    "watched (fr_watch t) \<longrightarrow> watched w" "file_effort w < file_effort (fr_watch t)"
    using goroutine_advances [OF _ assms(3), of decode] by blast
  obtain rs where "snd (fw_state w) = fr_sent t @ rs" "length rs \<le> 1"
    using watch_step_sent [OF w(1) assms(4,5)] by blast
  then have "file_rollout_effort (t\<lparr>fr_watch := w\<rparr>) < file_rollout_effort t"
    using w(4) assms(2) by (simp add: file_rollout_effort_def)
  moreover have "on_course s (t\<lparr>fr_watch := w\<rparr>)" using assms(1) w by (simp add: on_course_def)
  ultimately show ?thesis using forward_step.Watches [OF assms(2) w(1)] by blast
qed

lemma forward_settles:
  fixes s :: "('c, 'kp, 'v, 's, 'w) file_rollout"
  assumes "cm_law client" "file_rollout_inv client sub decode s" "on_course s s"
  shows "\<exists>t. (forward_step env sign client sub decode)\<^sup>*\<^sup>* s t \<and> file_rollout_inv client sub decode t \<and> on_course s t \<and> file_settled t"
proof -
  let ?P = "\<lambda>t :: ('c, 'kp, 'v, 's, 'w) file_rollout. file_rollout_inv client sub decode t \<and> on_course s t"
  have "\<exists>t. (forward_step env sign client sub decode)\<^sup>*\<^sup>* s t \<and> ?P t \<and> file_settled t"
  proof (rule measure_reaches [where m = file_rollout_effort])
    fix t :: "('c, 'kp, 'v, 's, 'w) file_rollout"
    assume t: "?P t" "\<not> file_settled t"
    then have inv: "file_inv decode (fr_watch t)" "watch_inv decode (fw_state (fr_watch t))"
      and le: "fr_taken t \<le> length (fr_sent t)"
      by (simp_all add: file_rollout_inv_def in_hand_def)
    have "file_rest (fr_watch t) \<Longrightarrow> fr_taken t < length (fr_sent t)"
      using t le rest_watched [of "fr_watch t"] by (auto simp: file_settled_def on_course_def)
    then obtain t' where "forward_step env sign client sub decode t t'" "on_course s t'" "file_rollout_effort t' < file_rollout_effort t"
      using forward_take [of s t env sign client sub decode] forward_watch [of s t decode env sign client sub] t(1) inv le
      by (metis le_neq_implies_less)
    moreover from this have "file_rollout_inv client sub decode t'"
      using file_rollout_inv_step [OF assms(1) file_rollout_step.Forward] t(1) by blast
    ultimately show "\<exists>t'. forward_step env sign client sub decode t t' \<and> ?P t' \<and> file_rollout_effort t' < file_rollout_effort t"
      by blast
  qed (use assms in simp)
  then show ?thesis by blast
qed

lemma settles_forward:
  "(settle_step client sub)\<^sup>*\<^sup>* (fr_rollout s) r \<Longrightarrow> (forward_step env sign client sub decode)\<^sup>*\<^sup>* s (s\<lparr>fr_rollout := r\<rparr>)"
proof (induction rule: rtranclp_induct)
  case (step r r')
  from forward_step.Settles [of client sub "s\<lparr>fr_rollout := r\<rparr>" r' env sign decode] step show ?case
    by (simp add: rtranclp.rtrancl_into_rtrancl)
qed simp


lemma forward_run: "(forward_step env sign client sub decode)\<^sup>*\<^sup>* s s' \<Longrightarrow> (file_rollout_step env sign client sub decode)\<^sup>*\<^sup>* s s'"
  by (rule mono_rtranclp [rule_format]) (rule file_rollout_step.Forward)

lemma file_rollout_completes:
  assumes "cm_law client" "served client up (ro_controller (fr_rollout s))" "file_rollout_inv client sub decode s"
    and "watched (fr_watch s)" "\<not> is_ProviderReturned (fst (ro_provider (fr_rollout s)))"
    and pem: "fw_file (fr_watch s) = Inr pem" "decode pem = Inr certs" "pem \<noteq> []"
  shows "\<exists>s'. (forward_step env sign client sub decode)\<^sup>*\<^sup>* s s' \<and> file_settled s' \<and> at_rest sub (fr_rollout s') \<and>
    fw_file (fr_watch s') = Inr pem \<and>
    (\<forall>ns. eligible (fst (wq_env (ro_controller (fr_rollout s)))) (snd (wq_env (ro_controller (fr_rollout s)))) ns \<longrightarrow>
       eligible (fst (wq_env (ro_controller (fr_rollout s')))) (snd (wq_env (ro_controller (fr_rollout s')))) ns \<and>
       up_to_date client (wq_world (ro_controller (fr_rollout s'))) pem ns)"
proof -
  obtain t where t: "(forward_step env sign client sub decode)\<^sup>*\<^sup>* s t" "file_rollout_inv client sub decode t"
    "on_course s t" "file_settled t"
    using forward_settles [OF assms(1,3)] assms(4,5) unfolding on_course_def by blast
  then have fw: "fw_file (fr_watch t) = Inr pem" "ro_controller (fr_rollout t) = ro_controller (fr_rollout s)"
    using pem(1) by (simp_all add: on_course_def)
  from settled_roots [OF t(2,4) fw(1) pem(2)] pem(3) have roots: "populated (prv_rootCAs (provider_of (fr_rollout t)))"
    "rc_PEM (prv_rootCAs (provider_of (fr_rollout t))) = pem"
    by (simp_all add: populated_def)
  have "rollout_inv client sub (fr_rollout t)" using t(2) by (simp add: file_rollout_inv_def)
  then obtain r where r: "(settle_step client sub)\<^sup>*\<^sup>* (fr_rollout t) r" "at_rest sub r" "rolled_out client r"
    "same_goal (fr_rollout t) r"
    using rollout_settles [OF assms(1) _ _ roots(1)] assms(2) fw(2) by auto
  have "(forward_step env sign client sub decode)\<^sup>*\<^sup>* s (t\<lparr>fr_rollout := r\<rparr>)"
    using t(1) settles_forward [OF r(1)] by (rule rtranclp_trans)
  moreover have "file_settled (t\<lparr>fr_rollout := r\<rparr>)" using t(4) by (simp add: file_settled_def)
  ultimately show ?thesis
    using r(2-4) fw roots(2) by (intro exI [of _ "t\<lparr>fr_rollout := r\<rparr>"]) (simp add: rolled_out_def same_goal_def)
qed

section \<open>Properties\<close>

text \<open>
  C15: The mesh follows the root file. In a program that reads its roots from a file, whatever others do
  to the file, to namespaces and to ConfigMaps, and however that interleaves with the watcher, the
  provider and the controller: when no event of the file, bundle, announcement or request is under way
  and the watch is in place, every selected namespace that is not terminating has the content of the
  file in its ConfigMap, if that content can be decoded.
\<close>

theorem file_reaches_mesh:
  assumes "Watch decode file None None = Inr ws" and "to_RootCAsCertFile opts \<noteq> []"
    and "NewProvider TLSVersion TLSCipherSuites Nd opts = Inr tls"
    and "AddConfigMapController clientErr labels_Parse completeErr SubscribeRootCAsEvent
      \<lparr>cmo_TLS = tls, cmo_ConfigMapNamespaceSelector = selector, cmo_MaxConcurrentReconciles = n\<rparr> = (Inr reg, p)"
    and "cm_law client"
    and "(file_rollout_step env sign client (reg_rootCAsEvent reg) decode)\<^sup>*\<^sup>* (file_rollout_init file ws p reg st k) s"
    and "file_settled s" and "at_rest (reg_rootCAsEvent reg) (fr_rollout s)"
    and "fw_file (fr_watch s) = Inr pem" and "decode pem = Inr certs"
    and "eligible (fst (wq_env (ro_controller (fr_rollout s)))) (snd (wq_env (ro_controller (fr_rollout s)))) ns"
  shows "up_to_date client (wq_world (ro_controller (fr_rollout s))) pem ns"
proof -
  have inv: "file_rollout_inv client (reg_rootCAsEvent reg) decode s"
    by (rule file_rollout_inv_run [OF assms(6,5) file_rollout_inv_init [OF assms(1-4)]])
  then have "rolled_out client (fr_rollout s)" using rest_rolled_out [OF _ assms(8)] by (simp add: file_rollout_inv_def)
  with settled_roots [OF inv assms(7,9,10)] assms(11) show ?thesis by (simp add: rolled_out_def)
qed

text \<open>
  For the witnesses: the program of the roll-out, after a namespace was added and the file was replaced,
  as a volume mount does, before the watcher has noticed.
\<close>

definition demo_mount0 :: "(string, string, string, unit cluster, KConfigMap list) file_rollout" where
  "demo_mount0 = file_rollout_init (Inr ''a'') demo_watch demo_subscribed demo_registration demo_cluster demo_kube"

definition demo_mount :: "(string, string, string, unit cluster, KConfigMap list) file_rollout" where
  "demo_mount = demo_mount0
     \<lparr>fr_rollout := (fr_rollout demo_mount0)\<lparr>ro_controller := (ro_controller (fr_rollout demo_mount0))
        \<lparr>wq_env := (no_namespaces(''a'' := Inr demo_namespace), reg_controller demo_registration), wq_queue := {''a''}\<rparr>\<rparr>,
      fr_watch := (fr_watch demo_mount0)\<lparr>fw_file := Inr ''b'', fw_armed := False, fw_events := [{Remove}]\<rparr>\<rparr>"

lemma demo_mount_reached:
  "(file_rollout_step demo_tls_env (Sign demo_env demo_manager) (list_client km_key) (reg_rootCAsEvent demo_registration)
     demo_decode)\<^sup>*\<^sup>* (file_rollout_init (Inr ''a'') demo_watch demo_subscribed demo_registration demo_cluster demo_kube) demo_mount"
proof -
  let ?step = "file_rollout_step demo_tls_env (Sign demo_env demo_manager) (list_client km_key) (reg_rootCAsEvent demo_registration) demo_decode"
  let ?w = "(fr_watch demo_mount0)\<lparr>fw_file := Inr ''b'', fw_armed := False, fw_events := [{Remove}]\<rparr>"
  let ?s = "demo_mount0\<lparr>fr_watch := ?w\<rparr>"
  have "file_change (fr_watch demo_mount0) ?w"
    using file_change.gone [of "{Remove}" "fr_watch demo_mount0" "Inr ''b''"]
    by (simp add: report_def demo_mount0_def file_rollout_init_def file_watching_def)
  then have "?step demo_mount0 ?s" by (rule file_rollout_step.Changes)
  moreover have "namespace_notifies (no_namespaces, reg_controller demo_registration)
      (no_namespaces(ns_Name demo_namespace := Inr demo_namespace), reg_controller demo_registration)
      (fst ` set (namespace_requests demo_namespace))"
    by (rule namespace_notifies.intros) simp
  then have "namespace_notifies (wq_env (ro_controller (fr_rollout ?s)))
      (no_namespaces(''a'' := Inr demo_namespace), reg_controller demo_registration) {''a''}"
    by (simp add: namespace_requests_def demo_namespace_def demo_mount0_def file_rollout_init_def rollout_init_def)
  from file_rollout_step.Queues [OF queue_step.Env, OF this] have "?step ?s demo_mount"
    by (simp add: demo_mount_def demo_mount0_def file_rollout_init_def rollout_init_def)
  ultimately show ?thesis unfolding demo_mount0_def by (meson converse_rtranclp_into_rtranclp r_into_rtranclp)
qed

lemma demo_mount_state:
  "watched (fr_watch demo_mount)" "\<not> is_ProviderReturned (fst (ro_provider (fr_rollout demo_mount)))"
  "fw_file (fr_watch demo_mount) = Inr ''b''" "demo_decode ''b'' = Inr [''b'']" "''b'' \<noteq> []"
  "eligible (fst (wq_env (ro_controller (fr_rollout demo_mount)))) (snd (wq_env (ro_controller (fr_rollout demo_mount)))) ''a''"
  by (simp_all add: demo_mount_def demo_mount0_def file_rollout_init_def rollout_init_def watched_def demo_decode_def
      eligible_def demo_namespace_def demo_registration_def)

lemma demo_file_set: "to_RootCAsCertFile demo_file_opts \<noteq> []"
  by (simp add: demo_file_opts_def)

theorem file_reaches_mesh_witness:
  "\<exists>s :: (string, string, string, unit cluster, KConfigMap list) file_rollout.
     file_settled s \<and> at_rest 0 (fr_rollout s) \<and> fw_file (fr_watch s) = Inr ''b'' \<and>
     up_to_date (list_client km_key) (wq_world (ro_controller (fr_rollout s))) ''b'' ''a''"
proof -
  let ?sub = "reg_rootCAsEvent demo_registration"
  have inv: "file_rollout_inv (list_client km_key) ?sub demo_decode demo_mount"
    by (rule file_rollout_inv_run [OF demo_mount_reached demo_law
          file_rollout_inv_init [OF demo_Watch demo_file_set demo_new demo_add]])
  obtain s where s: "(forward_step demo_tls_env (Sign demo_env demo_manager) (list_client km_key) ?sub demo_decode)\<^sup>*\<^sup>* demo_mount s"
    "file_settled s" "at_rest ?sub (fr_rollout s)" "fw_file (fr_watch s) = Inr ''b''"
    "eligible (fst (wq_env (ro_controller (fr_rollout s)))) (snd (wq_env (ro_controller (fr_rollout s)))) ''a''"
    using file_rollout_completes [OF demo_law demo_served inv demo_mount_state(1-5)] demo_mount_state(6) by blast
  have "up_to_date (list_client km_key) (wq_world (ro_controller (fr_rollout s))) ''b'' ''a''"
    by (rule file_reaches_mesh [OF demo_Watch demo_file_set demo_new demo_add demo_law
          rtranclp_trans [OF demo_mount_reached forward_run [OF s(1)]] s(2-4) demo_mount_state(4) s(5)])
  with s(2-4) show ?thesis by (auto simp: demo_registration_def)
qed

text \<open>
  C16: A change of the root file gets to the mesh. From every state that can be reached in which the watch
  is in place or a removal is left to handle (not so after a rename), the provider has not returned,
  the file holds a non-empty bundle that can be decoded and the API serves the controller from then on:
  if the file stays as it is and renewing the watch succeeds, steps of the watcher, the provider and the
  controller alone get to a state in which nothing is under way and every namespace that was to have
  the roots has the content of the file.
\<close>

theorem file_change_rolls_out:
  assumes "Watch decode file None None = Inr ws" and "to_RootCAsCertFile opts \<noteq> []"
    and "NewProvider TLSVersion TLSCipherSuites Nd opts = Inr tls"
    and "AddConfigMapController clientErr labels_Parse completeErr SubscribeRootCAsEvent
      \<lparr>cmo_TLS = tls, cmo_ConfigMapNamespaceSelector = selector, cmo_MaxConcurrentReconciles = n\<rparr> = (Inr reg, p)"
    and "cm_law client"
    and "(file_rollout_step env sign client (reg_rootCAsEvent reg) decode)\<^sup>*\<^sup>* (file_rollout_init file ws p reg st k) s"
    and "served client up (ro_controller (fr_rollout s))"
    and "watched (fr_watch s)" and "\<not> is_ProviderReturned (fst (ro_provider (fr_rollout s)))"
    and "fw_file (fr_watch s) = Inr pem" and "decode pem = Inr certs" and "pem \<noteq> []"
  shows "\<exists>s'. (forward_step env sign client (reg_rootCAsEvent reg) decode)\<^sup>*\<^sup>* s s' \<and> file_settled s' \<and>
    at_rest (reg_rootCAsEvent reg) (fr_rollout s') \<and>
    (\<forall>ns. eligible (fst (wq_env (ro_controller (fr_rollout s)))) (snd (wq_env (ro_controller (fr_rollout s)))) ns \<longrightarrow>
       up_to_date client (wq_world (ro_controller (fr_rollout s'))) pem ns)"
  using file_rollout_completes [OF assms(5,7)
      file_rollout_inv_run [OF assms(6,5) file_rollout_inv_init [OF assms(1-4)]] assms(8-12)]
  by blast

theorem file_change_rolls_out_witness:
  "\<exists>s'. (forward_step demo_tls_env (Sign demo_env demo_manager) (list_client km_key) 0 demo_decode)\<^sup>*\<^sup>* demo_mount s' \<and>
     file_settled s' \<and> up_to_date (list_client km_key) (wq_world (ro_controller (fr_rollout s'))) ''b'' ''a''"
  using file_change_rolls_out [OF demo_Watch demo_file_set demo_new demo_add demo_law
      demo_mount_reached demo_served demo_mount_state(1-5)] demo_mount_state(6)
  by (auto simp: demo_registration_def)

end
