(* ===== verification/Istiod_Lock.thy ===== *)
theory Istiod_Lock
  imports Istiod_Cert
begin

text \<open>
  The provisioner of \<open>pkg/istiodcert/worker.go\<close> with its mutex \<open>issuerRefMutex\<close> and its unbuffered channel
  \<open>reconcileChan\<close>: the loop of \<open>Start\<close>, the workers in \<open>Reconcile\<close> and the source that reads the channel, as
  a step relation. \<open>handleNewIssuer\<close> sends on the channel while it holds the mutex, and \<open>Reconcile\<close> needs
  the mutex; \<open>Istiod_Cert\<close> has both as functions, which is what they amount to here.
\<close>

section \<open>Model\<close>

text \<open>
  \<open>Start\<close> before its first action, at its \<open>select\<close>, in \<open>handleNewIssuer\<close> before the lock and, holding it, at
  the send, and after its return; a worker is idle, before the lock, or holds it.
\<close>

datatype prov_pc =
    ProvStart
  | ProvSelect
  | ProvLock "IssuerReference option"
  | ProvSend "IssuerReference option"
  | ProvReturned

datatype worker_pc = WorkerIdle | WorkerLock | WorkerReconciling

datatype lock_owner = Provisioner | Worker nat

text \<open>
  \<open>ps_source\<close> says whether the source still reads the channel; \<open>ps_incoming\<close> are the notifications not
  yet received, \<open>ps_announced\<close> and \<open>ps_handled\<close> the history of notifications and of completed handlers.
\<close>

record prov_state =
  ps_dicp :: DynamicIstiodCertProvisioner
  ps_pc :: prov_pc
  ps_workers :: "worker_pc list"
  ps_mutex :: "lock_owner option"
  ps_source :: bool
  ps_cancelled :: bool
  ps_incoming :: "IssuerReference option list"
  ps_announced :: "IssuerReference option list"
  ps_handled :: "IssuerReference option list"

definition prov_init :: "DynamicIstiodCertProvisioner \<Rightarrow> nat \<Rightarrow> prov_state" where
  "prov_init d n = \<lparr>ps_dicp = d, ps_pc = ProvStart, ps_workers = replicate n WorkerIdle, ps_mutex = None,
     ps_source = True, ps_cancelled = False, ps_incoming = [], ps_announced = [], ps_handled = []\<rparr>"

definition certificate_event :: "DynamicIstiodCertProvisioner \<Rightarrow> string \<times> string" where
  "certificate_event d = (io_CertificateNamespace (dicp_opts d), io_CertificateName (dicp_opts d))"

text \<open>The program's own steps.\<close>

inductive prov_step :: "prov_state \<Rightarrow> prov_state \<Rightarrow> bool" where
  begins: "ps_pc s = ProvStart \<Longrightarrow>
    prov_step s (s\<lparr>ps_pc := (if dicp_initialIssuerRef (ps_dicp s) \<noteq> None
      then ProvLock (dicp_initialIssuerRef (ps_dicp s)) else ProvSelect)\<rparr>)"
| receive: "ps_pc s = ProvSelect \<Longrightarrow> ps_incoming s = v # vs \<Longrightarrow>
    prov_step s (s\<lparr>ps_pc := ProvLock v, ps_incoming := vs\<rparr>)"
| shuts_down: "ps_pc s = ProvSelect \<Longrightarrow> ps_cancelled s \<Longrightarrow> prov_step s (s\<lparr>ps_pc := ProvReturned\<rparr>)"
| keep: "ps_pc s = ProvLock None \<Longrightarrow> ps_mutex s = None \<Longrightarrow> dicp_initialIssuerRef (ps_dicp s) \<noteq> None \<Longrightarrow>
    prov_step s (s\<lparr>ps_pc := ProvSelect, ps_handled := ps_handled s @ [None],
      ps_dicp := (ps_dicp s)\<lparr>dicp_issuerRef := dicp_initialIssuerRef (ps_dicp s)\<rparr>\<rparr>)"
| store: "ps_pc s = ProvLock v \<Longrightarrow> ps_mutex s = None \<Longrightarrow> \<not> (v = None \<and> dicp_initialIssuerRef (ps_dicp s) \<noteq> None) \<Longrightarrow>
    prov_step s (s\<lparr>ps_pc := ProvSend v, ps_mutex := Some Provisioner,
      ps_dicp := (ps_dicp s)\<lparr>dicp_issuerRef := v\<rparr>\<rparr>)"
| send: "ps_pc s = ProvSend v \<Longrightarrow> ps_source s \<Longrightarrow>
    prov_step s (s\<lparr>ps_pc := ProvSelect, ps_mutex := None, ps_handled := ps_handled s @ [v],
      ps_dicp := (ps_dicp s)\<lparr>dicp_events := dicp_events (ps_dicp s) @ [certificate_event (ps_dicp s)]\<rparr>\<rparr>)"
| reconcile: "i < length (ps_workers s) \<Longrightarrow> ps_workers s ! i = WorkerLock \<Longrightarrow> ps_mutex s = None \<Longrightarrow>
    prov_step s (s\<lparr>ps_workers := (ps_workers s)[i := WorkerReconciling], ps_mutex := Some (Worker i)\<rparr>)"
| reconciled: "i < length (ps_workers s) \<Longrightarrow> ps_workers s ! i = WorkerReconciling \<Longrightarrow>
    prov_step s (s\<lparr>ps_workers := (ps_workers s)[i := WorkerIdle], ps_mutex := None\<rparr>)"

text \<open>
  The steps of the outside: a notification, a request for a worker, the end of the context, and after
  it the end of the source.
\<close>

inductive prov_outside :: "prov_state \<Rightarrow> prov_state \<Rightarrow> bool" where
  notify: "prov_outside s (s\<lparr>ps_incoming := ps_incoming s @ [v], ps_announced := ps_announced s @ [v]\<rparr>)"
| request: "i < length (ps_workers s) \<Longrightarrow> ps_workers s ! i = WorkerIdle \<Longrightarrow>
    prov_outside s (s\<lparr>ps_workers := (ps_workers s)[i := WorkerLock]\<rparr>)"
| cancel: "prov_outside s (s\<lparr>ps_cancelled := True\<rparr>)"
| source_ends: "ps_cancelled s \<Longrightarrow> prov_outside s (s\<lparr>ps_source := False\<rparr>)"

definition prov_any :: "prov_state \<Rightarrow> prov_state \<Rightarrow> bool" where
  "prov_any s s' \<longleftrightarrow> prov_step s s' \<or> prov_outside s s'"

section \<open>The invariant\<close>

text \<open>What \<open>Start\<close> handles first, and what it is handling now.\<close>

definition first_issuer :: "DynamicIstiodCertProvisioner \<Rightarrow> IssuerReference option list" where
  "first_issuer d = (if dicp_initialIssuerRef d \<noteq> None then [dicp_initialIssuerRef d] else [])"

fun in_hand :: "DynamicIstiodCertProvisioner \<Rightarrow> prov_pc \<Rightarrow> IssuerReference option list" where
  "in_hand d ProvStart = first_issuer d"
| "in_hand d (ProvLock v) = [v]"
| "in_hand d (ProvSend v) = [v]"
| "in_hand d _ = []"

text \<open>
  The provisioner is what the completed handlers have made of it, plus the issuer stored already while
  one sends; values are handled in the order of arrival; the mutex says who is inside.
\<close>

fun stored :: "prov_pc \<Rightarrow> DynamicIstiodCertProvisioner \<Rightarrow> DynamicIstiodCertProvisioner" where
  "stored (ProvSend v) d = d\<lparr>dicp_issuerRef := v\<rparr>"
| "stored _ d = d"

definition prov_data :: "DynamicIstiodCertProvisioner \<Rightarrow> prov_state \<Rightarrow> bool" where
  "prov_data d s \<longleftrightarrow>
     ps_dicp s = stored (ps_pc s) (foldl handleNewIssuer d (ps_handled s)) \<and>
     (dicp_initialIssuerRef d \<noteq> None \<longrightarrow> ps_pc s \<noteq> ProvSend None) \<and>
     (\<exists>taken. ps_announced s = taken @ ps_incoming s \<and> ps_handled s @ in_hand d (ps_pc s) = first_issuer d @ taken)"

definition prov_lock :: "prov_state \<Rightarrow> bool" where
  "prov_lock s \<longleftrightarrow>
     (ps_mutex s = Some Provisioner \<longleftrightarrow> (\<exists>v. ps_pc s = ProvSend v)) \<and>
     (\<forall>i. ps_mutex s = Some (Worker i) \<longleftrightarrow> i < length (ps_workers s) \<and> ps_workers s ! i = WorkerReconciling)"

lemma handleNewIssuer_initial [simp]:
  "dicp_initialIssuerRef (handleNewIssuer d v) = dicp_initialIssuerRef d"
  "dicp_opts (handleNewIssuer d v) = dicp_opts d"
  by (simp_all add: handleNewIssuer_def)

lemma handled_initial [simp]:
  "dicp_initialIssuerRef (foldl handleNewIssuer d vs) = dicp_initialIssuerRef d"
  "dicp_opts (foldl handleNewIssuer d vs) = dicp_opts d"
  by (induction vs arbitrary: d) simp_all

lemma prov_data_step:
  assumes "prov_step s s'" "prov_data d s"
  shows "prov_data d s'"
  using assms(1)
proof cases
  case (send v)
  with assms(2) show ?thesis
    by (auto simp: prov_data_def handleNewIssuer_def certificate_event_def)
next
  case (receive v vs)
  with assms(2) obtain taken where "ps_announced s = taken @ v # vs" "ps_handled s = first_issuer d @ taken"
    by (auto simp: prov_data_def)
  with receive assms(2) show ?thesis by (auto simp: prov_data_def intro!: exI [of _ "taken @ [v]"])
qed (use assms(2) in \<open>auto simp: prov_data_def first_issuer_def handleNewIssuer_def\<close>)

lemma prov_lock_worker:
  assumes "prov_lock s" "i < length (ps_workers s)" "ps_mutex s = None \<or> ps_mutex s = Some (Worker i)" "w = WorkerReconciling \<longleftrightarrow> m = Some (Worker i)"
    "m = None \<or> m = Some (Worker i)"
  shows "prov_lock (s\<lparr>ps_workers := (ps_workers s)[i := w], ps_mutex := m\<rparr>)"
proof -
  have "\<not> (\<exists>v. ps_pc s = ProvSend v)" using assms(1,3) unfolding prov_lock_def by (metis lock_owner.distinct(1) option.distinct(1) option.inject)
  moreover have "ps_workers s ! j \<noteq> WorkerReconciling" if "j < length (ps_workers s)" "j \<noteq> i" for j
    using assms(1,3) that unfolding prov_lock_def by (metis lock_owner.inject option.distinct(1) option.inject)
  ultimately show ?thesis using assms(2,4,5) by (auto simp: prov_lock_def nth_list_update)
qed

lemma prov_lock_step:
  assumes "prov_step s s'" "prov_lock s"
  shows "prov_lock s'"
  using assms(1)
proof cases
  case (reconcile i)
  then show ?thesis using prov_lock_worker [OF assms(2), of i WorkerReconciling "Some (Worker i)"] by simp
next
  case (reconciled i)
  have "ps_mutex s = Some (Worker i)" using assms(2) reconciled by (simp add: prov_lock_def)
  then show ?thesis using prov_lock_worker [OF assms(2), of i WorkerIdle None] reconciled by simp
next
  case (send v)
  with assms(2) have m: "ps_mutex s = Some Provisioner" by (simp add: prov_lock_def)
  with assms(2) have "\<not> (i < length (ps_workers s) \<and> ps_workers s ! i = WorkerReconciling)" for i
    unfolding prov_lock_def by (metis lock_owner.distinct(1) option.inject)
  with send show ?thesis by (simp add: prov_lock_def)
qed (use assms(2) in \<open>simp_all add: prov_lock_def\<close>)

lemma prov_outside_data: "prov_outside s s' \<Longrightarrow> prov_data d s \<Longrightarrow> prov_data d s'"
  by (induction rule: prov_outside.induct) (simp_all add: prov_data_def)

lemma prov_outside_lock: "prov_outside s s' \<Longrightarrow> prov_lock s \<Longrightarrow> prov_lock s'"
proof (induction rule: prov_outside.induct)
  case (request i s)
  have "k < length (ps_workers s) \<and> (ps_workers s)[i := WorkerLock] ! k = WorkerReconciling \<longleftrightarrow>
      k < length (ps_workers s) \<and> ps_workers s ! k = WorkerReconciling" for k
    using request(2) by (cases "k = i") auto
  with request(3) show ?case by (simp add: prov_lock_def)
qed (simp_all add: prov_lock_def)

lemma prov_inv_reach: "prov_any\<^sup>*\<^sup>* (prov_init d n) s \<Longrightarrow> prov_data d s \<and> prov_lock s"
proof (induction rule: rtranclp_induct)
  case base
  then show ?case by (simp add: prov_init_def prov_data_def prov_lock_def)
next
  case (step s s')
  then show ?case using prov_data_step prov_lock_step prov_outside_data prov_outside_lock unfolding prov_any_def by blast
qed

section \<open>Everything pending completes\<close>

fun pc_left :: "prov_pc \<Rightarrow> nat" where
  "pc_left ProvStart = 4"
| "pc_left (ProvLock v) = 3"
| "pc_left (ProvSend v) = 2"
| "pc_left ProvSelect = 1"
| "pc_left ProvReturned = 0"

fun worker_left :: "worker_pc \<Rightarrow> nat" where
  "worker_left WorkerLock = 2"
| "worker_left WorkerReconciling = 1"
| "worker_left WorkerIdle = 0"

definition prov_left :: "prov_state \<Rightarrow> nat" where
  "prov_left s = 3 * length (ps_incoming s) + pc_left (ps_pc s) + sum_list (map worker_left (ps_workers s))"

definition prov_rest :: "prov_state \<Rightarrow> bool" where
  "prov_rest s \<longleftrightarrow> (\<forall>w \<in> set (ps_workers s). w = WorkerIdle) \<and>
     (ps_pc s = ProvReturned \<or> ps_pc s = ProvSelect \<and> ps_incoming s = [] \<and> \<not> ps_cancelled s)"

lemma sum_list_worker:
  "i < length ws \<Longrightarrow> sum_list (map worker_left (ws[i := w])) + worker_left (ws ! i) = sum_list (map worker_left ws) + worker_left w"
  by (induction ws arbitrary: i) (auto split: nat.splits)

lemma prov_step_left: "prov_step s s' \<Longrightarrow> prov_left s' < prov_left s"
proof (induction rule: prov_step.induct)
  case (reconcile i s)
  with sum_list_worker [OF reconcile(1), of WorkerReconciling] show ?case by (simp add: prov_left_def)
next
  case (reconciled i s)
  with sum_list_worker [OF reconciled(1), of WorkerIdle] show ?case by (simp add: prov_left_def)
qed (simp_all add: prov_left_def)

lemma prov_step_keeps:
  "prov_step s s' \<Longrightarrow> ps_source s' = ps_source s \<and> ps_cancelled s' = ps_cancelled s \<and> ps_announced s' = ps_announced s"
  by (induction rule: prov_step.induct) simp_all

lemma prov_progress:
  assumes "prov_lock s" "ps_source s" "\<not> prov_rest s"
  shows "\<exists>s'. prov_step s s'"
proof (cases "ps_mutex s")
  case (Some owner)
  show ?thesis
  proof (cases owner)
    case Provisioner
    with Some assms(1) obtain v where "ps_pc s = ProvSend v" by (auto simp: prov_lock_def)
    from prov_step.send [OF this assms(2)] show ?thesis by blast
  next
    case (Worker i)
    with Some assms(1) have "i < length (ps_workers s)" "ps_workers s ! i = WorkerReconciling"
      unfolding prov_lock_def by blast+
    from prov_step.reconciled [OF this] show ?thesis by blast
  qed
next
  case None
  show ?thesis
  proof (cases "\<forall>w \<in> set (ps_workers s). w = WorkerIdle")
    case False
    then obtain i where i: "i < length (ps_workers s)" "ps_workers s ! i \<noteq> WorkerIdle" by (auto simp: in_set_conv_nth)
    then show ?thesis
      using prov_step.reconcile [OF i(1) _ None] prov_step.reconciled [OF i(1)]
      by (cases "ps_workers s ! i") auto
  next
    case True
    show ?thesis
    proof (cases "ps_pc s")
      case ProvStart
      from prov_step.begins [OF this] show ?thesis by blast
    next
      case ProvSelect
      with assms(3) True have "ps_cancelled s \<or> ps_incoming s \<noteq> []" by (auto simp: prov_rest_def)
      with ProvSelect prov_step.shuts_down [OF ProvSelect] prov_step.receive [OF ProvSelect] show ?thesis
        by (cases "ps_incoming s") auto
    next
      case (ProvLock v)
      with None prov_step.keep [of s] prov_step.store [OF ProvLock None] show ?thesis by blast
    next
      case (ProvSend v)
      from prov_step.send [OF this assms(2)] show ?thesis by blast
    next
      case ProvReturned
      with assms(3) True show ?thesis by (simp add: prov_rest_def)
    qed
  qed
qed

section \<open>Properties\<close>

text \<open>
  C28: The interleaving of the loop of \<open>Start\<close> with the workers changes nothing. Whenever the loop is at its
  \<open>select\<close>, the provisioner is what the function \<open>Istiod_Start\<close> makes of the notifications received so far,
  in the order they came; and \<open>Reconcile\<close> and \<open>handleNewIssuer\<close> exclude each other: while a worker is in
  \<open>Reconcile\<close>, no other is and no issuer is being stored.
\<close>

theorem provisioner_sequential:
  assumes "prov_any\<^sup>*\<^sup>* (prov_init d n) s"
  shows "(ps_pc s = ProvSelect \<longrightarrow> (\<exists>received. ps_announced s = received @ ps_incoming s \<and>
      ps_dicp s = Istiod_Start d received)) \<and>
    (\<forall>i < length (ps_workers s). ps_workers s ! i = WorkerReconciling \<longrightarrow> (\<forall>v. ps_pc s \<noteq> ProvSend v) \<and>
      (\<forall>j < length (ps_workers s). ps_workers s ! j = WorkerReconciling \<longrightarrow> j = i))"
proof -
  have inv: "prov_data d s" "prov_lock s" using prov_inv_reach [OF assms] by blast+
  have "\<exists>received. ps_announced s = received @ ps_incoming s \<and> ps_dicp s = Istiod_Start d received" if "ps_pc s = ProvSelect"
    using inv(1) that by (auto simp: prov_data_def Istiod_Start_def first_issuer_def)
  moreover have "\<forall>i < length (ps_workers s). ps_workers s ! i = WorkerReconciling \<longrightarrow> (\<forall>v. ps_pc s \<noteq> ProvSend v) \<and>
      (\<forall>j < length (ps_workers s). ps_workers s ! j = WorkerReconciling \<longrightarrow> j = i)"
    using inv(2) unfolding prov_lock_def by (metis lock_owner.distinct(1) lock_owner.inject option.inject)
  ultimately show ?thesis by blast
qed

text \<open>A run: the initial issuer is handled.\<close>

definition demo_prov_ready :: prov_state where
  "demo_prov_ready = (prov_init demo_dicp 1)\<lparr>ps_pc := ProvSelect, ps_handled := [Some demo_ref],
    ps_dicp := demo_dicp\<lparr>dicp_events := [certificate_event demo_dicp]\<rparr>\<rparr>"

lemma demo_prov_run: "(prov_step ^^ 3) (prov_init demo_dicp 1) demo_prov_ready"
proof -
  let ?s0 = "prov_init demo_dicp 1"
  let ?s1 = "?s0\<lparr>ps_pc := ProvLock (Some demo_ref)\<rparr>"
  let ?s2 = "?s0\<lparr>ps_pc := ProvSend (Some demo_ref), ps_mutex := Some Provisioner\<rparr>"
  have "prov_step ?s0 ?s1" using prov_step.begins [of ?s0] by (simp add: prov_init_def demo_dicp_def)
  moreover have "prov_step ?s1 ?s2"
    using prov_step.store [of ?s1 "Some demo_ref"] by (simp add: prov_init_def demo_dicp_def)
  moreover have "prov_step ?s2 demo_prov_ready"
    using prov_step.send [of ?s2 "Some demo_ref"]
    by (simp add: prov_init_def demo_dicp_def certificate_event_def demo_prov_ready_def)
  ultimately show ?thesis by (auto simp: numeral_3_eq_3)
qed

lemma prov_steps_any: "(prov_step ^^ k) s s' \<Longrightarrow> prov_any\<^sup>*\<^sup>* s s'"
  by (drule relpowp_imp_rtranclp, erule rtranclp_mono [THEN predicate2D, rotated]) (auto simp: prov_any_def)

theorem provisioner_sequential_witness:
  "\<exists>s. prov_any\<^sup>*\<^sup>* (prov_init demo_dicp 1) s \<and> ps_pc s = ProvSelect \<and> ps_dicp s = Istiod_Start demo_dicp []"
proof -
  have s: "ps_pc demo_prov_ready = ProvSelect" "ps_announced demo_prov_ready = []"
    by (simp_all add: prov_init_def demo_prov_ready_def)
  have "ps_dicp demo_prov_ready = Istiod_Start demo_dicp []"
    using provisioner_sequential [OF prov_steps_any [OF demo_prov_run]] s by simp
  with s(1) prov_steps_any [OF demo_prov_run] show ?thesis by blast
qed

text \<open>
  C29: The mutex and the channel do not deadlock: as long as the source reads the channel, every run of
  the program's own steps ends after at most \<open>prov_left\<close> of them, and when no step is left every worker
  has finished and every notification has been handled, or, after the end of the context, \<open>Start\<close> has
  returned.
\<close>

theorem provisioner_finishes:
  assumes "prov_any\<^sup>*\<^sup>* (prov_init d n) s" and "ps_source s" and "(prov_step ^^ k) s s'"
  shows "k \<le> prov_left s \<and> ((\<forall>s2. \<not> prov_step s' s2) \<longrightarrow> prov_rest s')"
proof -
  have "prov_lock s' \<and> ps_source s' \<and> prov_left s' + k \<le> prov_left s"
    using assms(3)
  proof (induction k arbitrary: s')
    case 0
    then show ?case using prov_inv_reach [OF assms(1)] assms(2) by simp
  next
    case (Suc k)
    then obtain s1 where s1: "(prov_step ^^ k) s s1" "prov_step s1 s'" by (auto elim: relpowp_Suc_E)
    from Suc.IH [OF s1(1)] prov_lock_step [OF s1(2)] prov_step_keeps [OF s1(2)] prov_step_left [OF s1(2)]
    show ?case by simp
  qed
  with prov_progress [of s'] show ?thesis by auto
qed

theorem provisioner_finishes_witness:
  "\<exists>s'. (prov_step ^^ 3) (prov_init demo_dicp 1) s' \<and> 3 \<le> prov_left (prov_init demo_dicp 1) \<and> prov_rest s'"
proof -
  have "ps_source (prov_init demo_dicp 1)" by (simp add: prov_init_def)
  note fin = provisioner_finishes [OF rtranclp.rtrancl_refl this demo_prov_run]
  have "\<not> prov_step demo_prov_ready s2" for s2
    by (auto elim!: prov_step.cases simp: demo_prov_ready_def prov_init_def)
  with fin demo_prov_run show ?thesis by blast
qed

text \<open>The provisioner hangs in its send: the source is gone and a worker waits for the mutex.\<close>

definition hanging :: "prov_state \<Rightarrow> bool" where
  "hanging s \<longleftrightarrow> \<not> ps_source s \<and> ps_pc s = ProvSend (Some demo_ref) \<and> ps_workers s \<noteq> [] \<and> ps_workers s ! 0 = WorkerLock \<and>
     prov_lock s"

lemma hanging_step:
  assumes "prov_any s s'" "hanging s"
  shows "hanging s'"
proof -
  have l: "prov_lock s'"
    using assms prov_lock_step prov_outside_lock by (auto simp: prov_any_def hanging_def)
  have m: "ps_mutex s = Some Provisioner" "\<not> ps_source s" "ps_pc s = ProvSend (Some demo_ref)"
    using assms(2) by (auto simp: hanging_def prov_lock_def)
  have r: "\<not> (i < length (ps_workers s) \<and> ps_workers s ! i = WorkerReconciling)" for i
    using assms(2) m(1) unfolding hanging_def prov_lock_def by (metis lock_owner.distinct(1) option.inject)
  from assms(1) show ?thesis unfolding prov_any_def
  proof
    assume "prov_step s s'"
    then show ?thesis by cases (use m r in auto)
  next
    assume "prov_outside s s'"
    then show ?thesis by cases (use assms(2) l in \<open>auto simp: hanging_def nth_list_update\<close>)
  qed
qed

lemma hanging_run: "prov_any\<^sup>*\<^sup>* s s' \<Longrightarrow> hanging s \<Longrightarrow> hanging s'"
  by (induction rule: rtranclp_induct) (auto intro: hanging_step)

text \<open>
  The shutdown may hang. When the context ends while \<open>handleNewIssuer\<close> is about to send, the source may
  stop reading first: the send never completes, \<open>Start\<close> never returns although its context is done,
  and a worker that waits for the mutex, which is held during the send, waits for ever.
\<close>

lemma shutdown_hangs:
  "\<exists>s. prov_any\<^sup>*\<^sup>* (prov_init demo_dicp 1) s \<and> ps_cancelled s \<and>
     (\<nexists>s'. prov_any\<^sup>*\<^sup>* s s' \<and> (ps_pc s' \<noteq> ProvSend (Some demo_ref) \<or> ps_workers s' ! 0 \<noteq> WorkerLock))"
proof -
  let ?s0 = "prov_init demo_dicp 1"
  let ?s1 = "?s0\<lparr>ps_pc := ProvLock (Some demo_ref)\<rparr>"
  let ?s2 = "?s0\<lparr>ps_pc := ProvSend (Some demo_ref), ps_mutex := Some Provisioner\<rparr>"
  let ?s3 = "?s2\<lparr>ps_workers := [WorkerLock]\<rparr>"
  let ?s4 = "?s3\<lparr>ps_cancelled := True\<rparr>" let ?s5 = "?s4\<lparr>ps_source := False\<rparr>"
  have "prov_any ?s0 ?s1" using prov_step.begins [of ?s0] by (simp add: prov_any_def prov_init_def demo_dicp_def)
  moreover have "prov_any ?s1 ?s2"
    using prov_step.store [of ?s1 "Some demo_ref"] by (simp add: prov_any_def prov_init_def demo_dicp_def)
  moreover have "prov_any ?s2 ?s3"
    using prov_outside.request [of 0 ?s2] by (simp add: prov_any_def prov_init_def)
  moreover have "prov_any ?s3 ?s4" "prov_any ?s4 ?s5"
    using prov_outside.cancel [of ?s3] prov_outside.source_ends [of ?s4] by (simp_all add: prov_any_def)
  ultimately have run: "prov_any\<^sup>*\<^sup>* ?s0 ?s5" by (meson converse_rtranclp_into_rtranclp rtranclp.rtrancl_refl)
  have "hanging ?s5" using prov_inv_reach [OF run] by (simp add: hanging_def prov_init_def)
  then have "hanging s'" if "prov_any\<^sup>*\<^sup>* ?s5 s'" for s' using hanging_run [OF that] by blast
  moreover have "ps_cancelled ?s5" by simp
  ultimately show ?thesis using run unfolding hanging_def by blast
qed

end
