(* ===== verification/Spec2Isabelle.thy ===== *)
theory Spec2Isabelle
  imports App Sign_Calls Fakes Istiod_System Server_Run File_Rollout Istiod_Lock
begin

text \<open>
  A verification development of istio-csr, the agent that lets cert-manager sign the certificates
  of an Istio mesh.

  \<^bold>\<open>The program.\<close> Workloads send certificate signing requests over gRPC (\<open>pkg/server\<close>). A request is
  authenticated, its CSR is checked to name the caller's identities and nothing else (\<open>auth.go\<close>,
  \<open>internal/extensions\<close>, for node proxies \<open>node_auth.go\<close>), and handed to the manager
  (\<open>pkg/certmanager\<close>), which creates a \<open>CertificateRequest\<close>, waits for it to be signed and returns
  the bundle; the server verifies the chain against the mesh's roots and answers. The TLS provider
  (\<open>pkg/tls\<close>) gets the server's own certificate from the same manager, renews it and holds the
  roots, which come from a file (\<open>pkg/tls/rootca\<close>) or from the issuer. A controller
  (\<open>pkg/controller\<close>) writes the roots to a ConfigMap in every namespace, another one
  (\<open>pkg/istiodcert\<close>) keeps the certificate of istiod. The issuer may be changed at run time through
  a ConfigMap the manager watches; it tells its subscribers. \<open>cmd/app\<close> builds and starts all this.

  \<^bold>\<open>The theories\<close>, each with its model first, then lemmas, then properties:
  \<^item> \<open>Istio_Prelude\<close>: Go errors, outcomes of a computation (\<open>Return\<close>, \<open>Panic\<close>, \<open>Blocked\<close>), strings
    and \<open>int64\<close> durations, shared lemmas.
  \<^item> \<open>Asn1\<close>: what \<open>encoding/asn1\<close> parses, an encoder, and that the parser reads it back.
  \<^item> \<open>Extensions\<close>: \<open>extensions.go\<close>. Exact sets of accepted key usages, SANs, usages and extensions.
  \<^item> \<open>Node_Auth\<close>: \<open>node_auth.go\<close>. Impersonation is limited to pods on the caller's own node.
  \<^item> \<open>Auth\<close>: \<open>auth.go\<close>. \<open>identitiesMatch\<close> is equality of multisets; exactly which requests pass.
  \<^item> \<open>Cert_Manager\<close>: \<open>certmanager.go\<close>. \<open>Sign\<close> is its body once the call has the read lock, which
    \<open>Sign_Lock\<close> and \<open>Sign_Calls\<close> add. The request \<open>Sign\<close> creates, the wait for a verdict against the
    specification \<open>first_verdict\<close>, cleanup, the active issuer against the specification \<open>config_of\<close>;
    the locale \<open>signer\<close> is the contract of \<open>certmanager.Signer\<close>, interpreted as \<open>mgr\<close>.
  \<^item> \<open>Issuer_Notify\<close>: the delivery goroutines and \<open>WaitForIssuerConfig\<close> as the step relation
    \<open>notify_step\<close>; safe while nothing is closed, not after; a waiter is woken, but may miss a change.
  \<^item> \<open>Sign_Lock\<close>: the read-write lock around the active issuer as the step relation \<open>lock_step\<close>.
  \<^item> \<open>Sign_Calls\<close>: concurrent calls of \<open>Sign\<close> in single steps on one cluster, as \<open>sign_step\<close>. It refines
    \<open>lock_step\<close>, and each call amounts to the function \<open>Sign\<close> run alone; exactly when a call waits, for
    the lock or for a verdict; a deadline frees the lock.
  \<^item> \<open>Rootca\<close>: \<open>rootca.go\<close>, the file watcher and its invariant.
  \<^item> \<open>Rootca_Watch\<close>: the watcher together with the file, as the relation \<open>file_step\<close>: others change the
    file while the goroutine takes events; it follows the file, except at the start and after a rename.
  \<^item> \<open>Tls_Interface\<close>: \<open>RootCAs\<close> and the locale \<open>tls_provider\<close>, the contract of \<open>tls.Interface\<close>,
    interpreted as \<open>prov\<close>.
  \<^item> \<open>Curves\<close>: \<open>curves.go\<close> with the UTF-8, white space and number parsing it uses.
  \<^item> \<open>Tls_Provider\<close>: \<open>tls.go\<close>, with \<open>Start\<close> and \<open>mustFetchCertificate\<close> as the machine
    \<open>provider_step\<close>; security of every configuration served, readiness, renewal times.
  \<^item> \<open>Server\<close>: \<open>server.go\<close>; the locale \<open>certificate_service\<close> joins the two contracts for the lemmas
    on \<open>CreateCertificate\<close> and is interpreted as \<open>svc\<close>; a concrete service for the witnesses.
  \<^item> \<open>Server_Run\<close>: \<open>Start\<close>, its stop goroutine and the calls in flight as the relation \<open>start_step\<close>; no
    call is lost by a graceful stop, and the stop ends.
  \<^item> \<open>Kube_Store\<close>: the API client the controllers use and the laws they rely on.
  \<^item> \<open>Work_Queue\<close>: the queue that calls \<open>Reconcile\<close>, as the relation \<open>queue_step\<close> over every order of
    taking, reading, finishing, failing and outside changes; the locale \<open>reconciler\<close> is the contract
    of a controller, with the invariant that no request is lost, the bound on the work left and that
    it can always be done.
  \<^item> \<open>Configmap_Controller\<close>: \<open>configmap.go\<close>; registration, desired state, minimal writes.
  \<^item> \<open>Configmap_Queue\<close>: its three watches and \<open>Reconcile\<close> under the queue; the interpretation \<open>cmq\<close>.
  \<^item> \<open>Root_Rollout\<close>: provider, announcements, their handler and the controller's queue together.
  \<^item> \<open>File_Rollout\<close>: the two relations \<open>file_step\<close> and \<open>rollout_step\<close> joined by the channel between watcher
    and provider, from a change of the root file to the ConfigMap in every namespace.
  \<^item> \<open>Istiod_Cert\<close>: \<open>options.go\<close> and \<open>worker.go\<close> of \<open>pkg/istiodcert\<close>; validation, DNS names, the
    Certificate, the handling of a new issuer.
  \<^item> \<open>Istiod_Lock\<close>: the loop of its \<open>Start\<close> and its workers with mutex and channel, as \<open>prov_step\<close>: they
    amount to the functions of \<open>Istiod_Cert\<close> and do not deadlock, except at shutdown.
  \<^item> \<open>Istiod_Queue\<close>: its watches and \<open>Reconcile\<close> under the queue; the interpretation \<open>isq\<close>.
  \<^item> \<open>Issuer_Delivery\<close>: the delivery goroutines of \<open>Issuer_Notify\<close> and the provisioner's loop together,
    with what was announced and received as history variables; exactly-once delivery, and when the
    provisioner holds the manager's issuer.
  \<^item> \<open>Istiod_System\<close>: the two preceding theories in one relation, from a change of the configuration to
    the istiod Certificate: at rest it has the active issuer, it catches up
    after every change but a withdrawal, and a withdrawal does not reach it. \<open>replica_step\<close> are the
    steps the replica makes on its own.
  \<^item> \<open>Flags\<close>: the options and the table of command-line flags of \<open>options.go\<close> and of
    \<open>istiodcert.AddFlags\<close>; the locale \<open>flag_table\<close> says what makes a table well-formed and is
    interpreted as \<open>flags\<close>; the options as a function of the command line, field by field.
  \<^item> \<open>App\<close>: \<open>cmd/app\<close> and \<open>main.go\<close>; \<open>Complete\<close>, the start-up \<open>RunE\<close> and the options it gives the
    controller manager, readiness, leader election, usage and help texts, the
    exit code.
  \<^item> \<open>Fakes\<close>: the two test doubles, and when they keep the contracts \<open>tls_provider\<close> and \<open>signer\<close>.
  \<^item> this theory: properties of a whole call of \<open>CreateCertificate\<close> through server, manager and
    provider, and of the started program: the roots reach every namespace, and the chains the
    service returns end with the roots the mesh has.

  \<^bold>\<open>How code is represented.\<close> A struct is a record, an operation a function from the state to the
  result and the new state, keeping the order of guards and calls of the source. A value and an
  error are \<open>error + 'a\<close>; error values carry the format string of the source. Code outside the
  repository (API clients, Istio's authenticators, cert-manager's pki package, x509 verification,
  key generation, flag parsers) is an argument; where a property relies on it, the documented
  behaviour is a named hypothesis (\<open>aggregate_law\<close>, \<open>informer_law\<close>, \<open>store_law\<close>, \<open>isolated_writes\<close>,
  \<open>noop_updates\<close>, \<open>kube_flags_law\<close>) with a concrete instance in the witnesses. Where something must come
  to an end, \<open>serves\<close> says that the API is available from then on: a Create of an object that is not
  there and an Update of one that is there succeed; the others fail with \<open>AlreadyExists\<close> and \<open>NotFound\<close>. The work queue of
  controller-runtime is not an argument but a relation that allows everything its documentation
  does: requests are merged, one request is never worked on twice at a time, a failed one comes back.
  \<open>Reconcile\<close> reads its environment at one moment and the API at a later one; what changes in between
  enqueues the request again. A loop that waits for the outside takes what arrives as a list and is
  structurally recursive on it; \<open>Blocked\<close> is the result when the list ends without a decision, so no
  fuel is needed. Goroutines, locks and channels are step relations with explicit interleaving
  where a property depends on them; elsewhere an operation is one step, as its lock makes it.

  \<^bold>\<open>Not modelled.\<close> Log output, metrics other than the success label of the provider,
  the reading of the command line into flag values (cobra, pflag), TLS handshakes, the election of a
  leader, timers and back-off beyond their order. Time is an integer of nanoseconds where it is
  computed with. Tests and the generators under \<open>test\<close> have no model.

  \<^bold>\<open>What the properties found.\<close> Besides what the code does right, some theorems show behaviour that
  contradicts a comment or can hardly be meant: the class of a general name is not checked; large
  validity durations and long-lived serving certificates overflow \<open>int64\<close>; a delivery goroutine may
  index a list that has become shorter; a waiter may miss a configuration; a signing call that does
  not return blocks the configuration; a withdrawn issuer stays in the istiod Certificate, and so may
  the first of two issuers configured in quick succession; a stopped server may report ready; a change of the root file at the start, and any after a rename, is missed;
  the provisioner of the istiod certificate may hang when it is stopped; the watcher ignores cancellation while it cannot connect; a new root file
  does not reach the verifier in use until the next renewal.

  \<^bold>\<open>Left to do.\<close> Start and stop of all runnables under the controller manager, and the exit code after a
  shutdown.
\<close>

section \<open>Properties of the whole service\<close>

text \<open>
  C1: A call of \<open>CreateCertificate\<close> makes cert-manager see a new \<open>CertificateRequest\<close> only for an
  authenticated caller whose CSR is plain and names exactly the caller's identities (or the one
  identity the node authorizer lets it impersonate). It is then one request, with the client's
  CSR, client and server authentication as usages, not for a CA, for the active issuer, and no
  longer than the configured maximum.
\<close>

theorem create_certificate_authorised:
  assumes "CreateCertificate env pki (Sign cmenv m) roots ctxErr s cl ctx icr = (r, cl')"
    and "created_requests cl' \<noteq> created_requests cl"
  shows "\<exists>caller csr cr.
    authenticate_loop (srv_authenticators s) ctx = Some (Some caller) \<and>
    caller_Identities caller \<noteq> [] \<and>
    env_ParsePemEncodedCSR env (icr_Csr icr) = Inr csr \<and> plain_csr env csr \<and>
    (if impersonated env icr = []
     then mset (map (env_URL_String env) (csr_URIs csr)) = mset (caller_Identities caller)
     else map (env_URL_String env) (csr_URIs csr) = [impersonated env icr] \<and>
       (\<exists>na. srv_nodeAuthorizer s = Some na \<and>
          authenticateImpersonation (env_ParseIdentity env) na (caller_KubernetesInfo caller)
            (impersonated env icr) = None)) \<and>
    created_requests cl' = created_requests cl @ [cr] \<and> cr_Request cr = icr_Csr icr \<and>
    cr_Usages cr = [UsageClientAuth, UsageServerAuth] \<and> \<not> cr_IsCA cr \<and>
    Some (cr_IssuerRef cr) = mgr_activeIssuerRef m \<and>
    sint (cr_Duration cr) \<le> sint (so_MaximumClientCertificateDuration (srv_opts s))"
proof -
  obtain ids cr where a: "authRequest env s ctx icr = Return (ids, True)"
    and c: "created_requests cl' = created_requests cl @ [cr]" "cr_Request cr = icr_Csr icr"
      "cr_Usages cr = [UsageClientAuth, UsageServerAuth]" "\<not> cr_IsCA cr"
    and d: "cr_Duration cr = request_duration s icr"
    using svc.creates_only_authorised [OF assms] by metis
  have i: "Some (cr_IssuerRef cr) = mgr_activeIssuerRef m"
    using create_certificate_issuer [OF assms(1) c(1)] .
  from a obtain caller csr where p:
    "authenticate_loop (srv_authenticators s) ctx = Some (Some caller)"
    "caller_Identities caller \<noteq> []" "requested_identities env s caller (impersonated env icr) = Inr ids"
    "env_ParsePemEncodedCSR env (icr_Csr icr) = Inr csr" "plain_csr env csr"
    "identitiesMatch (env_URL_String env)
       (if impersonated env icr = [] then caller_Identities caller else [impersonated env icr])
       (csr_URIs csr)"
    unfolding authRequest_True csr_checks_iff by blast
  then have "if impersonated env icr = []
     then mset (map (env_URL_String env) (csr_URIs csr)) = mset (caller_Identities caller)
     else map (env_URL_String env) (csr_URIs csr) = [impersonated env icr] \<and>
       (\<exists>na. srv_nodeAuthorizer s = Some na \<and>
          authenticateImpersonation (env_ParseIdentity env) na (caller_KubernetesInfo caller)
            (impersonated env icr) = None)"
    unfolding requested_identities_Inr
    by (cases "impersonated env icr = []") (simp_all add: identitiesMatch_single, simp add: identitiesMatch_mset)
  with p c i d request_duration_bounded [of s icr] show ?thesis by metis
qed

theorem create_certificate_authorised_witness:
  "\<exists>cr. created_requests (snd (CreateCertificate world_auth world_pki (Sign demo_env demo_manager)
       (Provider_RootCAs [PollTick world_root]) (Errorf ''done'') world_server demo_cluster () demo_icr))
     = [cr] \<and> cr_Request cr = ''csr'' \<and> sint (cr_Duration cr) \<le> 3600000000000"
proof -
  obtain r cl' where c: "CreateCertificate world_auth world_pki (Sign demo_env demo_manager)
       (Provider_RootCAs [PollTick world_root]) (Errorf ''done'') world_server demo_cluster () demo_icr
     = (r, cl')"
    by (metis surj_pair)
  then have "created_requests cl' \<noteq> created_requests demo_cluster"
    using world_creates [of "Errorf ''done''"] by simp
  from create_certificate_authorised [OF c this] c show ?thesis
    by (auto simp: created_requests_def demo_cluster_def map_filter_simps demo_icr_def
        world_server_def demo_srv_opts_def)
qed

text \<open>
  C2: A chain \<open>CreateCertificate\<close> returns was verified: it is the encoded certificates of the
  issuer's chain followed by the PEM of the mesh roots, which is not empty, and the leaf verified,
  for client and server authentication, against the pool of those very roots (never against the
  operating system's, which a nil pool would select), which the TLS provider held during the call.
\<close>

theorem create_certificate_verified:
  assumes "CreateCertificate env pki (Sign cmenv m) (Provider_RootCAs polls) ctxErr s cl ctx icr =
    (Return (Inr chain), cl')"
  shows "\<exists>leaf inter r pool es. chain = es @ [rc_PEM r] \<and> rc_PEM r \<noteq> [] \<and>
    map (pki_EncodeX509 pki) (leaf # inter) = map Inr es \<and>
    rc_CertPool r = Some pool \<and> PollTick r \<in> set polls \<and>
    pki_Verify pki leaf \<lparr>vo_Intermediates = inter, vo_Roots = Some pool,
      vo_KeyUsages = [ExtKeyUsageClientAuth, ExtKeyUsageServerAuth]\<rparr> = None"
proof -
  obtain b r pool where b: "parseCertificateBundle pki (Provider_RootCAs polls) ctxErr b = Return (Inr chain)"
    and r: "Provider_RootCAs polls = Return (Some r)"
    and pool: "rc_CertPool r = Some pool" "rc_PEM r \<noteq> []"
    using svc.answer_verified [OF assms] by metis
  show ?thesis
    using parseCertificateBundle_Inr [OF b [unfolded r]] pool Provider_RootCAs_held [OF r]
    by metis
qed

theorem create_certificate_verified_witness:
  "\<exists>es. [''cert'', ''root''] = es @ [rc_PEM world_root] \<and>
     fst (CreateCertificate world_auth world_pki (Sign demo_env demo_manager)
       (Provider_RootCAs [PollTick world_root]) (Errorf ''done'') world_server demo_cluster () demo_icr)
     = Return (Inr [''cert'', ''root''])"
proof -
  obtain cl' where c: "CreateCertificate world_auth world_pki (Sign demo_env demo_manager)
       (Provider_RootCAs [PollTick world_root]) (Errorf ''done'') world_server demo_cluster () demo_icr
     = (Return (Inr [''cert'', ''root'']), cl')"
    using world_answers [of "Errorf ''done''"] by (metis fst_conv surj_pair)
  from create_certificate_verified [OF c] c show ?thesis by auto
qed

text \<open>
  C3: Exactly when a caller gets a certificate, and which: the request is let through, an issuer is
  active, the API creates the request for the caller, and lets it be watched and read, its first
  decisive state is signed, its certificate parses to a chain whose leaf verifies against the
  provider's roots, and every certificate of the chain can be encoded. The answer is then that chain
  followed by the roots. \<open>Unauthenticated\<close> is the answer exactly to requests that are not let through.
\<close>

theorem create_certificate_exact:
  "(fst (CreateCertificate env pki (Sign cmenv m) (Provider_RootCAs polls) ctxErr s cl ctx icr) = Return (Inr chain) \<longleftrightarrow>
    (\<exists>ids ref cr0 w0 watcher w1 cr w2 signedCR pem leaf inter r es.
      authRequest env s ctx icr = Return (ids, True) \<and> mgr_activeIssuerRef m = Some ref \<and>
      env_Create cmenv (cl_api cl) (new_request m ref ids (icr_Csr icr) (request_duration s icr)
        [UsageClientAuth, UsageServerAuth]) = (Inr cr0, w0) \<and>
      env_Watch cmenv w0 (cr_Name cr0) = (Inr watcher, w1) \<and> env_Get cmenv w1 (cr_Name cr0) = (Inr cr, w2) \<and>
      first_verdict (verdict cmenv cr # map (event_verdict cmenv) (wt_Events watcher)) (wt_Closed watcher) =
        Return (Inr signedCR) \<and>
      pki_ParseSingleCertificateChainPEM pki (cr_Certificate signedCR) = Inr pem \<and>
      pki_DecodeX509CertificateChainBytes pki pem = Inr (leaf # inter) \<and>
      Provider_RootCAs polls = Return (Some r) \<and>
      pki_Verify pki leaf \<lparr>vo_Intermediates = inter, vo_Roots = rc_CertPool r,
        vo_KeyUsages = [ExtKeyUsageClientAuth, ExtKeyUsageServerAuth]\<rparr> = None \<and>
      map (pki_EncodeX509 pki) (leaf # inter) = map Inr es \<and> chain = es @ [rc_PEM r])) \<and>
   (fst (CreateCertificate env pki (Sign cmenv m) (Provider_RootCAs polls) ctxErr s cl ctx icr) =
      Return (Inl Unauthenticated) \<longleftrightarrow> (\<exists>ids. authRequest env s ctx icr = Return (ids, False)))"
proof (rule conjI)
  show "fst (CreateCertificate env pki (Sign cmenv m) (Provider_RootCAs polls) ctxErr s cl ctx icr) =
      Return (Inl Unauthenticated) \<longleftrightarrow> (\<exists>ids. authRequest env s ctx icr = Return (ids, False))"
    by (rule CreateCertificate_Unauthenticated)
qed (unfold CreateCertificate_iff Sign_Inr_iff parseCertificateBundle_iff, force)

text \<open>
  A request that is not let through has no effect: no call reaches cert-manager and the
  answer is the status \<open>Unauthenticated\<close>, except that the call panics when an authenticator
  reports success without a caller.
\<close>

lemma refused_no_effect:
  assumes "\<And>ids. authRequest env s ctx icr \<noteq> Return (ids, True)"
  shows "CreateCertificate env pki (Sign cmenv m) roots ctxErr s cl ctx icr =
    (if authenticate_loop (srv_authenticators s) ctx = Some None then Panic
     else Return (Inl Unauthenticated), cl)"
proof (cases "authRequest env s ctx icr")
  case (Return x)
  with assms authRequest_Panic [of env s ctx icr] show ?thesis
    by (cases x) (auto simp: CreateCertificate_def)
next
  case Panic
  then show ?thesis using authRequest_Panic [of env s ctx icr] by (simp add: CreateCertificate_def)
next
  case Blocked
  then show ?thesis using authRequest_not_Blocked [of env s ctx icr] by simp
qed

section \<open>Properties of the whole program\<close>

lemma RunE_rollout:
  fixes a :: "('c, 'kp, 'v, 'ctx) app"
  assumes "RunE renv opts = Inr a"
  shows "rollout_inv client (reg_rootCAsEvent (app_configmap a)) (rollout_init (app_tls a) (app_configmap a) st k)"
proof -
  obtain o2 :: AppOptions and tls :: "('c, 'kp, 'v) Provider" where
    t: "NewProvider (re_TLSVersion renv) (re_TLSCipherSuites renv) (re_Nd renv) (ao_TLS o2) = Inr tls" and
    k: "AddConfigMapController (re_configmapClient renv) (re_labels_Parse renv) (re_configmapComplete renv)
       SubscribeRootCAsEvent (configmap_options o2 tls) = (Inr (app_configmap a), app_tls a)"
    by (rule RunE_Inr [OF assms]) blast
  show ?thesis by (rule rollout_inv_init [OF t k])
qed

text \<open>A program that reads its roots from a file, for the witnesses.\<close>

definition world_options :: AppOptions where
  "world_options = default_options\<lparr>ao_TLS := (ao_TLS default_options)\<lparr>to_RootCAsCertFile := ''ca.pem''\<rparr>\<rparr>"

lemma world_complete: "\<exists>o2. Complete (re_complete demo_run) world_options = (None, o2)"
  by (simp add: Complete_def demo_run_def world_options_def default_options_def Validate_def)

lemma world_runs: "\<exists>a. RunE demo_run world_options = Inr (a :: (string, string, string, unit) app)"
proof -
  obtain o2 where o2: "Complete (re_complete demo_run) world_options = (None, o2)" using world_complete by blast
  have "snd (None :: error option, ao_IstiodCert o2) = snd (Validate (ce_ToUpper (re_complete demo_run))
      (ce_IsDNS1123Subdomain (re_complete demo_run)) ((ao_IstiodCert world_options)
      \<lparr>io_MaxConcurrentReconciles := oc_MaxConcurrentReconciles (ao_Controller world_options)\<rparr>))"
    unfolding Complete_None(8) [OF o2] ..
  then have "\<not> io_Enabled (ao_IstiodCert o2)" by (simp add: world_options_def default_options_def Validate_def)
  then show ?thesis
    using o2 Complete_None(5-7,9) [OF o2]
    by (simp add: RunE_def demo_run_def world_options_def default_options_def New_def
        handleOriginalIssuerRef_def seq_def wrap_check_def register_def start_istiod_def NewProvider_def
        ParseCurvePreferences_def VersionTLS12_def Server_New_def HasRuntimeConfiguration_def
        AddConfigMapController_def SubscribeRootCAsEvent_def)
qed

lemma world_scenario:
  fixes a :: "(string, string, string, unit) app" and st :: "unit cluster"
  assumes "RunE demo_run world_options = Inr a"
  shows "\<exists>s. (rollout_step demo_tls_env (Sign demo_env demo_manager) (list_client km_key)
       (reg_rootCAsEvent (app_configmap a)))\<^sup>*\<^sup>* (rollout_init (app_tls a) (app_configmap a) st demo_kube) s \<and>
    at_rest (reg_rootCAsEvent (app_configmap a)) s \<and> prv_rootCAs (provider_of s) = demo_roots \<and>
    eligible (fst (wq_env (ro_controller s))) (snd (wq_env (ro_controller s))) ''a''"
proof -
  obtain o2 and tls :: "(string, string, string) Provider" where
    c: "Complete (re_complete demo_run) world_options = (None, o2)" and
    t: "NewProvider (re_TLSVersion demo_run) (re_TLSCipherSuites demo_run) (re_Nd demo_run) (ao_TLS o2) = Inr tls" and
    k: "AddConfigMapController (re_configmapClient demo_run) (re_labels_Parse demo_run) (re_configmapComplete demo_run)
       SubscribeRootCAsEvent (configmap_options o2 tls) = (Inr (app_configmap a), app_tls a)"
    by (rule RunE_Inr [OF assms]) blast
  have "to_RootCAsCertFile (ao_TLS o2) \<noteq> []" unfolding Complete_None(7) [OF c] by (simp add: world_options_def)
  moreover have "ctl_namespaceSelector (reg_controller (app_configmap a)) = (\<lambda>_. True)"
    using AddConfigMapController_Inr(1) [OF k] by (simp add: demo_run_def)
  ultimately show ?thesis by (intro rollout_scenario [OF t _ k _ demo_law serves_list_client TrueI])
qed

text \<open>
  C11: Nothing is lost on the way of the roots to the mesh: in a program that was started, whatever the
  order of root changes, renewals, namespaces that come and go, edits of ConfigMaps by others, failed
  calls and retries, when no announcement, event or request is under way, every selected namespace
  that is not terminating has the roots the TLS provider holds in its ConfigMap.
\<close>

theorem rest_is_rolled_out:
  fixes a :: "('c, 'kp, 'v, 'ctx) app"
  assumes "RunE renv opts = Inr a" and "cm_law client"
    and "(rollout_step env sign client (reg_rootCAsEvent (app_configmap a)))\<^sup>*\<^sup>*
      (rollout_init (app_tls a) (app_configmap a) st k) s"
    and "at_rest (reg_rootCAsEvent (app_configmap a)) s"
  shows "rolled_out client s"
  by (rule rest_rolled_out [OF rollout_inv_run [OF assms(3,2) RunE_rollout [OF assms(1)]] assms(4)])

theorem rest_is_rolled_out_witness:
  "\<exists>(a :: (string, string, string, unit) app) (s :: (string, string, string, unit cluster, KConfigMap list) rollout).
     RunE demo_run world_options = Inr a \<and> rolled_out (list_client km_key) s \<and>
     eligible (fst (wq_env (ro_controller s))) (snd (wq_env (ro_controller s))) ''a''"
proof -
  obtain a :: "(string, string, string, unit) app" where a: "RunE demo_run world_options = Inr a"
    using world_runs by blast
  obtain s :: "(string, string, string, unit cluster, KConfigMap list) rollout" where
    s: "(rollout_step demo_tls_env (Sign demo_env demo_manager) (list_client km_key)
       (reg_rootCAsEvent (app_configmap a)))\<^sup>*\<^sup>* (rollout_init (app_tls a) (app_configmap a) demo_cluster demo_kube) s"
    "at_rest (reg_rootCAsEvent (app_configmap a)) s"
    "eligible (fst (wq_env (ro_controller s))) (snd (wq_env (ro_controller s))) ''a''"
    using world_scenario [OF a, of demo_cluster] by blast
  from rest_is_rolled_out [OF a demo_law s(1,2)] a s(3) show ?thesis by blast
qed

text \<open>
  C12: The mesh trusts what the service issues: in a program at rest, the last element of every chain
  \<open>CreateCertificate\<close> returns, the roots that the leaf was verified against, is the content of the
  ConfigMap in every selected namespace that is not terminating.
\<close>

theorem mesh_trusts_issued:
  fixes a :: "('c, 'kp, 'v, 'ctx) app"
  assumes "RunE renv opts = Inr a" and "cm_law client"
    and "(rollout_step tenv sign client (reg_rootCAsEvent (app_configmap a)))\<^sup>*\<^sup>*
      (rollout_init (app_tls a) (app_configmap a) st k) s"
    and "at_rest (reg_rootCAsEvent (app_configmap a)) s"
    and "set polls \<subseteq> {PollDone, PollTick (prv_rootCAs (provider_of s))}"
    and "CreateCertificate env pki (Sign cmenv m) (Provider_RootCAs polls) ctxErr srv cl ctx icr =
      (Return (Inr chain), cl')"
    and "eligible (fst (wq_env (ro_controller s))) (snd (wq_env (ro_controller s))) ns"
  shows "chain \<noteq> [] \<and> up_to_date client (wq_world (ro_controller s)) (last chain) ns"
proof -
  obtain b r where b: "parseCertificateBundle pki (Provider_RootCAs polls) ctxErr b = Return (Inr chain)"
    and r: "Provider_RootCAs polls = Return (Some r)"
    using svc.answer_verified [OF assms(6)] by metis
  obtain es where "chain = es @ [rc_PEM r]" using parseCertificateBundle_Inr [OF b [unfolded r]] by metis
  moreover have "r = prv_rootCAs (provider_of s)" using Provider_RootCAs_held [OF r] assms(5) by blast
  moreover have "rolled_out client s"
    by (rule rest_rolled_out [OF rollout_inv_run [OF assms(3,2) RunE_rollout [OF assms(1)]] assms(4)])
  ultimately show ?thesis using assms(7) by (simp add: rolled_out_def)
qed

theorem mesh_trusts_issued_witness:
  "\<exists>(a :: (string, string, string, unit) app) (s :: (string, string, string, unit cluster, KConfigMap list) rollout) cl'.
     RunE demo_run world_options = Inr a \<and>
     (rollout_step demo_tls_env (Sign demo_env demo_manager) (list_client km_key) (reg_rootCAsEvent (app_configmap a)))\<^sup>*\<^sup>*
       (rollout_init (app_tls a) (app_configmap a) demo_cluster demo_kube) s \<and>
     CreateCertificate world_auth world_pki (Sign demo_env demo_manager) (Provider_RootCAs [PollTick world_root])
       (Errorf ''done'') world_server demo_cluster () demo_icr = (Return (Inr [''cert'', ''root'']), cl') \<and>
     up_to_date (list_client km_key) (wq_world (ro_controller s)) ''root'' ''a''"
proof -
  obtain a :: "(string, string, string, unit) app" where a: "RunE demo_run world_options = Inr a"
    using world_runs by blast
  obtain s :: "(string, string, string, unit cluster, KConfigMap list) rollout" where
    s: "(rollout_step demo_tls_env (Sign demo_env demo_manager) (list_client km_key)
       (reg_rootCAsEvent (app_configmap a)))\<^sup>*\<^sup>* (rollout_init (app_tls a) (app_configmap a) demo_cluster demo_kube) s"
    "at_rest (reg_rootCAsEvent (app_configmap a)) s" "prv_rootCAs (provider_of s) = demo_roots"
    "eligible (fst (wq_env (ro_controller s))) (snd (wq_env (ro_controller s))) ''a''"
    using world_scenario [OF a, of demo_cluster] by blast
  obtain cl' where c: "CreateCertificate world_auth world_pki (Sign demo_env demo_manager)
       (Provider_RootCAs [PollTick world_root]) (Errorf ''done'') world_server demo_cluster () demo_icr
     = (Return (Inr [''cert'', ''root'']), cl')"
    using world_answers [of "Errorf ''done''"] by (metis fst_conv surj_pair)
  have "set [PollTick world_root] \<subseteq> {PollDone, PollTick (prv_rootCAs (provider_of s))}"
    by (simp add: s(3) world_root_def demo_roots_def)
  from mesh_trusts_issued [OF a demo_law s(1,2) this c s(4)]
  have "up_to_date (list_client km_key) (wq_world (ro_controller s)) ''root'' ''a''" by simp
  with a s(1) c show ?thesis by (intro exI [of _ a] exI [of _ s] exI [of _ cl'] conjI)
qed

end
